(* ===== verification/Prelude.thy ===== *)
theory Prelude
  imports Main "HOL-Library.Word" "HOL-Library.Monad_Syntax"
begin

text \<open>
  The vocabulary every component of the development shares.

  \<^item> Go values: \<open>byte\<close>, \<open>u16\<close>, \<open>u32\<close>, \<open>u64\<close> are machine words; Go's \<open>int\<close> is a HOL
    \<open>int\<close>, with \<open>wrap64\<close> written out where 64 bits can overflow; a Go string is its list of
    bytes, a \<open>string\<close>; an \<open>error\<close> is its text, and the Go value \<open>nil\<close> of type \<open>error\<close> is
    \<open>None :: error option\<close>.
  \<^item> Panics: a function that can panic (index or slice out of range, nil dereference, close of
    a closed channel) returns an \<open>option\<close> and a panic is \<open>None\<close>. Sequencing is the \<open>do\<close>
    notation of the option monad, so a panic ends the whole call, as it does in Go. A function
    that returns an \<open>error\<close> returns it as a value next to the state, because what the function
    wrote before the error stays written.
  \<^item> Memory: a Go byte slice is a list; \<open>window\<close> and \<open>overlay\<close> are the two primitive
    accesses to a list (read and write a run of cells), and the slice operations of the
    language, \<open>copy\<close>, the little-endian accessors of \<open>encoding/binary\<close> and the unsafe 16-bit
    loads and stores are defined from them.
\<close>

unbundle bit_operations_syntax

section \<open>Types\<close>

type_synonym byte = "8 word"
type_synonym u16 = "16 word"
type_synonym u32 = "32 word"
type_synonym u64 = "64 word"
type_synonym error = string

named_theorems mem_simps \<open>reading back what was written to a list of cells\<close>
named_theorems go_defs \<open>the definitions of the Go primitives\<close>

section \<open>Windows and overlays of a list\<close>

definition window :: "'a list \<Rightarrow> nat \<Rightarrow> nat \<Rightarrow> 'a list" where
  "window xs i n = take n (drop i xs)"

definition overlay :: "'a list \<Rightarrow> nat \<Rightarrow> 'a list \<Rightarrow> 'a list" where
  "overlay xs i ys = take i xs @ ys @ drop (i + length ys) xs"

lemma length_window [simp]: "length (window xs i n) = min n (length xs - i)"
  by (simp add: window_def)

lemma length_overlay [simp]:
  "i + length ys \<le> length xs \<Longrightarrow> length (overlay xs i ys) = length xs"
  by (simp add: overlay_def)

lemma overlay_Nil [simp]: "overlay xs i [] = xs"
  by (simp add: overlay_def)

lemma nth_window: "k < n \<Longrightarrow> i + k < length xs \<Longrightarrow> window xs i n ! k = xs ! (i + k)"
  by (simp add: window_def)

lemma nth_overlay:
  assumes "i + length ys \<le> length xs" and "k < length xs"
  shows "overlay xs i ys ! k =
    (if i \<le> k \<and> k < i + length ys then ys ! (k - i) else xs ! k)"
  using assms by (auto simp: overlay_def nth_append)

lemma window_overlay_same [mem_simps]:
  assumes "i + length ys \<le> length xs" and "n = length ys"
  shows "window (overlay xs i ys) i n = ys"
  using assms by (simp add: window_def overlay_def)

lemma window_overlay_other [mem_simps]:
  assumes "i + length ys \<le> length xs" and "j + n \<le> i \<or> i + length ys \<le> j"
  shows "window (overlay xs i ys) j n = window xs j n"
  using assms by (intro nth_equalityI) (auto simp: nth_window nth_overlay)

lemma window_overlay_prefix [mem_simps]:
  assumes "i + length ys \<le> length xs" and "n \<le> length ys"
  shows "window (overlay xs i ys) i n = take n ys"
  using assms by (simp add: window_def overlay_def)

lemma window_overlay_inside:
  assumes "j + length ys \<le> n" and "i + n \<le> length xs"
  shows "window (overlay xs (i + j) ys) i n = overlay (window xs i n) j ys"
  using assms by (intro nth_equalityI) (auto simp: nth_window nth_overlay)

lemma window_window:
  "j + m \<le> n \<Longrightarrow> window (window xs i n) j m = window xs (i + j) m"
  by (simp add: window_def drop_take add.commute min_def)

lemma window_0_all [simp]: "length xs \<le> n \<Longrightarrow> window xs 0 n = xs"
  by (simp add: window_def)

lemma overlay_0_all: "length ys = length xs \<Longrightarrow> overlay xs 0 ys = ys"
  by (simp add: overlay_def)

lemma take_window [simp]: "take m (window xs i n) = window xs i (min m n)"
  by (simp add: window_def)

lemma window_replicate: "i + n \<le> m \<Longrightarrow> window (replicate m x) i n = replicate n x"
  by (simp add: window_def)

section \<open>Little-endian words\<close>

text \<open>
  \<open>put_le n v\<close> is the \<open>n\<close> low bytes of \<open>v\<close>, lowest first; \<open>get_le\<close> reads them back. They
  stand for the \<open>PutUint16\<close>/\<open>PutUint32\<close>/\<open>Uint16\<close>/\<open>Uint32\<close> methods of
  \<open>binary.LittleEndian\<close> and for the integer cases of \<open>binary.Write\<close> and \<open>binary.Read\<close>.
\<close>

fun put_le :: "nat \<Rightarrow> 'a::len word \<Rightarrow> byte list" where
  "put_le 0 v = []"
| "put_le (Suc n) v = ucast v # put_le n (drop_bit 8 v)"

fun get_le :: "byte list \<Rightarrow> 'a::len word" where
  "get_le [] = 0"
| "get_le (b # bs) = ucast b OR push_bit 8 (get_le bs)"

lemma length_put_le [simp]: "length (put_le n v) = n"
  by (induction n arbitrary: v) auto

lemma low_byte_or_rest: "(ucast (ucast v :: byte) OR push_bit 8 (take_bit m (drop_bit 8 v)) :: 'a::len word)
    = take_bit (m + 8) v"
  by (rule bit_word_eqI) (auto simp: bit_simps)

lemma get_put_le: "get_le (put_le n v) = take_bit (8 * n) v"
  by (induction n arbitrary: v) (auto simp: low_byte_or_rest add.commute)

lemma take_bit_word_beyond: "LENGTH('a::len) \<le> n \<Longrightarrow> take_bit n (v :: 'a word) = v"
  by (rule bit_word_eqI) (auto simp: bit_simps)

lemma get_put_le_full [simp]:
  "LENGTH('a::len) \<le> 8 * n \<Longrightarrow> get_le (put_le n (v :: 'a word)) = v"
  by (simp add: get_put_le take_bit_word_beyond)

lemma bit_get_le:
  "bit (get_le bs :: 'a::len word) i \<longleftrightarrow>
     i < LENGTH('a) \<and> i < 8 * length bs \<and> bit (bs ! (i div 8)) (i mod 8)"
proof (induction bs arbitrary: i)
  case Nil
  then show ?case by simp
next
  case (Cons b bs)
  show ?case
  proof (cases "i < 8")
    case True
    then show ?thesis by (auto simp: bit_simps)
  next
    case False
    then obtain j where j: "i = 8 + j" by (metis le_add_diff_inverse not_less)
    then have "(8 + j) div 8 = Suc (j div 8)" by simp
    moreover have "\<not> bit b (8 + j)" using bit_imp_le_length [of b "8 + j"] by auto
    ultimately show ?thesis using j Cons.IH [of j] by (auto simp: bit_simps)
  qed
qed

lemma put_get_le:
  assumes "8 * length bs \<le> LENGTH('a::len)"
  shows "put_le (length bs) (get_le bs :: 'a word) = bs"
proof -
  have *: "put_le n (v :: 'a word) = map (\<lambda>i. ucast (drop_bit (8 * i) v)) [0..<n]" for n v
  proof (induction n arbitrary: v)
    case (Suc n)
    then show ?case
      by (simp add: upt_conv_Cons map_Suc_upt [symmetric] comp_def add.commute del: upt_Suc)
  qed simp
  show ?thesis
    unfolding * using assms
    by (intro nth_equalityI bit_word_eqI) (auto simp: bit_simps bit_get_le)
qed

section \<open>Go integers\<close>

text \<open>\<open>wrap64\<close> reduces to the range of Go's 64-bit \<open>int\<close>; \<open>shl1 n\<close> is the \<open>int\<close> value of
  \<open>1 << n\<close>, which is 0 for \<open>n \<ge> 64\<close>. \<open>and_int\<close> is \<open>&\<close> on \<open>int\<close>.\<close>

definition wrap64 :: "int \<Rightarrow> int" where
  "wrap64 x = (x + 2 ^ 63) mod 2 ^ 64 - 2 ^ 63"

definition shl1 :: "nat \<Rightarrow> int" where
  "shl1 n = wrap64 (2 ^ n)"

lemma wrap64_id: "- (2 ^ 63) \<le> x \<Longrightarrow> x < 2 ^ 63 \<Longrightarrow> wrap64 x = x"
  by (simp add: wrap64_def)

lemma shl1_small: "n < 63 \<Longrightarrow> shl1 n = 2 ^ n"
proof -
  assume "n < 63"
  then have "(2::int) ^ n < 2 ^ 63" by (rule power_strict_increasing) simp
  moreover have "- (2 ^ 63) \<le> (2::int) ^ n"
    by (rule order_trans [of _ 0]) simp_all
  ultimately show ?thesis unfolding shl1_def by (intro wrap64_id) simp_all
qed

lemma and_low_mask: "(x :: int) AND (2 ^ k - 1) = x mod 2 ^ k"
  by (simp flip: mask_eq_exp_minus_1 take_bit_eq_mask take_bit_eq_mod)

lemma unat_ucast_up:
  assumes "LENGTH('a::len) \<le> LENGTH('b::len)"
  shows "unat (ucast (x :: 'a word) :: 'b word) = unat x"
proof -
  have "unat x < 2 ^ LENGTH('a)" by (rule unsigned_less)
  also have "\<dots> \<le> 2 ^ LENGTH('b)" using assms by (rule power_increasing) simp
  finally show ?thesis by (simp add: unsigned_ucast_eq take_bit_nat_eq_self)
qed

section \<open>Go strings and decimal printing\<close>

definition bytes_of_string :: "string \<Rightarrow> byte list" where
  "bytes_of_string s = map (\<lambda>c. word_of_nat (of_char c)) s"

definition string_of_bytes :: "byte list \<Rightarrow> string" where
  "string_of_bytes bs = map (\<lambda>b. char_of (unat b)) bs"

lemma length_bytes_of_string [simp]: "length (bytes_of_string s) = length s"
  by (simp add: bytes_of_string_def)

lemma length_string_of_bytes [simp]: "length (string_of_bytes bs) = length bs"
  by (simp add: string_of_bytes_def)

lemma unat_of_char_byte: "unat (word_of_nat (of_char c) :: byte) = of_char c"
proof -
  have "(of_char c :: nat) < 256" by simp
  then show ?thesis by (simp add: unat_of_nat)
qed

lemma string_of_bytes_of_string [simp]: "string_of_bytes (bytes_of_string s) = s"
  by (simp add: string_of_bytes_def bytes_of_string_def comp_def unat_of_char_byte)

fun digits :: "nat \<Rightarrow> string" where
  "digits n = (if n < 10 then [char_of (48 + n)] else digits (n div 10) @ [char_of (48 + n mod 10)])"

declare digits.simps [simp del]

definition itoa :: "int \<Rightarrow> string" where
  "itoa i = (if i < 0 then ''-'' @ digits (nat (- i)) else digits (nat i))"

section \<open>Slices, \<open>copy\<close> and typed accesses\<close>

text \<open>\<open>go_from xs i\<close> is \<open>xs[i:]\<close>, \<open>go_range xs i j\<close> is \<open>xs[i:j]\<close>; both panic out of range.
  Every slice of the program has its capacity equal to its length, so the upper bound is the
  length.\<close>

definition go_from :: "'a list \<Rightarrow> int \<Rightarrow> 'a list option" where
  "go_from xs i = (if 0 \<le> i \<and> i \<le> int (length xs) then Some (drop (nat i) xs) else None)"

definition go_range :: "'a list \<Rightarrow> int \<Rightarrow> int \<Rightarrow> 'a list option" where
  "go_range xs i j =
     (if 0 \<le> i \<and> i \<le> j \<and> j \<le> int (length xs) then Some (window xs (nat i) (nat (j - i))) else None)"

definition go_nth :: "'a list \<Rightarrow> int \<Rightarrow> 'a option" where
  "go_nth xs i = (if 0 \<le> i \<and> i < int (length xs) then Some (xs ! nat i) else None)"

text \<open>\<open>copy(dst[i:], src)\<close> and \<open>copy(dst[i:j], src)\<close>: the number of elements copied and the
  destination afterwards.\<close>

definition go_copy_from :: "'a list \<Rightarrow> int \<Rightarrow> 'a list \<Rightarrow> (int \<times> 'a list) option" where
  "go_copy_from dst i src =
     (if 0 \<le> i \<and> i \<le> int (length dst)
      then let n = min (length dst - nat i) (length src)
           in Some (int n, overlay dst (nat i) (take n src))
      else None)"

definition go_copy_range :: "'a list \<Rightarrow> int \<Rightarrow> int \<Rightarrow> 'a list \<Rightarrow> (int \<times> 'a list) option" where
  "go_copy_range dst i j src =
     (if 0 \<le> i \<and> i \<le> j \<and> j \<le> int (length dst)
      then let n = min (nat (j - i)) (length src)
           in Some (int n, overlay dst (nat i) (take n src))
      else None)"

text \<open>\<open>binary.LittleEndian.Uint<8n>(b[off:])\<close> and \<open>PutUint<8n>(b[off:], v)\<close>: a panic when
  fewer than \<open>n\<close> bytes are left.\<close>

definition le_get :: "nat \<Rightarrow> byte list \<Rightarrow> nat \<Rightarrow> 'a::len word option" where
  "le_get n b off = (if off + n \<le> length b then Some (get_le (window b off n)) else None)"

definition le_put :: "nat \<Rightarrow> byte list \<Rightarrow> nat \<Rightarrow> 'a::len word \<Rightarrow> byte list option" where
  "le_put n b off v = (if off + n \<le> length b then Some (overlay b off (put_le n v)) else None)"

text \<open>\<open>*(*uint16)(unsafe.Pointer(&b[i]))\<close> as a load and as a store on a little-endian machine.
  Go checks the index of the first byte only; an access whose second byte lies past the slice
  leaves the memory the program owns and is \<open>None\<close> as well.\<close>

definition load16 :: "byte list \<Rightarrow> int \<Rightarrow> int option" where
  "load16 b i =
     (if 0 \<le> i \<and> i + 2 \<le> int (length b) then Some (uint (get_le (window b (nat i) 2) :: u16)) else None)"

definition store16 :: "byte list \<Rightarrow> int \<Rightarrow> int \<Rightarrow> byte list option" where
  "store16 b i v =
     (if 0 \<le> i \<and> i + 2 \<le> int (length b) then Some (overlay b (nat i) (put_le 2 (word_of_int v :: u16)))
      else None)"

declare go_from_def [go_defs] go_range_def [go_defs] go_nth_def [go_defs]
  go_copy_from_def [go_defs] go_copy_range_def [go_defs] le_get_def [go_defs] le_put_def [go_defs]
  load16_def [go_defs] store16_def [go_defs]

section \<open>The contract of an integer field in a byte buffer\<close>

text \<open>
  Descriptors and ring headers are byte buffers read and written through accessors of one
  little-endian field each. \<open>le_field\<close> is the contract of such a pair of accessors: on a buffer
  of \<open>cap\<close> bytes neither panics, a store keeps the length, a load after a store gives the
  stored value reduced to the width of the field, and a store touches no byte outside the field.
  \<open>le_field_pair\<close> is two fields that do not overlap: writing one leaves the other readable.
\<close>

locale le_field =
  fixes get :: "byte list \<Rightarrow> int option"
    and put :: "byte list \<Rightarrow> int \<Rightarrow> byte list option"
    and off w cap :: nat
  assumes get_total: "length b = cap \<Longrightarrow> \<exists>v. get b = Some v \<and> 0 \<le> v \<and> v < 2 ^ (8 * w)"
    and get_cong: "length b = cap \<Longrightarrow> length b' = cap \<Longrightarrow> window b' off w = window b off w \<Longrightarrow>
      get b' = get b"
    and put_total: "length b = cap \<Longrightarrow> \<exists>b'. put b v = Some b' \<and> length b' = cap"
    and get_put: "length b = cap \<Longrightarrow> put b v = Some b' \<Longrightarrow> get b' = Some (v mod 2 ^ (8 * w))"
    and put_frame: "length b = cap \<Longrightarrow> put b v = Some b' \<Longrightarrow> j + n \<le> off \<or> off + w \<le> j \<Longrightarrow>
      window b' j n = window b j n"
begin

lemma put_length: "length b = cap \<Longrightarrow> put b v = Some b' \<Longrightarrow> length b' = cap"
  using put_total [of b v] by auto

lemma get_put_id:
  "length b = cap \<Longrightarrow> put b v = Some b' \<Longrightarrow> 0 \<le> v \<Longrightarrow> v < 2 ^ (8 * w) \<Longrightarrow> get b' = Some v"
  by (simp add: get_put)

lemma put_obtain:
  assumes "length b = cap"
  obtains b' where "put b v = Some b'" "length b' = cap" "get b' = Some (v mod 2 ^ (8 * w))"
  using put_total [OF assms, of v] get_put [OF assms] by blast

end

locale le_field_pair =
  l: le_field get1 put1 off1 w1 cap + r: le_field get2 put2 off2 w2 cap
  for get1 put1 off1 w1 get2 put2 off2 w2 cap +
  assumes apart: "off1 + w1 \<le> off2 \<or> off2 + w2 \<le> off1"
begin

lemma get2_put1: "length b = cap \<Longrightarrow> put1 b v = Some b' \<Longrightarrow> get2 b' = get2 b"
  using apart by (intro r.get_cong l.put_frame [of b v]) (simp_all add: l.put_length [of b v] disj_commute)

lemma get1_put2: "length b = cap \<Longrightarrow> put2 b v = Some b' \<Longrightarrow> get1 b' = get1 b"
  using apart by (intro l.get_cong r.put_frame [of b v]) (simp_all add: r.put_length [of b v] disj_commute)

end

text \<open>Every accessor of the program is of one of these two shapes.\<close>

definition le_get16 :: "nat \<Rightarrow> byte list \<Rightarrow> int option" where
  "le_get16 off b = map_option uint (le_get 2 b off :: u16 option)"

definition le_put16 :: "nat \<Rightarrow> byte list \<Rightarrow> int \<Rightarrow> byte list option" where
  "le_put16 off b v = le_put 2 b off (word_of_int v :: u16)"

definition le_get32 :: "nat \<Rightarrow> byte list \<Rightarrow> int option" where
  "le_get32 off b = map_option uint (le_get 4 b off :: u32 option)"

definition le_put32 :: "nat \<Rightarrow> byte list \<Rightarrow> int \<Rightarrow> byte list option" where
  "le_put32 off b v = le_put 4 b off (word_of_int v :: u32)"

declare le_get16_def [go_defs] le_put16_def [go_defs] le_get32_def [go_defs] le_put32_def [go_defs]

lemma uint_word_of_int_mod: "uint (word_of_int v :: 'a::len word) = v mod 2 ^ LENGTH('a)"
  by (simp add: unsigned_of_int take_bit_eq_mod)

lemma uint_u16_less [simp]: "uint (x :: u16) < 65536"
  using uint_bounded [of x] by simp

lemma uint_u32_less [simp]: "uint (x :: u32) < 4294967296"
  using uint_bounded [of x] by simp

lemma le_field_16:
  assumes "off + 2 \<le> cap"
  shows "le_field (le_get16 off) (le_put16 off) off 2 cap"
  using assms
  by unfold_locales (auto simp: go_defs mem_simps uint_word_of_int_mod split: if_splits)

lemma le_field_32:
  assumes "off + 4 \<le> cap"
  shows "le_field (le_get32 off) (le_put32 off) off 4 cap"
  using assms
  by unfold_locales (auto simp: go_defs mem_simps uint_word_of_int_mod split: if_splits)

section \<open>Storing the low half of a 32-bit field\<close>

text \<open>A 16-bit store into a 32-bit little-endian field whose value is below \<open>2 ^ 16\<close> replaces the
  whole value.\<close>

lemma put_le_4_ucast: "put_le 4 (ucast (w :: u16) :: u32) = put_le 2 w @ [0, 0]"
proof -
  have "(ucast (ucast w :: u32) :: byte) = ucast w" by (rule bit_word_eqI) (auto simp: bit_simps)
  moreover have "(ucast (drop_bit 8 (ucast w :: u32)) :: byte) = ucast (drop_bit 8 w)"
    by (rule bit_word_eqI) (auto simp: bit_simps)
  moreover have "(ucast (drop_bit 16 (ucast w :: u32)) :: byte) = 0"
    by (rule bit_word_eqI) (auto simp: bit_simps dest: bit_imp_le_length)
  moreover have "(ucast (drop_bit 24 (ucast w :: u32)) :: byte) = 0"
    by (rule bit_word_eqI) (auto simp: bit_simps dest: bit_imp_le_length)
  ultimately show ?thesis by (simp add: eval_nat_numeral)
qed

lemma high_bytes_zero:
  assumes "length bs = 4" and "uint (get_le bs :: u32) < 65536"
  shows "drop 2 bs = [0, 0]"
proof -
  let ?v = "get_le bs :: u32"
  have "ucast (ucast ?v :: u16) = ?v"
    using assms(2)
    by (simp add: word_uint_eq_iff unsigned_ucast_eq unsigned_take_bit_eq take_bit_int_eq_self)
  then have "put_le 4 ?v = put_le 2 (ucast ?v :: u16) @ [0, 0]"
    using put_le_4_ucast [of "ucast ?v"] by simp
  moreover have "put_le 4 ?v = bs" using put_get_le [of bs, where 'a = 32] assms(1) by simp
  ultimately show ?thesis by (metis append_eq_conv_conj length_put_le)
qed

lemma get_le_low16:
  assumes "length bs = 4" and "uint (get_le bs :: u32) < 65536"
  shows "get_le (put_le 2 (w :: u16) @ drop 2 bs) = (ucast w :: u32)"
proof -
  have "put_le 2 w @ drop 2 bs = put_le 4 (ucast w :: u32)"
    using high_bytes_zero [OF assms] put_le_4_ucast [of w] by simp
  then show ?thesis by (simp only:) (rule get_put_le_full, simp)
qed

end
