(* ===== verification/Descriptor.thy ===== *)
theory Descriptor
  imports Prelude
begin

text \<open>
  Descriptors (\<^verbatim>\<open>src/descriptor.go\<close>): a descriptor is 16 bytes of a ring, read and written
  through accessors of its five fields. The accessors are the Go methods on \<open>descBuf\<close>; the
  copies between a \<open>descBuf\<close> and the shared memory are in theory \<open>Queue\<close>. The
  interpretations of \<open>le_field\<close> and \<open>le_field_pair\<close> show that the five fields are
  independent, and \<open>desc_reset\<close> packages what \<open>WritePacket\<close> relies on.
\<close>

section \<open>Model\<close>

definition descSize :: nat where "descSize = 16"

definition descFlagNext :: int where "descFlagNext = 1"

definition descFlagsOffset :: nat where "descFlagsOffset = 0"
definition descRegionOffset :: nat where "descRegionOffset = 2"
definition descLengthOffset :: nat where "descLengthOffset = 4"
definition descOffsetOffset :: nat where "descOffsetOffset = 8"
definition descMetadataOffset :: nat where "descMetadataOffset = 12"

lemmas desc_consts [simp] = descSize_def descFlagNext_def descFlagsOffset_def descRegionOffset_def
  descLengthOffset_def descOffsetOffset_def descMetadataOffset_def

type_synonym descBuf = "byte list"

definition newDescBuf :: descBuf where
  "newDescBuf = replicate descSize 0"

definition desc_getFlags :: "descBuf \<Rightarrow> int option" where
  "desc_getFlags db = le_get16 descFlagsOffset db"

definition desc_getRegion :: "descBuf \<Rightarrow> int option" where
  "desc_getRegion db = le_get16 descRegionOffset db"

definition desc_getLength :: "descBuf \<Rightarrow> int option" where
  "desc_getLength db = le_get32 descLengthOffset db"

definition desc_getOffset :: "descBuf \<Rightarrow> int option" where
  "desc_getOffset db = le_get32 descOffsetOffset db"

definition desc_setFlags :: "descBuf \<Rightarrow> int \<Rightarrow> descBuf option" where
  "desc_setFlags db val = le_put16 descFlagsOffset db val"

definition desc_setRegion :: "descBuf \<Rightarrow> int \<Rightarrow> descBuf option" where
  "desc_setRegion db val = le_put16 descRegionOffset db val"

definition desc_setLength :: "descBuf \<Rightarrow> int \<Rightarrow> descBuf option" where
  "desc_setLength db val = le_put32 descLengthOffset db val"

definition desc_setOffset :: "descBuf \<Rightarrow> int \<Rightarrow> descBuf option" where
  "desc_setOffset db val = le_put32 descOffsetOffset db val"

definition desc_getMetadata :: "descBuf \<Rightarrow> int option" where
  "desc_getMetadata db = le_get32 descMetadataOffset db"

definition desc_setMetadata :: "descBuf \<Rightarrow> int \<Rightarrow> descBuf option" where
  "desc_setMetadata db val = le_put32 descMetadataOffset db val"

lemmas desc_access_defs = desc_getFlags_def desc_getRegion_def desc_getLength_def
  desc_getOffset_def desc_getMetadata_def desc_setFlags_def desc_setRegion_def
  desc_setLength_def desc_setOffset_def desc_setMetadata_def

section \<open>The fields honour the contract\<close>

lemma length_newDescBuf [simp]: "length newDescBuf = descSize"
  by (simp add: newDescBuf_def)

interpretation dflags: le_field desc_getFlags desc_setFlags descFlagsOffset 2 descSize
  unfolding desc_access_defs [abs_def] by (rule le_field_16) simp

interpretation dregion: le_field desc_getRegion desc_setRegion descRegionOffset 2 descSize
  unfolding desc_access_defs [abs_def] by (rule le_field_16) simp

interpretation dlength: le_field desc_getLength desc_setLength descLengthOffset 4 descSize
  unfolding desc_access_defs [abs_def] by (rule le_field_32) simp

interpretation doffset: le_field desc_getOffset desc_setOffset descOffsetOffset 4 descSize
  unfolding desc_access_defs [abs_def] by (rule le_field_32) simp

interpretation dmeta: le_field desc_getMetadata desc_setMetadata descMetadataOffset 4 descSize
  unfolding desc_access_defs [abs_def] by (rule le_field_32) simp

interpretation dflags_region: le_field_pair desc_getFlags desc_setFlags descFlagsOffset 2
  desc_getRegion desc_setRegion descRegionOffset 2 descSize
  by unfold_locales simp

interpretation dflags_length: le_field_pair desc_getFlags desc_setFlags descFlagsOffset 2
  desc_getLength desc_setLength descLengthOffset 4 descSize
  by unfold_locales simp

interpretation dflags_offset: le_field_pair desc_getFlags desc_setFlags descFlagsOffset 2
  desc_getOffset desc_setOffset descOffsetOffset 4 descSize
  by unfold_locales simp

interpretation dflags_meta: le_field_pair desc_getFlags desc_setFlags descFlagsOffset 2
  desc_getMetadata desc_setMetadata descMetadataOffset 4 descSize
  by unfold_locales simp

interpretation dregion_length: le_field_pair desc_getRegion desc_setRegion descRegionOffset 2
  desc_getLength desc_setLength descLengthOffset 4 descSize
  by unfold_locales simp

interpretation dregion_offset: le_field_pair desc_getRegion desc_setRegion descRegionOffset 2
  desc_getOffset desc_setOffset descOffsetOffset 4 descSize
  by unfold_locales simp

interpretation dregion_meta: le_field_pair desc_getRegion desc_setRegion descRegionOffset 2
  desc_getMetadata desc_setMetadata descMetadataOffset 4 descSize
  by unfold_locales simp

interpretation dlength_offset: le_field_pair desc_getLength desc_setLength descLengthOffset 4
  desc_getOffset desc_setOffset descOffsetOffset 4 descSize
  by unfold_locales simp

interpretation dlength_meta: le_field_pair desc_getLength desc_setLength descLengthOffset 4
  desc_getMetadata desc_setMetadata descMetadataOffset 4 descSize
  by unfold_locales simp

interpretation doffset_meta: le_field_pair desc_getOffset desc_setOffset descOffsetOffset 4
  desc_getMetadata desc_setMetadata descMetadataOffset 4 descSize
  by unfold_locales simp

lemmas desc_put_length = dflags.put_length dregion.put_length dlength.put_length
  doffset.put_length dmeta.put_length

lemmas desc_get_put = dflags.get_put dregion.get_put dlength.get_put doffset.get_put dmeta.get_put

text \<open>What a store to one field leaves readable, by the field stored to.\<close>

lemmas dflags_others = dflags_region.get2_put1 dflags_length.get2_put1 dflags_offset.get2_put1
  dflags_meta.get2_put1

lemmas dregion_others = dflags_region.get1_put2 dregion_length.get2_put1 dregion_offset.get2_put1
  dregion_meta.get2_put1

lemmas dlength_others = dflags_length.get1_put2 dregion_length.get1_put2 dlength_offset.get2_put1
  dlength_meta.get2_put1

lemmas doffset_others = dflags_offset.get1_put2 dregion_offset.get1_put2 dlength_offset.get1_put2
  doffset_meta.get2_put1

lemmas dmeta_others = dflags_meta.get1_put2 dregion_meta.get1_put2 dlength_meta.get1_put2
  doffset_meta.get1_put2

section \<open>A descriptor with its fields read\<close>

text \<open>\<open>desc_is db f r l off\<close>: the descriptor \<open>db\<close> has flags \<open>f\<close>, region \<open>r\<close>, length \<open>l\<close> and
  offset \<open>off\<close>. Each setter moves one component and keeps the others.\<close>

definition desc_is :: "descBuf \<Rightarrow> int \<Rightarrow> int \<Rightarrow> int \<Rightarrow> int \<Rightarrow> bool" where
  "desc_is db f r l off \<longleftrightarrow> length db = descSize \<and> desc_getFlags db = Some f \<and>
     desc_getRegion db = Some r \<and> desc_getLength db = Some l \<and> desc_getOffset db = Some off"

lemma desc_isD:
  assumes "desc_is db f r l off"
  shows "length db = descSize" "desc_getFlags db = Some f" "desc_getRegion db = Some r"
    "desc_getLength db = Some l" "desc_getOffset db = Some off"
  using assms by (auto simp: desc_is_def)

lemma desc_is_total:
  assumes "length db = descSize"
  obtains f r l off where "desc_is db f r l off"
    "0 \<le> f" "f < 65536" "0 \<le> r" "r < 65536" "0 \<le> l" "l < 2 ^ 32" "0 \<le> off" "off < 2 ^ 32"
proof -
  obtain f r l off where
    "desc_getFlags db = Some f \<and> 0 \<le> f \<and> f < 2 ^ (8 * 2)"
    "desc_getRegion db = Some r \<and> 0 \<le> r \<and> r < 2 ^ (8 * 2)"
    "desc_getLength db = Some l \<and> 0 \<le> l \<and> l < 2 ^ (8 * 4)"
    "desc_getOffset db = Some off \<and> 0 \<le> off \<and> off < 2 ^ (8 * 4)"
    using dflags.get_total [OF assms] dregion.get_total [OF assms] dlength.get_total [OF assms]
      doffset.get_total [OF assms] by blast
  then show thesis using that assms by (simp add: desc_is_def)
qed

lemma desc_is_bounds:
  assumes "desc_is db f r l off"
  shows "0 \<le> f" "f < 65536" "0 \<le> r" "r < 65536" "0 \<le> l" "l < 2 ^ 32" "0 \<le> off" "off < 2 ^ 32"
  using desc_is_total [OF desc_isD(1) [OF assms]] assms by (auto simp: desc_is_def)

lemma desc_is_setFlags:
  assumes "desc_is db f r l off"
  obtains db' where "desc_setFlags db v = Some db'" "desc_is db' (v mod 65536) r l off"
proof -
  note len = desc_isD(1) [OF assms]
  obtain db' where db': "desc_setFlags db v = Some db'"
    using dflags.put_obtain [OF len] by blast
  moreover have "desc_is db' (v mod 65536) r l off"
    using assms dflags.get_put [OF len db'] dflags.put_length [OF len db']
    by (simp add: desc_is_def dflags_others [OF len db'])
  ultimately show thesis by (rule that)
qed

lemma desc_is_setRegion:
  assumes "desc_is db f r l off"
  obtains db' where "desc_setRegion db v = Some db'" "desc_is db' f (v mod 65536) l off"
proof -
  note len = desc_isD(1) [OF assms]
  obtain db' where db': "desc_setRegion db v = Some db'"
    using dregion.put_obtain [OF len] by blast
  moreover have "desc_is db' f (v mod 65536) l off"
    using assms dregion.get_put [OF len db'] dregion.put_length [OF len db']
    by (simp add: desc_is_def dregion_others [OF len db'])
  ultimately show thesis by (rule that)
qed

lemma desc_is_setLength:
  assumes "desc_is db f r l off"
  obtains db' where "desc_setLength db v = Some db'" "desc_is db' f r (v mod 2 ^ 32) off"
proof -
  note len = desc_isD(1) [OF assms]
  obtain db' where db': "desc_setLength db v = Some db'"
    using dlength.put_obtain [OF len] by blast
  moreover have "desc_is db' f r (v mod 2 ^ 32) off"
    using assms dlength.get_put [OF len db'] dlength.put_length [OF len db']
    by (simp add: desc_is_def dlength_others [OF len db'])
  ultimately show thesis by (rule that)
qed

lemma desc_is_setOffset:
  assumes "desc_is db f r l off"
  obtains db' where "desc_setOffset db v = Some db'" "desc_is db' f r l (v mod 2 ^ 32)"
proof -
  note len = desc_isD(1) [OF assms]
  obtain db' where db': "desc_setOffset db v = Some db'"
    using doffset.put_obtain [OF len] by blast
  moreover have "desc_is db' f r l (v mod 2 ^ 32)"
    using assms doffset.get_put [OF len db'] doffset.put_length [OF len db']
    by (simp add: desc_is_def doffset_others [OF len db'])
  ultimately show thesis by (rule that)
qed

lemma desc_is_fun:
  "desc_is db f r l off \<Longrightarrow> desc_is db f' r' l' off' \<Longrightarrow> f' = f \<and> r' = r \<and> l' = l \<and> off' = off"
  by (simp add: desc_is_def)

text \<open>A 16-bit store to the length field, as \<open>setDescLength\<close> makes it.\<close>

lemma desc_is_low_length:
  assumes di: "desc_is db f r l ofs" and l: "l < 65536"
  shows "desc_is (overlay db descLengthOffset (put_le 2 (w :: u16))) f r (uint w) ofs"
proof -
  let ?db = "overlay db descLengthOffset (put_le 2 w)"
  have len: "length db = descSize" "length ?db = descSize" using desc_isD(1) [OF di] by simp_all
  have other: "window ?db j n = window db j n" if "j + n \<le> 4 \<or> 8 \<le> j" for j n
    using that len(1) by (intro window_overlay_other) auto
  have v: "uint (get_le (window db 4 4) :: u32) = l"
    using desc_isD(4) [OF di] len(1) by (simp add: desc_getLength_def le_get32_def le_get_def)
  have "window ?db 4 4 = put_le 2 w @ drop 2 (window db 4 4)"
    using len(1) by (simp add: window_def overlay_def drop_take)
  moreover have "get_le (put_le 2 w @ drop 2 (window db 4 4)) = (ucast w :: u32)"
    using len(1) v l by (intro get_le_low16) simp_all
  moreover have "uint (ucast w :: u32) = uint w"
  proof -
    have "uint w < 2 ^ 32" by (rule less_le_trans [OF uint_u16_less]) simp
    then show ?thesis by (simp add: unsigned_ucast_eq take_bit_int_eq_self)
  qed
  ultimately have "desc_getLength ?db = Some (uint w)"
    using len(2) by (simp add: desc_getLength_def le_get32_def le_get_def)
  moreover have "desc_getFlags ?db = Some f" "desc_getRegion ?db = Some r" "desc_getOffset ?db = Some ofs"
    using di len other [of 0 2] other [of 2 2] other [of 8 4]
    by (simp_all add: desc_is_def desc_access_defs le_get16_def le_get32_def le_get_def)
  ultimately show ?thesis using len(2) by (simp add: desc_is_def)
qed

section \<open>All fields at once\<close>

text \<open>What the five getters return. Each setter changes one component.\<close>

definition desc_fields :: "descBuf \<Rightarrow> int option \<times> int option \<times> int option \<times> int option \<times> int option" where
  "desc_fields db = (desc_getFlags db, desc_getRegion db, desc_getLength db, desc_getOffset db, desc_getMetadata db)"

lemma desc_fields_set:
  assumes "length db = descSize" and "desc_fields db = (f, r, l, ofs, md)"
  shows "\<exists>db'. desc_setFlags db v = Some db' \<and> length db' = descSize \<and> desc_fields db' = (Some (v mod 2 ^ 16), r, l, ofs, md)"
    "\<exists>db'. desc_setRegion db v = Some db' \<and> length db' = descSize \<and> desc_fields db' = (f, Some (v mod 2 ^ 16), l, ofs, md)"
    "\<exists>db'. desc_setLength db v = Some db' \<and> length db' = descSize \<and> desc_fields db' = (f, r, Some (v mod 2 ^ 32), ofs, md)"
    "\<exists>db'. desc_setOffset db v = Some db' \<and> length db' = descSize \<and> desc_fields db' = (f, r, l, Some (v mod 2 ^ 32), md)"
    "\<exists>db'. desc_setMetadata db v = Some db' \<and> length db' = descSize \<and> desc_fields db' = (f, r, l, ofs, Some (v mod 2 ^ 32))"
proof -
  note len = assms(1)
  show "\<exists>db'. desc_setFlags db v = Some db' \<and> length db' = descSize \<and> desc_fields db' = (Some (v mod 2 ^ 16), r, l, ofs, md)"
    using dflags.put_total [OF len, of v] assms(2) by (auto simp: desc_fields_def dflags_others [OF len] dflags.get_put [OF len])
  show "\<exists>db'. desc_setRegion db v = Some db' \<and> length db' = descSize \<and> desc_fields db' = (f, Some (v mod 2 ^ 16), l, ofs, md)"
    using dregion.put_total [OF len, of v] assms(2) by (auto simp: desc_fields_def dregion_others [OF len] dregion.get_put [OF len])
  show "\<exists>db'. desc_setLength db v = Some db' \<and> length db' = descSize \<and> desc_fields db' = (f, r, Some (v mod 2 ^ 32), ofs, md)"
    using dlength.put_total [OF len, of v] assms(2) by (auto simp: desc_fields_def dlength_others [OF len] dlength.get_put [OF len])
  show "\<exists>db'. desc_setOffset db v = Some db' \<and> length db' = descSize \<and> desc_fields db' = (f, r, l, Some (v mod 2 ^ 32), md)"
    using doffset.put_total [OF len, of v] assms(2) by (auto simp: desc_fields_def doffset_others [OF len] doffset.get_put [OF len])
  show "\<exists>db'. desc_setMetadata db v = Some db' \<and> length db' = descSize \<and> desc_fields db' = (f, r, l, ofs, Some (v mod 2 ^ 32))"
    using dmeta.put_total [OF len, of v] assms(2) by (auto simp: desc_fields_def dmeta_others [OF len] dmeta.get_put [OF len])
qed

end
