(* ===== verification/Ring.thy ===== *)
theory Ring
  imports Prelude
begin

text \<open>
  Ring headers (\<^verbatim>\<open>src/ring.go\<close>): the \<open>ring\<close> struct, the header accessors on its local
  128-byte copy \<open>rb\<close>, and the constructor the server uses on a received \<open>MsgAddRing\<close>. The
  client's constructor \<open>Port.newRing\<close> needs the port and is in theory \<open>Port_Types\<close>; the copies
  between \<open>rb\<close> and the shared memory are in theory \<open>Queue\<close>.
\<close>

section \<open>Model\<close>

datatype ringType = ringTypeS2M | ringTypeM2S

definition ringSize :: nat where "ringSize = 128"
definition ringFlagInterrupt :: int where "ringFlagInterrupt = 0"

definition ringCookieOffset :: nat where "ringCookieOffset = 0"
definition ringFlagsOffset :: nat where "ringFlagsOffset = 4"
definition ringHeadOffset :: nat where "ringHeadOffset = 6"
definition ringTailOffset :: nat where "ringTailOffset = 64"

lemmas ring_consts [simp] = ringSize_def ringFlagInterrupt_def ringCookieOffset_def
  ringFlagsOffset_def ringHeadOffset_def ringTailOffset_def

type_synonym ringBuf = "byte list"

record ring =
  ring_ringType :: ringType
  ring_size :: int
  ring_log2Size :: int
  ring_region :: int
  ring_rb :: ringBuf
  ring_offset :: int

text \<open>The server's constructor. A shift by a negative count panics. The field \<open>region\<close> is not
  set by the code: it has its zero value whatever \<open>regionIndex\<close> is.\<close>

definition newRing :: "int \<Rightarrow> ringType \<Rightarrow> int \<Rightarrow> int \<Rightarrow> ring option" where
  "newRing regionIndex rt ringOffset log2RingSize =
     (if log2RingSize < 0 then None
      else Some \<lparr> ring_ringType = rt, ring_size = shl1 (nat log2RingSize),
                  ring_log2Size = log2RingSize, ring_region = 0,
                  ring_rb = replicate ringSize 0, ring_offset = ringOffset \<rparr>)"

definition ring_getCookie :: "ring \<Rightarrow> int option" where
  "ring_getCookie r = le_get32 ringCookieOffset (ring_rb r)"

definition ring_getFlags :: "ring \<Rightarrow> int option" where
  "ring_getFlags r = le_get16 ringFlagsOffset (ring_rb r)"

definition ring_getHead :: "ring \<Rightarrow> int option" where
  "ring_getHead r = le_get16 ringHeadOffset (ring_rb r)"

definition ring_getTail :: "ring \<Rightarrow> int option" where
  "ring_getTail r = le_get16 ringTailOffset (ring_rb r)"

definition with_rb :: "ring \<Rightarrow> ringBuf option \<Rightarrow> ring option" where
  "with_rb r b = map_option (\<lambda>rb. r\<lparr>ring_rb := rb\<rparr>) b"

definition ring_setCookie :: "ring \<Rightarrow> int \<Rightarrow> ring option" where
  "ring_setCookie r val = with_rb r (le_put32 ringCookieOffset (ring_rb r) val)"

definition ring_setFlags :: "ring \<Rightarrow> int \<Rightarrow> ring option" where
  "ring_setFlags r val = with_rb r (le_put16 ringFlagsOffset (ring_rb r) val)"

definition ring_setHead :: "ring \<Rightarrow> int \<Rightarrow> ring option" where
  "ring_setHead r val = with_rb r (le_put16 ringHeadOffset (ring_rb r) val)"

definition ring_setTail :: "ring \<Rightarrow> int \<Rightarrow> ring option" where
  "ring_setTail r val = with_rb r (le_put16 ringTailOffset (ring_rb r) val)"

lemmas ring_access_defs = ring_getCookie_def ring_getFlags_def ring_getHead_def ring_getTail_def
  ring_setCookie_def ring_setFlags_def ring_setHead_def ring_setTail_def with_rb_def

section \<open>The header fields honour the contract\<close>

interpretation rcookie: le_field "le_get32 ringCookieOffset" "le_put32 ringCookieOffset"
  ringCookieOffset 4 ringSize
  by (rule le_field_32) simp

interpretation rflags: le_field "le_get16 ringFlagsOffset" "le_put16 ringFlagsOffset"
  ringFlagsOffset 2 ringSize
  by (rule le_field_16) simp

interpretation rhead: le_field "le_get16 ringHeadOffset" "le_put16 ringHeadOffset"
  ringHeadOffset 2 ringSize
  by (rule le_field_16) simp

interpretation rtail: le_field "le_get16 ringTailOffset" "le_put16 ringTailOffset"
  ringTailOffset 2 ringSize
  by (rule le_field_16) simp

interpretation rcookie_flags: le_field_pair "le_get32 ringCookieOffset" "le_put32 ringCookieOffset"
  ringCookieOffset 4 "le_get16 ringFlagsOffset" "le_put16 ringFlagsOffset" ringFlagsOffset 2 ringSize
  by unfold_locales simp

interpretation rcookie_head: le_field_pair "le_get32 ringCookieOffset" "le_put32 ringCookieOffset"
  ringCookieOffset 4 "le_get16 ringHeadOffset" "le_put16 ringHeadOffset" ringHeadOffset 2 ringSize
  by unfold_locales simp

interpretation rcookie_tail: le_field_pair "le_get32 ringCookieOffset" "le_put32 ringCookieOffset"
  ringCookieOffset 4 "le_get16 ringTailOffset" "le_put16 ringTailOffset" ringTailOffset 2 ringSize
  by unfold_locales simp

interpretation rflags_head: le_field_pair "le_get16 ringFlagsOffset" "le_put16 ringFlagsOffset"
  ringFlagsOffset 2 "le_get16 ringHeadOffset" "le_put16 ringHeadOffset" ringHeadOffset 2 ringSize
  by unfold_locales simp

interpretation rflags_tail: le_field_pair "le_get16 ringFlagsOffset" "le_put16 ringFlagsOffset"
  ringFlagsOffset 2 "le_get16 ringTailOffset" "le_put16 ringTailOffset" ringTailOffset 2 ringSize
  by unfold_locales simp

interpretation rhead_tail: le_field_pair "le_get16 ringHeadOffset" "le_put16 ringHeadOffset"
  ringHeadOffset 2 "le_get16 ringTailOffset" "le_put16 ringTailOffset" ringTailOffset 2 ringSize
  by unfold_locales simp

end
