(* ===== verification/Os.thy ===== *)
theory Os
  imports Prelude
begin

text \<open>
  What the program asks of the world outside \<^verbatim>\<open>src/\<close>: the system calls and the callbacks of
  the application. They are a parameter \<open>env\<close> of every definition that uses them. The answer
  to a call may depend on everything asked before: each component of \<open>env\<close> takes the trace of
  earlier requests, so any deterministic or scheduled behaviour of the kernel and of the peer is
  an instance. The definitions extend the trace with every request they make, newest first.

  Also here are the two wrappers of single system calls, \<open>eventFd\<close> (\<^verbatim>\<open>src/util.go\<close>) and
  \<open>memfdCreate\<close> (\<^verbatim>\<open>src/mem_region.go\<close>).
\<close>

section \<open>Requests\<close>

datatype sysevent =
    SysMemfdCreate
  | SysAddSeals int
  | SysFtruncate int int
  | SysMmap int int
  | SysMunmap "byte list option"
  | SysClose int
  | SysEventfd
  | SysWrite int "byte list"
  | SysEpollCreate
  | SysEpollAdd int int
  | SysEpollDel int int
  | SysEpollWait int
  | SysSocket
  | SysSetsockopt int
  | SysBind int string
  | SysListen int
  | SysAccept int
  | SysConnect int string
  | SysSendmsg int "byte list" "byte list"
  | SysRecvmsg int
  | SysRemove string
  | CallConnected nat
  | CallDisconnected nat

type_synonym trace = "sysevent list"

text \<open>The answers: \<open>Inl e\<close> and \<open>Some e\<close> are failures with error text \<open>e\<close>. \<open>recvmsg\<close> gives
  the bytes stored at the front of the data buffer (their number is the returned size) and of the
  control buffer; \<open>epoll_wait\<close> gives the events stored in the event array, each with its
  event bits and its file descriptor. \<open>sendmsg_tail\<close> is the memory that follows a message buffer
  shorter than the length the program passes to \<open>sendmsg\<close>, by distance from the buffer's end;
  the last argument of \<open>sendmsg\<close> is the control data, empty when none is attached.\<close>

record env =
  memfd_create :: "trace \<Rightarrow> error + int"
  add_seals :: "trace \<Rightarrow> int \<Rightarrow> error option"
  ftruncate :: "trace \<Rightarrow> int \<Rightarrow> int \<Rightarrow> error option"
  mmap :: "trace \<Rightarrow> int \<Rightarrow> int \<Rightarrow> error + byte list"
  munmap :: "trace \<Rightarrow> byte list option \<Rightarrow> error option"
  close_fd :: "trace \<Rightarrow> int \<Rightarrow> error option"
  eventfd2 :: "trace \<Rightarrow> error + int"
  write_fd :: "trace \<Rightarrow> int \<Rightarrow> byte list \<Rightarrow> error + int"
  epoll_create :: "trace \<Rightarrow> error + int"
  epoll_add :: "trace \<Rightarrow> int \<Rightarrow> int \<Rightarrow> error option"
  epoll_del :: "trace \<Rightarrow> int \<Rightarrow> int \<Rightarrow> error option"
  epoll_wait :: "trace \<Rightarrow> int \<Rightarrow> error + (u32 \<times> int) list"
  socket_create :: "trace \<Rightarrow> error + int"
  setsockopt :: "trace \<Rightarrow> int \<Rightarrow> error option"
  bind_fd :: "trace \<Rightarrow> int \<Rightarrow> string \<Rightarrow> error option"
  listen_fd :: "trace \<Rightarrow> int \<Rightarrow> error option"
  accept_fd :: "trace \<Rightarrow> int \<Rightarrow> error + int"
  connect_fd :: "trace \<Rightarrow> int \<Rightarrow> string \<Rightarrow> error option"
  sendmsg :: "trace \<Rightarrow> int \<Rightarrow> byte list \<Rightarrow> byte list \<Rightarrow> error option"
  sendmsg_tail :: "trace \<Rightarrow> nat \<Rightarrow> byte"
  recvmsg :: "trace \<Rightarrow> int \<Rightarrow> error + (byte list \<times> byte list)"
  remove_file :: "trace \<Rightarrow> string \<Rightarrow> error option"
  connectedFunc :: "trace \<Rightarrow> nat \<Rightarrow> error option"
  disconnectedFunc :: "trace \<Rightarrow> nat \<Rightarrow> error option"

section \<open>Wrappers of single system calls\<close>

definition eventFd :: "env \<Rightarrow> trace \<Rightarrow> (error + int) \<times> trace" where
  "eventFd env tr =
     (case eventfd2 env tr of
        Inl e \<Rightarrow> Inl (''eventfd: '' @ e)
      | Inr fd \<Rightarrow> Inr fd,
      SysEventfd # tr)"

definition memfdCreate :: "env \<Rightarrow> trace \<Rightarrow> (error + int) \<times> trace" where
  "memfdCreate env tr =
     (case memfd_create env tr of
        Inl e \<Rightarrow> Inl (''memfdCreate: memfd_create: '' @ e)
      | Inr fd \<Rightarrow> Inr fd,
      SysMemfdCreate # tr)"

end
