(* ===== verification/Port_Types.thy ===== *)
theory Port_Types
  imports Descriptor Ring Os
begin

text \<open>
  The structs of \<^verbatim>\<open>src/main.go\<close>, \<^verbatim>\<open>src/queue.go\<close> and \<^verbatim>\<open>src/mem_region.go\<close> and the client's
  ring constructor. A queue of the code points to its port; here the port is a separate argument
  of the queue operations. A port points to its control channel; here \<open>p_cc\<close> is the identifier
  of the channel in the socket's store, \<open>None\<close> for \<open>nil\<close>. The fields \<open>p_ErrChan\<close> and
  \<open>p_QuitChan\<close> say whether the Go channel of that name has been closed. The bytes of a memory
  region are \<open>None\<close> while the slice is \<open>nil\<close> (the region is not mapped yet).
\<close>

section \<open>Structs\<close>

record MemoryConfig =
  NumQueuePairs :: u16
  Log2RingSize :: byte
  PacketBufferSize :: u32

datatype callback = NilFunc | UserFunc | DefaultFunc

record PortCfg =
  cfg_Id :: u32
  cfg_IsServer :: bool
  cfg_Name :: string
  cfg_Secret :: "byte list"
  cfg_MemoryConfig :: MemoryConfig
  cfg_ConnectedFunc :: callback
  cfg_DisconnectedFunc :: callback
  cfg_ExtendData :: "nat option"

record memoryRegion =
  mr_data :: "byte list option"
  mr_size :: u64
  mr_fd :: int
  mr_packetBufferOffset :: u32

record queue =
  q_ring :: ring
  q_lastHead :: u16
  q_lastTail :: u16
  q_interruptFd :: int

record port =
  p_cfg :: PortCfg
  p_run :: MemoryConfig
  p_ExtendData :: "nat option"
  p_cc :: "nat option"
  p_remoteName :: string
  p_peerName :: string
  p_regions :: "memoryRegion list"
  p_txQueues :: "queue list"
  p_rxQueues :: "queue list"
  p_ErrChan :: bool
  p_QuitChan :: bool

definition DefaultSocketFilename :: string where "DefaultSocketFilename = ''/tmp/memif.sock''"
definition DefaultNumQueuePairs :: u16 where "DefaultNumQueuePairs = 1"
definition DefaultLog2RingSize :: byte where "DefaultLog2RingSize = 10"
definition DefaultPacketBufferSize :: u32 where "DefaultPacketBufferSize = 2048"

section \<open>The client's ring constructor\<close>

text \<open>The offset is computed in 64-bit \<open>int\<close> arithmetic. As in \<open>newRing\<close> the field \<open>region\<close>
  keeps its zero value.\<close>

definition ring_bytes :: "MemoryConfig \<Rightarrow> int" where
  "ring_bytes run = wrap64 (int ringSize + int descSize * shl1 (unat (Log2RingSize run)))"

definition port_newRing :: "MemoryConfig \<Rightarrow> int \<Rightarrow> ringType \<Rightarrow> int \<Rightarrow> ring" where
  "port_newRing run regionIndex rt ringIndex =
     (let rSize = ring_bytes run;
          base = (if rt = ringTypeS2M then 0 else wrap64 (uint (NumQueuePairs run) * rSize))
      in \<lparr> ring_ringType = rt, ring_size = shl1 (unat (Log2RingSize run)),
           ring_log2Size = uint (Log2RingSize run), ring_region = 0,
           ring_rb = replicate ringSize 0,
           ring_offset = wrap64 (base + wrap64 (ringIndex * rSize)) \<rparr>)"

section \<open>Access to the bytes of a region\<close>

text \<open>\<open>region_data p i\<close> is \<open>p.regions[i].data\<close>, a panic when there is no region \<open>i\<close>;
  \<open>put_region_data\<close> is the port after a write into those bytes.\<close>

definition bytes_of :: "byte list option \<Rightarrow> byte list" where
  "bytes_of d = (case d of None \<Rightarrow> [] | Some bs \<Rightarrow> bs)"

definition region_data :: "port \<Rightarrow> int \<Rightarrow> byte list option" where
  "region_data p i = map_option (\<lambda>r. bytes_of (mr_data r)) (go_nth (p_regions p) i)"

definition put_region_data :: "port \<Rightarrow> int \<Rightarrow> byte list \<Rightarrow> port" where
  "put_region_data p i bs =
     p\<lparr>p_regions := (p_regions p)[nat i := (p_regions p ! nat i)
         \<lparr>mr_data := map_option (\<lambda>_. bs) (mr_data (p_regions p ! nat i))\<rparr>]\<rparr>"

lemma region_data_put:
  assumes "region_data p i = Some d" and "length d' = length d"
  shows "region_data (put_region_data p i d') j = (if j = i then Some d' else region_data p j)"
  using assms
  by (auto simp: region_data_def put_region_data_def go_nth_def bytes_of_def nth_list_update nat_eq_iff
      split: if_splits option.splits)

lemma put_region_data_put:
  "region_data p i = Some d \<Longrightarrow>
     put_region_data (put_region_data p i d1) i d2 = put_region_data p i d2"
  by (auto simp: put_region_data_def region_data_def go_nth_def option.map_comp comp_def split: if_splits)

lemma put_region_data_same:
  assumes "region_data p i = Some d"
  shows "put_region_data p i d = p"
proof -
  let ?r = "p_regions p ! nat i"
  have "bytes_of (mr_data ?r) = d" using assms
    by (auto simp: region_data_def go_nth_def split: if_splits)
  then have "map_option (\<lambda>_. d) (mr_data ?r) = mr_data ?r"
    by (auto simp: bytes_of_def split: option.splits)
  then have "?r\<lparr>mr_data := map_option (\<lambda>_. d) (mr_data ?r)\<rparr> = ?r" by simp
  then show ?thesis by (simp add: put_region_data_def)
qed

lemma put_region_data_frame [simp]:
  "p_cfg (put_region_data p i d) = p_cfg p" "p_run (put_region_data p i d) = p_run p"
  "p_cc (put_region_data p i d) = p_cc p" "p_txQueues (put_region_data p i d) = p_txQueues p"
  "p_rxQueues (put_region_data p i d) = p_rxQueues p"
  "length (p_regions (put_region_data p i d)) = length (p_regions p)"
  "p_QuitChan (put_region_data p i d) = p_QuitChan p" "p_ErrChan (put_region_data p i d) = p_ErrChan p"
  by (simp_all add: put_region_data_def)

end
