(* ===== verification/Queue.thy ===== *)
theory Queue
  imports Port_Types
begin

text \<open>
  Queues (\<^verbatim>\<open>src/queue.go\<close>, and the methods of \<open>Queue\<close> in \<^verbatim>\<open>src/ring.go\<close> and
  \<^verbatim>\<open>src/descriptor.go\<close>): reading and writing the head, the tail and the descriptors of a ring
  that lives in the shared memory of the port, and the interrupt of the peer. The lemmas reduce
  every operation on a well laid out ring to a \<open>window\<close> or an \<open>overlay\<close> of the region's bytes.
\<close>

section \<open>Model\<close>

definition GetEventFd :: "queue \<Rightarrow> int \<times> error option" where
  "GetEventFd q = (q_interruptFd q, None)"

definition queue_close :: "env \<Rightarrow> queue \<Rightarrow> trace \<Rightarrow> trace" where
  "queue_close env q tr = SysClose (q_interruptFd q) # tr"

text \<open>The address arithmetic of the accessors: the position of a header field and of a
  descriptor in the bytes of the ring's region.\<close>

definition ring_pos :: "queue \<Rightarrow> nat \<Rightarrow> int" where
  "ring_pos q fld = ring_offset (q_ring q) + int fld"

definition desc_pos :: "queue \<Rightarrow> int \<Rightarrow> int" where
  "desc_pos q slot = ring_offset (q_ring q) + int ringSize + slot * int descSize"

definition readHead :: "port \<Rightarrow> queue \<Rightarrow> int option" where
  "readHead p q = do {
     d \<leftarrow> region_data p (ring_region (q_ring q));
     load16 d (ring_pos q ringHeadOffset) }"

definition readTail :: "port \<Rightarrow> queue \<Rightarrow> int option" where
  "readTail p q = do {
     d \<leftarrow> region_data p (ring_region (q_ring q));
     load16 d (ring_pos q ringTailOffset) }"

definition writeHead :: "port \<Rightarrow> queue \<Rightarrow> int \<Rightarrow> port option" where
  "writeHead p q val = do {
     d \<leftarrow> region_data p (ring_region (q_ring q));
     d' \<leftarrow> store16 d (ring_pos q ringHeadOffset) val;
     Some (put_region_data p (ring_region (q_ring q)) d') }"

definition writeTail :: "port \<Rightarrow> queue \<Rightarrow> int \<Rightarrow> port option" where
  "writeTail p q val = do {
     d \<leftarrow> region_data p (ring_region (q_ring q));
     d' \<leftarrow> store16 d (ring_pos q ringTailOffset) val;
     Some (put_region_data p (ring_region (q_ring q)) d') }"

definition setDescLength :: "port \<Rightarrow> queue \<Rightarrow> int \<Rightarrow> int \<Rightarrow> port option" where
  "setDescLength p q slot len = do {
     d \<leftarrow> region_data p (ring_region (q_ring q));
     d' \<leftarrow> store16 d (desc_pos q slot + int descLengthOffset) len;
     Some (put_region_data p (ring_region (q_ring q)) d') }"

definition queue_getFlags :: "port \<Rightarrow> queue \<Rightarrow> int option" where
  "queue_getFlags p q = do {
     d \<leftarrow> region_data p (ring_region (q_ring q));
     load16 d (ring_pos q ringFlagsOffset) }"

definition isInterrupt :: "port \<Rightarrow> queue \<Rightarrow> bool option" where
  "isInterrupt p q = do {
     flags \<leftarrow> queue_getFlags p q;
     Some ((flags AND ringFlagInterrupt) = 0) }"

text \<open>\<open>binary.PutUvarint(buf, 1)\<close> into eight zero bytes.\<close>

definition uvarint_one :: "byte list" where
  "uvarint_one = 1 # replicate 7 0"

definition interrupt :: "env \<Rightarrow> port \<Rightarrow> queue \<Rightarrow> trace \<Rightarrow> (error option \<times> trace) option" where
  "interrupt env p q tr = do {
     b \<leftarrow> isInterrupt p q;
     if b then
       let tr' = SysWrite (q_interruptFd q) uvarint_one # tr in
       (case write_fd env tr (q_interruptFd q) uvarint_one of
          Inl e \<Rightarrow> Some (Some e, tr')
        | Inr n \<Rightarrow>
            if n \<noteq> 8 then Some (Some ''faild to write to eventfd'', tr')
            else Some (None, tr'))
     else Some (None, tr) }"

definition getDescBuf :: "port \<Rightarrow> queue \<Rightarrow> int \<Rightarrow> descBuf \<Rightarrow> descBuf option" where
  "getDescBuf p q slot db = do {
     d \<leftarrow> region_data p (ring_region (q_ring q));
     src \<leftarrow> go_from d (desc_pos q slot);
     (n, db') \<leftarrow> go_copy_from db 0 src;
     Some db' }"

definition putDescBuf :: "port \<Rightarrow> queue \<Rightarrow> int \<Rightarrow> descBuf \<Rightarrow> port option" where
  "putDescBuf p q slot db = do {
     d \<leftarrow> region_data p (ring_region (q_ring q));
     (n, d') \<leftarrow> go_copy_from d (desc_pos q slot) db;
     Some (put_region_data p (ring_region (q_ring q)) d') }"

definition putRing :: "port \<Rightarrow> queue \<Rightarrow> port option" where
  "putRing p q = do {
     d \<leftarrow> region_data p (ring_region (q_ring q));
     (n, d') \<leftarrow> go_copy_from d (ring_offset (q_ring q)) (ring_rb (q_ring q));
     Some (put_region_data p (ring_region (q_ring q)) d') }"

definition updateRing :: "port \<Rightarrow> queue \<Rightarrow> queue option" where
  "updateRing p q = do {
     d \<leftarrow> region_data p (ring_region (q_ring q));
     src \<leftarrow> go_from d (ring_offset (q_ring q));
     (n, rb') \<leftarrow> go_copy_from (ring_rb (q_ring q)) 0 src;
     Some (q\<lparr>q_ring := (q_ring q)\<lparr>ring_rb := rb'\<rparr>\<rparr>) }"

section \<open>A ring well laid out in its region\<close>

text \<open>
  \<open>ring_at p q k off d\<close>: the ring of \<open>q\<close> has \<open>2 ^ k\<close> slots with \<open>k \<le> 15\<close> and lies at
  offset \<open>off\<close> of a region of \<open>p\<close> whose bytes are \<open>d\<close>. The bound on \<open>k\<close> is what lets the
  16-bit head and tail tell a full ring from an empty one.
\<close>

definition ring_span :: "nat \<Rightarrow> nat" where
  "ring_span k = ringSize + descSize * 2 ^ k"

definition ring_at :: "port \<Rightarrow> queue \<Rightarrow> nat \<Rightarrow> nat \<Rightarrow> byte list \<Rightarrow> bool" where
  "ring_at p q k off d \<longleftrightarrow>
     region_data p (ring_region (q_ring q)) = Some d \<and>
     ring_size (q_ring q) = 2 ^ k \<and> k \<le> 15 \<and> ring_offset (q_ring q) = int off \<and>
     off + ring_span k \<le> length d"

definition head_of :: "byte list \<Rightarrow> nat \<Rightarrow> u16" where
  "head_of d off = get_le (window d (off + ringHeadOffset) 2)"

definition tail_of :: "byte list \<Rightarrow> nat \<Rightarrow> u16" where
  "tail_of d off = get_le (window d (off + ringTailOffset) 2)"

definition desc_base :: "nat \<Rightarrow> nat \<Rightarrow> nat" where
  "desc_base off s = off + ringSize + descSize * s"

definition desc_of :: "byte list \<Rightarrow> nat \<Rightarrow> nat \<Rightarrow> descBuf" where
  "desc_of d off s = window d (desc_base off s) descSize"

lemma slot_bound: "s < 2 ^ k \<Longrightarrow> desc_base off s + descSize \<le> off + ring_span k"
  by (simp add: desc_base_def ring_span_def)

lemma ring_atD:
  assumes "ring_at p q k off d"
  shows "region_data p (ring_region (q_ring q)) = Some d" "ring_size (q_ring q) = 2 ^ k"
    "k \<le> 15" "ring_offset (q_ring q) = int off" "off + ring_span k \<le> length d"
    "off + 128 \<le> length d"
  using assms by (auto simp: ring_at_def ring_span_def)

lemma ring_at_put:
  "ring_at p q k off d \<Longrightarrow> length d' = length d \<Longrightarrow>
     ring_at (put_region_data p (ring_region (q_ring q)) d') q k off d'"
  by (auto simp: ring_at_def region_data_put)

lemma readHead_at: "ring_at p q k off d \<Longrightarrow> readHead p q = Some (uint (head_of d off))"
  using ring_atD by (fastforce simp: readHead_def ring_pos_def load16_def head_of_def nat_add_distrib)

lemma readTail_at: "ring_at p q k off d \<Longrightarrow> readTail p q = Some (uint (tail_of d off))"
  using ring_atD by (fastforce simp: readTail_def ring_pos_def load16_def tail_of_def nat_add_distrib)

lemma writeHead_at:
  "ring_at p q k off d \<Longrightarrow> writeHead p q v =
     Some (put_region_data p (ring_region (q_ring q))
       (overlay d (off + ringHeadOffset) (put_le 2 (word_of_int v :: u16))))"
  using ring_atD by (fastforce simp: writeHead_def ring_pos_def store16_def nat_add_distrib)

lemma writeTail_at:
  "ring_at p q k off d \<Longrightarrow> writeTail p q v =
     Some (put_region_data p (ring_region (q_ring q))
       (overlay d (off + ringTailOffset) (put_le 2 (word_of_int v :: u16))))"
  using ring_atD by (fastforce simp: writeTail_def ring_pos_def store16_def nat_add_distrib)

lemma desc_pos_at: "ring_at p q k off d \<Longrightarrow> desc_pos q (int s) = int (desc_base off s)"
  by (simp add: ring_at_def desc_pos_def desc_base_def)

lemma getDescBuf_at:
  assumes "ring_at p q k off d" and "s < 2 ^ k" and "length db = descSize"
  shows "getDescBuf p q (int s) db = Some (desc_of d off s)"
proof -
  have fits: "desc_base off s + descSize \<le> length d"
    using slot_bound [OF assms(2), of off] ring_atD(5) [OF assms(1)] by linarith
  then have "min (length db) (length d - desc_base off s) = descSize"
    using assms(3) by simp
  then show ?thesis
    using fits assms(3)
    by (simp add: getDescBuf_def ring_atD [OF assms(1)] desc_pos_at [OF assms(1)] go_from_def
        go_copy_from_def Let_def desc_of_def window_def overlay_def)
qed

lemma putDescBuf_at:
  assumes "ring_at p q k off d" and "s < 2 ^ k" and "length db = descSize"
  shows "putDescBuf p q (int s) db =
    Some (put_region_data p (ring_region (q_ring q)) (overlay d (desc_base off s) db))"
proof -
  have fits: "desc_base off s + descSize \<le> length d"
    using slot_bound [OF assms(2), of off] ring_atD(5) [OF assms(1)] by linarith
  then show ?thesis
    using assms(3)
    by (simp add: putDescBuf_def ring_atD [OF assms(1)] desc_pos_at [OF assms(1)]
        go_copy_from_def Let_def)
qed

lemma setDescLength_at:
  assumes "ring_at p q k off d" and "s < 2 ^ k"
  shows "setDescLength p q (int s) n =
    Some (put_region_data p (ring_region (q_ring q))
      (overlay d (desc_base off s + descLengthOffset) (put_le 2 (word_of_int n :: u16))))"
proof -
  have fits: "desc_base off s + descSize \<le> length d"
    using slot_bound [OF assms(2), of off] ring_atD(5) [OF assms(1)] by linarith
  then show ?thesis
    by (simp add: setDescLength_def ring_atD [OF assms(1)] desc_pos_at [OF assms(1)] store16_def
        nat_add_distrib)
qed

text \<open>The slot index the code computes, \<open>slot & mask\<close>.\<close>

lemma slot_mask:
  assumes "ring_at p q k off d"
  shows "uint (x :: u16) AND (ring_size (q_ring q) - 1) = int (unat x mod 2 ^ k)"
  by (simp add: ring_atD(2) [OF assms] and_low_mask zmod_int)

section \<open>The interrupt\<close>

text \<open>The mask that tests the flag is 0, so the test always succeeds: the peer is interrupted
  whatever flags it set in the ring.\<close>

lemma isInterrupt_iff: "isInterrupt p q = map_option (\<lambda>_. True) (queue_getFlags p q)"
  by (cases "queue_getFlags p q") (simp_all add: isInterrupt_def)

lemma queue_getFlags_at: "ring_at p q k off d \<Longrightarrow>
   queue_getFlags p q = Some (uint (get_le (window d (off + ringFlagsOffset) 2) :: u16))"
  using ring_atD by (fastforce simp: queue_getFlags_def ring_pos_def load16_def nat_add_distrib)

lemma interrupt_at:
  "ring_at p q k off d \<Longrightarrow> \<exists>e. interrupt env p q tr =
     Some (e, SysWrite (q_interruptFd q) uvarint_one # tr)"
  by (auto simp: interrupt_def isInterrupt_iff queue_getFlags_at Let_def split: sum.splits)

section \<open>Header and descriptor values under writes\<close>

lemma head_of_writeHead [mem_simps]:
  "off + 128 \<le> length d \<Longrightarrow>
     head_of (overlay d (off + ringHeadOffset) (put_le 2 (v :: u16))) off = v"
  by (simp add: head_of_def mem_simps)

lemma tail_of_writeTail [mem_simps]:
  "off + 128 \<le> length d \<Longrightarrow>
     tail_of (overlay d (off + ringTailOffset) (put_le 2 (v :: u16))) off = v"
  by (simp add: tail_of_def mem_simps)

lemma head_of_other [mem_simps]:
  "i + length ys \<le> length d \<Longrightarrow> off + 8 \<le> i \<or> i + length ys \<le> off + 6 \<Longrightarrow>
     head_of (overlay d i ys) off = head_of d off"
  by (auto simp: head_of_def window_overlay_other)

lemma tail_of_other [mem_simps]:
  "i + length ys \<le> length d \<Longrightarrow> off + 66 \<le> i \<or> i + length ys \<le> off + 64 \<Longrightarrow>
     tail_of (overlay d i ys) off = tail_of d off"
  by (auto simp: tail_of_def window_overlay_other)

lemma desc_of_same [mem_simps]:
  "desc_base off s + descSize \<le> length d \<Longrightarrow> length db = descSize \<Longrightarrow>
     desc_of (overlay d (desc_base off s) db) off s = db"
  by (simp add: desc_of_def mem_simps)

lemma desc_of_other [mem_simps]:
  "i + length ys \<le> length d \<Longrightarrow> i + length ys \<le> desc_base off s \<or> desc_base off s + 16 \<le> i \<Longrightarrow>
     desc_of (overlay d i ys) off s = desc_of d off s"
  by (auto simp: desc_of_def window_overlay_other)

lemma desc_base_apart: "s \<noteq> s' \<Longrightarrow>
   desc_base off s + 16 \<le> desc_base off s' \<or> desc_base off s' + 16 \<le> desc_base off s"
  by (auto simp: desc_base_def)

lemma length_desc_of [simp]:
  "desc_base off s + descSize \<le> length d \<Longrightarrow> length (desc_of d off s) = descSize"
  by (simp add: desc_of_def)

lemma desc_of_setLength:
  assumes "desc_base off s + 16 \<le> length d"
  shows "desc_of (overlay d (desc_base off s + descLengthOffset) (put_le 2 (w :: u16))) off s =
    overlay (desc_of d off s) descLengthOffset (put_le 2 w)"
  using assms unfolding desc_of_def by (intro window_overlay_inside) simp_all

end
