(* ===== verification/Packet.thy ===== *)
theory Packet
  imports Queue
begin

text \<open>
  The data path (\<^verbatim>\<open>src/packet_processing.go\<close>): \<open>ReadPacket\<close> and \<open>WritePacket\<close> on both roles,
  with chained buffers, the error of an incomplete chain and the refill of the client's receive
  ring. The loops of the code run over a 16-bit slot counter; here they are recursions on that
  counter as a natural number, so they are total. The lemmas give the exact effect of a call on
  the shared bytes for a packet that fits one buffer, and what happens on an empty or full ring.
\<close>

section \<open>ReadPacket\<close>

text \<open>\<open>read_segment\<close> is the body shared by the first buffer and the loop: copy the bytes the
  descriptor points to into \<open>pkt[pktOffset:]\<close> and advance \<open>pktOffset\<close> by the descriptor's
  length.\<close>

definition read_segment :: "port \<Rightarrow> descBuf \<Rightarrow> byte list \<Rightarrow> int \<Rightarrow> (byte list \<times> int) option" where
  "read_segment p desc pkt pktOffset = do {
     len \<leftarrow> desc_getLength desc;
     offset \<leftarrow> desc_getOffset desc;
     reg \<leftarrow> desc_getRegion desc;
     d \<leftarrow> region_data p reg;
     src \<leftarrow> go_range d offset (offset + len);
     (n, pkt') \<leftarrow> go_copy_from pkt pktOffset src;
     Some (pkt', pktOffset + len) }"

text \<open>The loop over chained descriptors, entered with \<open>nSlots\<close> further slots available. The
  result is the error, the next slot, the packet buffer and its fill.\<close>

fun read_chain :: "nat \<Rightarrow> port \<Rightarrow> queue \<Rightarrow> int \<Rightarrow> int \<Rightarrow> descBuf \<Rightarrow> byte list \<Rightarrow> int \<Rightarrow>
    (error option \<times> int \<times> byte list \<times> int) option" where
  "read_chain 0 p q msk slot desc pkt pktOffset = do {
     flags \<leftarrow> desc_getFlags desc;
     if (flags AND descFlagNext) = descFlagNext
     then Some (Some ''incomplete chained buffer, may suggest peer error'', slot, pkt, pktOffset)
     else Some (None, slot, pkt, pktOffset) }"
| "read_chain (Suc nSlots) p q msk slot desc pkt pktOffset = do {
     flags \<leftarrow> desc_getFlags desc;
     if (flags AND descFlagNext) = descFlagNext
     then do {
       desc' \<leftarrow> getDescBuf p q (slot AND msk) desc;
       (pkt', pktOffset') \<leftarrow> read_segment p desc' pkt pktOffset;
       read_chain nSlots p q msk (slot + 1) desc' pkt' pktOffset' }
     else Some (None, slot, pkt, pktOffset) }"

fun refill_loop :: "nat \<Rightarrow> port \<Rightarrow> queue \<Rightarrow> int \<Rightarrow> int \<Rightarrow> (port \<times> int) option" where
  "refill_loop 0 p q msk head = Some (p, head)"
| "refill_loop (Suc nSlots) p q msk head = do {
     p' \<leftarrow> setDescLength p q (head AND msk) (uint (PacketBufferSize (p_run p)));
     refill_loop nSlots p' q msk (head + 1) }"

text \<open>The code after the label \<open>refill\<close>.\<close>

definition read_refill :: "port \<Rightarrow> queue \<Rightarrow> int \<Rightarrow> (queue \<times> port) option" where
  "read_refill p q slot =
     (let msk = ring_size (q_ring q) - 1 in
      if cfg_IsServer (p_cfg p) then do {
        let q' = q\<lparr>q_lastHead := word_of_int slot\<rparr>;
        p' \<leftarrow> writeTail p q' slot;
        Some (q', p') }
      else do {
        let q' = q\<lparr>q_lastTail := word_of_int slot\<rparr>;
        head \<leftarrow> readHead p q';
        let nSlots = (word_of_int (ring_size (q_ring q') - head + uint (q_lastTail q')) :: u16);
        (p', head') \<leftarrow> refill_loop (unat nSlots) p q' msk head;
        p'' \<leftarrow> writeHead p' q' head';
        Some (q', p'') })"

definition ReadPacket :: "port \<Rightarrow> queue \<Rightarrow> byte list \<Rightarrow>
    (int \<times> error option \<times> byte list \<times> queue \<times> port) option" where
  "ReadPacket p q pkt = do {
     let msk = ring_size (q_ring q) - 1;
     (slot, lastSlot) \<leftarrow>
       (if cfg_IsServer (p_cfg p)
        then do { h \<leftarrow> readHead p q; Some (uint (q_lastHead q), h) }
        else do { t \<leftarrow> readTail p q; Some (uint (q_lastTail q), t) });
     let nSlots = (word_of_int (lastSlot - slot) :: u16);
     (err, slot', pkt', pktOffset) \<leftarrow>
       (if nSlots = 0 then Some (None, slot, pkt, 0)
        else do {
          desc \<leftarrow> getDescBuf p q (slot AND msk) newDescBuf;
          (pkt1, off1) \<leftarrow> read_segment p desc pkt 0;
          read_chain (unat nSlots - 1) p q msk (slot + 1) desc pkt1 off1 });
     (case err of
        Some e \<Rightarrow> Some (0, Some e, pkt', q, p)
      | None \<Rightarrow> do {
          (q', p') \<leftarrow> read_refill p q slot';
          Some (pktOffset, None, pkt', q', p') }) }"

section \<open>WritePacket\<close>

text \<open>\<open>write_fill\<close> is the body shared by the first buffer and the loop: fetch the descriptor of
  the slot, reset its flags and length, and copy the packet from its beginning into the buffer.
  The number of bytes copied becomes the length of the descriptor.\<close>

definition write_fill :: "port \<Rightarrow> queue \<Rightarrow> int \<Rightarrow> descBuf \<Rightarrow> int \<Rightarrow> byte list \<Rightarrow>
    (int \<times> descBuf \<times> int \<times> port) option" where
  "write_fill p q slot desc packetBufferSize pkt = do {
     desc0 \<leftarrow> getDescBuf p q (slot AND (ring_size (q_ring q) - 1)) desc;
     desc1 \<leftarrow> desc_setFlags desc0 0;
     pbs \<leftarrow> (if cfg_IsServer (p_cfg p) then desc_getLength desc1 else Some packetBufferSize);
     desc2 \<leftarrow> desc_setLength desc1 0;
     offset \<leftarrow> desc_getOffset desc2;
     reg \<leftarrow> desc_getRegion desc2;
     d \<leftarrow> region_data p reg;
     (n, d') \<leftarrow> go_copy_range d offset (offset + pbs) pkt;
     desc3 \<leftarrow> desc_setLength desc2 n;
     Some (n, desc3, pbs, put_region_data p reg d') }"

text \<open>The loop over further buffers, entered with \<open>nFree\<close> free slots after the current one.
  \<open>None\<close> in the result is the early \<open>return 0\<close> for want of a free slot; otherwise the result
  holds the bytes written, the slot and the descriptor still to be stored.\<close>

fun write_chain :: "nat \<Rightarrow> port \<Rightarrow> queue \<Rightarrow> int \<Rightarrow> descBuf \<Rightarrow> int \<Rightarrow> byte list \<Rightarrow> int \<Rightarrow>
    ((int \<times> int \<times> descBuf) option \<times> port) option" where
  "write_chain 0 p q slot desc packetBufferSize pkt n =
     (if n < int (length pkt) then Some (None, p) else Some (Some (n, slot, desc), p))"
| "write_chain (Suc nFree) p q slot desc packetBufferSize pkt n =
     (if n < int (length pkt) then do {
        desc1 \<leftarrow> desc_setFlags desc descFlagNext;
        p1 \<leftarrow> putDescBuf p q (slot AND (ring_size (q_ring q) - 1)) desc1;
        (tmp, desc2, pbs, p2) \<leftarrow> write_fill p1 q (slot + 1) desc1 packetBufferSize pkt;
        write_chain nFree p2 q (slot + 1) desc2 pbs pkt (n + tmp) }
      else Some (Some (n, slot, desc), p))"

definition WritePacket :: "env \<Rightarrow> port \<Rightarrow> queue \<Rightarrow> byte list \<Rightarrow> trace \<Rightarrow>
    (int \<times> port \<times> trace) option" where
  "WritePacket env p q pkt tr = do {
     let msk = ring_size (q_ring q) - 1;
     (slot, nFree) \<leftarrow>
       (if cfg_IsServer (p_cfg p)
        then do { t \<leftarrow> readTail p q; h \<leftarrow> readHead p q; Some (t, word_of_int (h - t) :: u16) }
        else do { h \<leftarrow> readHead p q; t \<leftarrow> readTail p q;
                  Some (h, word_of_int (ring_size (q_ring q) - h + t)) });
     if nFree = 0 then do {
       (err, tr') \<leftarrow> interrupt env p q tr;
       Some (0, p, tr') }
     else do {
       (n, desc, pbs, p1) \<leftarrow>
         write_fill p q slot newDescBuf (uint (PacketBufferSize (p_run p))) pkt;
       (res, p2) \<leftarrow> write_chain (unat nFree - 1) p1 q slot desc pbs pkt n;
       (case res of
          None \<Rightarrow> do {
            (err, tr') \<leftarrow> interrupt env p2 q tr;
            Some (0, p2, tr') }
        | Some (n', slot', desc') \<Rightarrow> do {
            p3 \<leftarrow> putDescBuf p2 q (slot' AND msk) desc';
            p4 \<leftarrow> (if cfg_IsServer (p_cfg p) then writeTail p3 q (slot' + 1)
                   else writeHead p3 q (slot' + 1));
            (err, tr') \<leftarrow> interrupt env p4 q tr;
            Some (n', p4, tr') }) } }"

section \<open>One buffer\<close>

text \<open>\<open>slot_points d off s reg b\<close>: the descriptor of slot \<open>s\<close> points to offset \<open>b\<close> of region
  \<open>reg\<close>. The facts below are for descriptors that point into the region that holds the ring,
  as every descriptor the program creates does.\<close>

definition slot_points :: "byte list \<Rightarrow> nat \<Rightarrow> nat \<Rightarrow> int \<Rightarrow> nat \<Rightarrow> bool" where
  "slot_points d off s reg b \<longleftrightarrow> (\<exists>f l. desc_is (desc_of d off s) f reg l (int b))"

lemma write_fill_at:
  assumes ra: "ring_at p q k off d" and s: "s < 2 ^ k"
    and slot: "slot AND (ring_size (q_ring q) - 1) = int s"
    and di: "desc_is (desc_of d off s) f (ring_region (q_ring q)) l (int b)"
    and pbs: "int pbs = (if cfg_IsServer (p_cfg p) then l else pbs0)" "pbs < 2 ^ 32"
    and fits: "b + pbs \<le> length d" and db: "length desc = descSize"
    and n: "n = min pbs (length pkt)"
  obtains desc' where
    "write_fill p q slot desc pbs0 pkt = Some (int n, desc', int pbs,
       put_region_data p (ring_region (q_ring q)) (overlay d b (take n pkt)))"
    "desc_is desc' 0 (ring_region (q_ring q)) (int n) (int b)"
proof -
  obtain d1 where d1: "desc_setFlags (desc_of d off s) 0 = Some d1"
    "desc_is d1 0 (ring_region (q_ring q)) l (int b)"
    using desc_is_setFlags [OF di, of 0] by auto
  obtain d2 where d2: "desc_setLength d1 0 = Some d2"
    "desc_is d2 0 (ring_region (q_ring q)) 0 (int b)"
    using desc_is_setLength [OF d1(2), of 0] by auto
  have "int n mod 2 ^ 32 = int n" using n pbs(2) by (simp add: zmod_int [symmetric])
  then obtain d3 where d3: "desc_setLength d2 (int n) = Some d3"
    "desc_is d3 0 (ring_region (q_ring q)) (int n) (int b)"
    using desc_is_setLength [OF d2(2), of "int n"] by auto
  have cp: "go_copy_range d (int b) (int b + int pbs) pkt = Some (int n, overlay d b (take n pkt))"
    using fits n by (simp add: go_copy_range_def Let_def)
  have "write_fill p q slot desc pbs0 pkt = Some (int n, d3, int pbs,
       put_region_data p (ring_region (q_ring q)) (overlay d b (take n pkt)))"
    using pbs(1) cp
    by (auto simp: write_fill_def slot getDescBuf_at [OF ra s db] d1 d2 d3 desc_isD [OF d1(2)]
        desc_isD [OF d2(2)] ring_atD(1) [OF ra] split: if_splits)
  then show thesis using that d3(2) by blast
qed

lemma read_segment_at:
  assumes "desc_is db f reg l (int b)" and "region_data p reg = Some d"
    and "l = int n" and "b + n \<le> length d" and "m + n \<le> length pkt"
  shows "read_segment p db pkt (int m) = Some (overlay pkt m (window d b n), int (m + n))"
  using assms
  by (simp add: read_segment_def desc_isD [OF assms(1)] go_range_def go_copy_from_def Let_def)

lemma write_chain_done:
  "int (length pkt) \<le> n \<Longrightarrow> write_chain m p q slot desc pbs pkt n = Some (Some (n, slot, desc), p)"
  by (cases m) simp_all

lemma read_chain_last:
  "desc_is db 0 r l b \<Longrightarrow> read_chain m p q msk slot db pkt po = Some (None, slot, pkt, po)"
  by (cases m) (simp_all add: desc_is_def)

section \<open>The effect of a call on the shared bytes\<close>

text \<open>\<open>commit_mem\<close>: the three stores of a one-buffer \<open>WritePacket\<close>, in the order the code
  makes them: the payload, the descriptor, and the producer's pointer (head or tail).\<close>

definition commit_mem :: "byte list \<Rightarrow> nat \<Rightarrow> nat \<Rightarrow> byte list \<Rightarrow> nat \<Rightarrow> descBuf \<Rightarrow> nat \<Rightarrow> u16 \<Rightarrow> byte list" where
  "commit_mem d off b pkt s db fld x =
     overlay (overlay (overlay d b pkt) (desc_base off s) db) (off + fld) (put_le 2 x)"

lemma slot_fits: "ring_at p q k off d \<Longrightarrow> s < 2 ^ k \<Longrightarrow> desc_base off s + descSize \<le> length d"
  using slot_bound [of s k off] ring_atD(5) by fastforce

text \<open>The common tail of a successful one-buffer write.\<close>

lemma write_finish:
  assumes ra: "ring_at p q k off d" and s: "s < 2 ^ k" and db: "length db = descSize"
    and b: "b + length pkt \<le> length d"
  defines "p2 \<equiv> put_region_data p (ring_region (q_ring q)) (overlay d b pkt)"
  obtains p3 e1 e2 where "putDescBuf p2 q (int s) db = Some p3"
    "writeHead p3 q x = Some (put_region_data p (ring_region (q_ring q))
        (commit_mem d off b pkt s db ringHeadOffset (word_of_int x)))"
    "writeTail p3 q x = Some (put_region_data p (ring_region (q_ring q))
        (commit_mem d off b pkt s db ringTailOffset (word_of_int x)))"
    "interrupt env (put_region_data p (ring_region (q_ring q))
        (commit_mem d off b pkt s db ringHeadOffset (word_of_int x))) q tr =
       Some (e1, SysWrite (q_interruptFd q) uvarint_one # tr)"
    "interrupt env (put_region_data p (ring_region (q_ring q))
        (commit_mem d off b pkt s db ringTailOffset (word_of_int x))) q tr =
       Some (e2, SysWrite (q_interruptFd q) uvarint_one # tr)"
proof -
  let ?reg = "ring_region (q_ring q)"
  let ?d1 = "overlay d b pkt" and ?d2 = "overlay (overlay d b pkt) (desc_base off s) db"
  have l1: "length ?d1 = length d" using b by simp
  have l2: "length ?d2 = length d" using slot_fits [OF ra s] l1 db by simp
  have r2: "ring_at p2 q k off ?d1" unfolding p2_def by (rule ring_at_put [OF ra l1])
  have r3: "ring_at (put_region_data p ?reg ?d2) q k off ?d2" by (rule ring_at_put [OF ra l2])
  have p3: "putDescBuf p2 q (int s) db = Some (put_region_data p ?reg ?d2)"
    using putDescBuf_at [OF r2 s db] ring_atD(1) [OF ra] by (simp add: p2_def put_region_data_put)
  have wh: "writeHead (put_region_data p ?reg ?d2) q x = Some (put_region_data p ?reg
      (commit_mem d off b pkt s db ringHeadOffset (word_of_int x)))"
    using writeHead_at [OF r3] ring_atD(1) [OF ra] by (simp add: put_region_data_put commit_mem_def)
  have wt: "writeTail (put_region_data p ?reg ?d2) q x = Some (put_region_data p ?reg
      (commit_mem d off b pkt s db ringTailOffset (word_of_int x)))"
    using writeTail_at [OF r3] ring_atD(1) [OF ra] by (simp add: put_region_data_put commit_mem_def)
  have len: "length (commit_mem d off b pkt s db fld (word_of_int x)) = length d"
    if "fld + 2 \<le> 128" for fld
    using that ring_atD(6) [OF ra] l2 by (simp add: commit_mem_def)
  obtain e1 where e1: "interrupt env (put_region_data p ?reg
        (commit_mem d off b pkt s db ringHeadOffset (word_of_int x))) q tr =
       Some (e1, SysWrite (q_interruptFd q) uvarint_one # tr)"
    using interrupt_at [OF ring_at_put [OF ra len]] by fastforce
  obtain e2 where e2: "interrupt env (put_region_data p ?reg
        (commit_mem d off b pkt s db ringTailOffset (word_of_int x))) q tr =
       Some (e2, SysWrite (q_interruptFd q) uvarint_one # tr)"
    using interrupt_at [OF ring_at_put [OF ra len]] by fastforce
  from p3 wh wt e1 e2 show thesis by (rule that)
qed

text \<open>The free slots and the pending slots, as the code computes them.\<close>

definition client_free :: "byte list \<Rightarrow> nat \<Rightarrow> nat \<Rightarrow> u16" where
  "client_free d off k = 2 ^ k - (head_of d off - tail_of d off)"

lemma client_free_code:
  "(word_of_int (2 ^ k - uint (head_of d off) + uint (tail_of d off)) :: u16) = client_free d off k"
  by (simp add: client_free_def)

lemma WritePacket_client_at:
  assumes ra: "ring_at p q k off d" and cl: "\<not> cfg_IsServer (p_cfg p)"
    and free: "client_free d off k \<noteq> 0"
    and s: "s = unat (head_of d off) mod 2 ^ k"
    and di: "desc_is (desc_of d off s) f (ring_region (q_ring q)) l (int b)"
    and fits: "b + unat (PacketBufferSize (p_run p)) \<le> length d"
    and small: "length pkt \<le> unat (PacketBufferSize (p_run p))"
  obtains db where
    "WritePacket env p q pkt tr = Some (int (length pkt),
       put_region_data p (ring_region (q_ring q))
         (commit_mem d off b pkt s db ringHeadOffset (head_of d off + 1)),
       SysWrite (q_interruptFd q) uvarint_one # tr)"
    "desc_is db 0 (ring_region (q_ring q)) (int (length pkt)) (int b)"
proof -
  let ?pbs = "unat (PacketBufferSize (p_run p))"
  have s': "s < 2 ^ k" by (simp add: s)
  have slot: "uint (head_of d off) AND (ring_size (q_ring q) - 1) = int s"
    unfolding s by (rule slot_mask [OF ra])
  have pbs: "int ?pbs = (if cfg_IsServer (p_cfg p) then l else int ?pbs)" "?pbs < 2 ^ 32"
    using cl unsigned_less [of "PacketBufferSize (p_run p)"] by simp_all
  obtain db where db:
    "write_fill p q (uint (head_of d off)) newDescBuf (int ?pbs) pkt = Some (int (length pkt), db, int ?pbs,
       put_region_data p (ring_region (q_ring q)) (overlay d b pkt))"
    "desc_is db 0 (ring_region (q_ring q)) (int (length pkt)) (int b)"
    using write_fill_at [OF ra s' slot di pbs fits length_newDescBuf refl, of pkt] small by auto
  have "b + length pkt \<le> length d" using fits small by simp
  from write_finish [OF ra s' desc_isD(1) [OF db(2)] this,
      where x = "uint (head_of d off) + 1" and env = env and tr = tr]
  obtain p3 e where fin:
    "putDescBuf (put_region_data p (ring_region (q_ring q)) (overlay d b pkt)) q (int s) db = Some p3"
    "writeHead p3 q (uint (head_of d off) + 1) = Some (put_region_data p (ring_region (q_ring q))
        (commit_mem d off b pkt s db ringHeadOffset (head_of d off + 1)))"
    "interrupt env (put_region_data p (ring_region (q_ring q))
        (commit_mem d off b pkt s db ringHeadOffset (head_of d off + 1))) q tr =
       Some (e, SysWrite (q_interruptFd q) uvarint_one # tr)"
    by (simp only: of_int_add of_int_1 word_of_int_uint) blast
  have "WritePacket env p q pkt tr = Some (int (length pkt),
       put_region_data p (ring_region (q_ring q))
         (commit_mem d off b pkt s db ringHeadOffset (head_of d off + 1)),
       SysWrite (q_interruptFd q) uvarint_one # tr)"
    using cl free fin db(1)
    by (simp add: WritePacket_def readHead_at [OF ra] readTail_at [OF ra] ring_atD(2) [OF ra]
        client_free_code slot [unfolded ring_atD(2) [OF ra]] write_chain_done Let_def
        del: of_int_add of_int_diff of_int_power)
  then show thesis using db(2) that by blast
qed

lemma WritePacket_server_at:
  assumes ra: "ring_at p q k off d" and sv: "cfg_IsServer (p_cfg p)"
    and free: "head_of d off \<noteq> tail_of d off"
    and s: "s = unat (tail_of d off) mod 2 ^ k"
    and di: "desc_is (desc_of d off s) f (ring_region (q_ring q)) (int pbs) (int b)"
    and fits: "b + pbs \<le> length d" and small: "length pkt \<le> pbs"
  obtains db where
    "WritePacket env p q pkt tr = Some (int (length pkt),
       put_region_data p (ring_region (q_ring q))
         (commit_mem d off b pkt s db ringTailOffset (tail_of d off + 1)),
       SysWrite (q_interruptFd q) uvarint_one # tr)"
    "desc_is db 0 (ring_region (q_ring q)) (int (length pkt)) (int b)"
proof -
  have s': "s < 2 ^ k" by (simp add: s)
  have slot: "uint (tail_of d off) AND (ring_size (q_ring q) - 1) = int s"
    unfolding s by (rule slot_mask [OF ra])
  have pbs: "int pbs = (if cfg_IsServer (p_cfg p) then int pbs else uint (PacketBufferSize (p_run p)))"
      "pbs < 2 ^ 32"
    using sv desc_is_bounds(6) [OF di] by simp_all
  obtain db where db:
    "write_fill p q (uint (tail_of d off)) newDescBuf (uint (PacketBufferSize (p_run p))) pkt =
       Some (int (length pkt), db, int pbs,
         put_region_data p (ring_region (q_ring q)) (overlay d b pkt))"
    "desc_is db 0 (ring_region (q_ring q)) (int (length pkt)) (int b)"
    using write_fill_at [OF ra s' slot di pbs fits length_newDescBuf refl, of pkt] small by auto
  have "b + length pkt \<le> length d" using fits small by simp
  from write_finish [OF ra s' desc_isD(1) [OF db(2)] this,
      where x = "uint (tail_of d off) + 1" and env = env and tr = tr]
  obtain p3 e where fin:
    "putDescBuf (put_region_data p (ring_region (q_ring q)) (overlay d b pkt)) q (int s) db = Some p3"
    "writeTail p3 q (uint (tail_of d off) + 1) = Some (put_region_data p (ring_region (q_ring q))
        (commit_mem d off b pkt s db ringTailOffset (tail_of d off + 1)))"
    "interrupt env (put_region_data p (ring_region (q_ring q))
        (commit_mem d off b pkt s db ringTailOffset (tail_of d off + 1))) q tr =
       Some (e, SysWrite (q_interruptFd q) uvarint_one # tr)"
    by (simp only: of_int_add of_int_1 word_of_int_uint) blast
  have nz: "(word_of_int (uint (head_of d off) - uint (tail_of d off)) :: u16) \<noteq> 0"
    using free by simp
  have "WritePacket env p q pkt tr = Some (int (length pkt),
       put_region_data p (ring_region (q_ring q))
         (commit_mem d off b pkt s db ringTailOffset (tail_of d off + 1)),
       SysWrite (q_interruptFd q) uvarint_one # tr)"
    using sv nz fin db(1)
    by (simp add: WritePacket_def readHead_at [OF ra] readTail_at [OF ra] slot write_chain_done Let_def
        del: of_int_diff)
  then show thesis using db(2) that by blast
qed

text \<open>A full ring: nothing is written, the peer is interrupted and the result is 0.\<close>

lemma WritePacket_full_at:
  assumes ra: "ring_at p q k off d"
    and full: "if cfg_IsServer (p_cfg p) then head_of d off = tail_of d off else client_free d off k = 0"
  shows "WritePacket env p q pkt tr = Some (0, p, SysWrite (q_interruptFd q) uvarint_one # tr)"
proof -
  obtain e where e: "interrupt env p q tr = Some (e, SysWrite (q_interruptFd q) uvarint_one # tr)"
    using interrupt_at [OF ra] by blast
  show ?thesis
  proof (cases "cfg_IsServer (p_cfg p)")
    case True
    then show ?thesis using full e
      by (simp add: WritePacket_def readHead_at [OF ra] readTail_at [OF ra] Let_def)
  next
    case False
    then show ?thesis using full e
      by (simp add: WritePacket_def readHead_at [OF ra] readTail_at [OF ra] ring_atD(2) [OF ra]
          client_free_code Let_def del: of_int_add of_int_diff of_int_power)
  qed
qed

lemma read_refill_server_at:
  assumes ra: "ring_at p q k off d" and sv: "cfg_IsServer (p_cfg p)"
  shows "read_refill p q slot = Some (q\<lparr>q_lastHead := word_of_int slot\<rparr>,
    put_region_data p (ring_region (q_ring q))
      (overlay d (off + ringTailOffset) (put_le 2 (word_of_int slot :: u16))))"
proof -
  have "ring_at p (q\<lparr>q_lastHead := word_of_int slot\<rparr>) k off d" using ra by (simp add: ring_at_def)
  from writeTail_at [OF this] show ?thesis using sv by (simp add: read_refill_def Let_def)
qed

lemma ReadPacket_server_at:
  assumes ra: "ring_at p q k off d" and sv: "cfg_IsServer (p_cfg p)"
    and avail: "head_of d off \<noteq> q_lastHead q"
    and s: "s = unat (q_lastHead q) mod 2 ^ k"
    and di: "desc_is (desc_of d off s) 0 (ring_region (q_ring q)) (int n) (int b)"
    and fits: "b + n \<le> length d" and room: "n \<le> length pkt"
  shows "ReadPacket p q pkt = Some (int n, None, overlay pkt 0 (window d b n),
    q\<lparr>q_lastHead := q_lastHead q + 1\<rparr>,
    put_region_data p (ring_region (q_ring q))
      (overlay d (off + ringTailOffset) (put_le 2 (q_lastHead q + 1))))"
proof -
  have s': "s < 2 ^ k" by (simp add: s)
  have slot: "uint (q_lastHead q) AND (ring_size (q_ring q) - 1) = int s"
    unfolding s by (rule slot_mask [OF ra])
  have nz: "(word_of_int (uint (head_of d off) - uint (q_lastHead q)) :: u16) \<noteq> 0"
    using avail by simp
  have seg: "read_segment p (desc_of d off s) pkt 0 = Some (overlay pkt 0 (window d b n), int n)"
    using read_segment_at [OF di ring_atD(1) [OF ra] refl fits, of 0 pkt] room by simp
  show ?thesis
    using sv nz
    by (simp add: ReadPacket_def readHead_at [OF ra] slot getDescBuf_at [OF ra s' length_newDescBuf]
        seg read_chain_last [OF di] read_refill_server_at [OF ra sv] Let_def del: of_int_diff)
qed

text \<open>An empty ring on the server: no packet, and the tail is written back unchanged.\<close>

lemma ReadPacket_server_empty_at:
  assumes ra: "ring_at p q k off d" and sv: "cfg_IsServer (p_cfg p)"
    and empty: "head_of d off = q_lastHead q"
  shows "ReadPacket p q pkt = Some (0, None, pkt, q,
    put_region_data p (ring_region (q_ring q))
      (overlay d (off + ringTailOffset) (put_le 2 (q_lastHead q))))"
  using sv empty
  by (simp add: ReadPacket_def readHead_at [OF ra] read_refill_server_at [OF ra sv] Let_def)

section \<open>The refill of the client's receive ring\<close>

fun refill_mem :: "nat \<Rightarrow> byte list \<Rightarrow> nat \<Rightarrow> nat \<Rightarrow> nat \<Rightarrow> u16 \<Rightarrow> byte list" where
  "refill_mem 0 d off k h len = d"
| "refill_mem (Suc n) d off k h len =
     refill_mem n (overlay d (desc_base off (h mod 2 ^ k) + descLengthOffset) (put_le 2 len))
       off k (Suc h) len"

lemma refill_loop_at:
  assumes "ring_at p q k off d"
  shows "refill_loop n p q (ring_size (q_ring q) - 1) (int h) =
    Some (put_region_data p (ring_region (q_ring q))
       (refill_mem n d off k h (word_of_int (uint (PacketBufferSize (p_run p))))), int (h + n))"
  using assms
proof (induction n arbitrary: p d h)
  case 0
  then show ?case by (simp add: put_region_data_same ring_atD(1))
next
  case (Suc n)
  let ?d' = "overlay d (desc_base off (h mod 2 ^ k) + descLengthOffset)
      (put_le 2 (word_of_int (uint (PacketBufferSize (p_run p))) :: u16))"
  have slot: "int h AND (ring_size (q_ring q) - 1) = int (h mod 2 ^ k)"
    by (simp add: ring_atD(2) [OF Suc.prems] and_low_mask zmod_int)
  have "length ?d' = length d" using slot_fits [OF Suc.prems, of "h mod 2 ^ k"] by simp
  from Suc.IH [OF ring_at_put [OF Suc.prems this], of "Suc h"]
  show ?case
    using setDescLength_at [OF Suc.prems, of "h mod 2 ^ k"] ring_atD(1) [OF Suc.prems]
    by (simp add: slot put_region_data_put add.commute)
qed

definition refilled :: "byte list \<Rightarrow> nat \<Rightarrow> nat \<Rightarrow> u16 \<Rightarrow> u32 \<Rightarrow> byte list" where
  "refilled d off k y pbs =
     overlay (refill_mem (unat ((2 ^ k - (head_of d off - y)) :: u16)) d off k (unat (head_of d off))
         (ucast pbs)) (off + ringHeadOffset) (put_le 2 (y + 2 ^ k))"

lemma length_refill_mem:
  assumes "off + ring_span k \<le> length d"
  shows "length (refill_mem n d off k h len) = length d"
  using assms
proof (induction n arbitrary: d h)
  case (Suc n)
  have "h mod 2 ^ k < 2 ^ k" by simp
  from slot_bound [OF this, of off] Suc.prems
  have "desc_base off (h mod 2 ^ k) + descSize \<le> length d" by simp
  then show ?case using Suc by simp
qed simp

lemma read_refill_client_at:
  assumes ra: "ring_at p q k off d" and cl: "\<not> cfg_IsServer (p_cfg p)"
  shows "read_refill p q slot = Some (q\<lparr>q_lastTail := word_of_int slot\<rparr>,
    put_region_data p (ring_region (q_ring q))
      (refilled d off k (word_of_int slot) (PacketBufferSize (p_run p))))"
proof -
  let ?q = "q\<lparr>q_lastTail := word_of_int slot\<rparr>" and ?h = "head_of d off"
  let ?n = "2 ^ k - (?h - word_of_int slot) :: u16"
  let ?d = "refill_mem (unat ?n) d off k (unat ?h) (ucast (PacketBufferSize (p_run p)))"
  have rq: "ring_at p ?q k off d" using ra by (simp add: ring_at_def)
  have n: "(word_of_int (2 ^ k - uint ?h + uint (word_of_int slot :: u16)) :: u16) = ?n" by simp
  have "length ?d = length d" by (rule length_refill_mem [OF ring_atD(5) [OF ra]])
  then have rr: "ring_at (put_region_data p (ring_region (q_ring q)) ?d) ?q k off ?d"
    using ring_at_put [OF rq] by simp
  have loop: "refill_loop (unat ?n) p ?q (2 ^ k - 1) (uint ?h) =
      Some (put_region_data p (ring_region (q_ring q)) ?d, int (unat ?h + unat ?n))"
    using refill_loop_at [OF rq, of "unat ?n" "unat ?h"] ring_atD(2) [OF ra]
    by (simp add: unsigned_ucast_eq)
  have hd: "(word_of_nat (unat ?h + unat ?n) :: u16) = word_of_int slot + 2 ^ k"
    by (simp add: algebra_simps)
  show ?thesis
    using cl writeHead_at [OF rr, of "int (unat ?h + unat ?n)"] ring_atD(1) [OF ra]
    by (simp add: read_refill_def readHead_at [OF rq] ring_atD(2) [OF ra] n loop hd refilled_def
        put_region_data_put Let_def del: of_int_add of_int_diff of_int_power of_nat_add)
qed

lemma ReadPacket_client_at:
  assumes ra: "ring_at p q k off d" and cl: "\<not> cfg_IsServer (p_cfg p)"
    and avail: "tail_of d off \<noteq> q_lastTail q"
    and s: "s = unat (q_lastTail q) mod 2 ^ k"
    and di: "desc_is (desc_of d off s) 0 (ring_region (q_ring q)) (int n) (int b)"
    and fits: "b + n \<le> length d" and room: "n \<le> length pkt"
  shows "ReadPacket p q pkt = Some (int n, None, overlay pkt 0 (window d b n),
    q\<lparr>q_lastTail := q_lastTail q + 1\<rparr>,
    put_region_data p (ring_region (q_ring q))
      (refilled d off k (q_lastTail q + 1) (PacketBufferSize (p_run p))))"
proof -
  have s': "s < 2 ^ k" by (simp add: s)
  have slot: "uint (q_lastTail q) AND (ring_size (q_ring q) - 1) = int s"
    unfolding s by (rule slot_mask [OF ra])
  have nz: "(word_of_int (uint (tail_of d off) - uint (q_lastTail q)) :: u16) \<noteq> 0"
    using avail by simp
  have seg: "read_segment p (desc_of d off s) pkt 0 = Some (overlay pkt 0 (window d b n), int n)"
    using read_segment_at [OF di ring_atD(1) [OF ra] refl fits, of 0 pkt] room by simp
  show ?thesis
    using cl nz
    by (simp add: ReadPacket_def readTail_at [OF ra] slot getDescBuf_at [OF ra s' length_newDescBuf]
        seg read_chain_last [OF di] read_refill_client_at [OF ra cl] Let_def del: of_int_diff)
qed

lemma ReadPacket_client_empty_at:
  assumes ra: "ring_at p q k off d" and cl: "\<not> cfg_IsServer (p_cfg p)"
    and empty: "tail_of d off = q_lastTail q"
  shows "ReadPacket p q pkt = Some (0, None, pkt, q,
    put_region_data p (ring_region (q_ring q))
      (refilled d off k (q_lastTail q) (PacketBufferSize (p_run p))))"
  using cl empty
  by (simp add: ReadPacket_def readTail_at [OF ra] read_refill_client_at [OF ra cl] Let_def)

section \<open>Two buffers\<close>

text \<open>A packet that needs two buffers, for both roles: both receive the beginning of the packet.\<close>

text \<open>One iteration of the chain loop: it fills the buffer of the next slot, from the beginning of the packet.\<close>

lemma write_second_buffer:
  assumes ra: "ring_at p q k off d" and a1: "int a1 = (if cfg_IsServer (p_cfg p) then l1 else pbs0)" "a1 < 2 ^ 32"
    and s: "s0 < 2 ^ k" "s1 < 2 ^ k" "s0 \<noteq> s1"
    and slots: "slot AND (ring_size (q_ring q) - 1) = int s0" "(slot + 1) AND (ring_size (q_ring q) - 1) = int s1"
    and di: "length db0 = descSize" "desc_is (desc_of d off s1) f1 (ring_region (q_ring q)) l1 (int b1)"
    and fits: "b1 + a1 \<le> length d" and m: "m = min a1 (length pkt)" and len: "a0 < length pkt" "length pkt \<le> a0 + a1"
  shows "\<exists>db0' db1. length db0' = descSize \<and> desc_is db1 0 (ring_region (q_ring q)) (int m) (int b1) \<and>
    (let d2 = overlay d (desc_base off s0) db0' in
     write_chain (Suc n) p q slot db0 pbs0 pkt (int a0) = Some (Some (int a0 + int m, slot + 1, db1),
      put_region_data (put_region_data p (ring_region (q_ring q)) d2) (ring_region (q_ring q)) (overlay d2 b1 (take m pkt))))"
proof -
  let ?reg = "ring_region (q_ring q)"
  obtain db0' where db0': "desc_setFlags db0 descFlagNext = Some db0'" "length db0' = descSize"
    using dflags.put_total [OF di(1), of descFlagNext] by blast
  let ?d2 = "overlay d (desc_base off s0) db0'"
  let ?p2 = "put_region_data p ?reg ?d2"
  have p2: "putDescBuf p q (int s0) db0' = Some ?p2" by (rule putDescBuf_at [OF ra s(1) db0'(2)])
  have fit0: "desc_base off s0 + 16 \<le> length d" using slot_fits [OF ra s(1)] by simp
  have l2: "length ?d2 = length d" using fit0 db0'(2) by simp
  have "desc_of ?d2 off s1 = desc_of d off s1"
    using desc_base_apart [OF s(3), of off] fit0 db0'(2) by (intro desc_of_other) auto
  then have di1: "desc_is (desc_of ?d2 off s1) f1 ?reg l1 (int b1)" using di(2) by simp
  have pbs: "int a1 = (if cfg_IsServer (p_cfg ?p2) then l1 else pbs0)" using a1(1) by simp
  obtain db1 where "write_fill ?p2 q (slot + 1) db0' pbs0 pkt =
      Some (int m, db1, int a1, put_region_data ?p2 ?reg (overlay ?d2 b1 (take m pkt)))" "desc_is db1 0 ?reg (int m) (int b1)"
    using write_fill_at [OF ring_at_put [OF ra l2] s(2) slots(2) di1 pbs a1(2) _ db0'(2) m] fits l2 by auto
  moreover from this(1) have "write_chain (Suc n) p q slot db0 pbs0 pkt (int a0) =
      Some (Some (int a0 + int m, slot + 1, db1), put_region_data ?p2 ?reg (overlay ?d2 b1 (take m pkt)))"
    using len m db0'(1) p2 slots(1) by (simp add: write_chain_done)
  ultimately show ?thesis using db0'(2) by (auto simp: Let_def)
qed

text \<open>The slot a writer starts at and the number of slots it has, for both roles.\<close>

definition write_pos :: "port \<Rightarrow> byte list \<Rightarrow> nat \<Rightarrow> u16" where
  "write_pos p d off = (if cfg_IsServer (p_cfg p) then tail_of d off else head_of d off)"

definition write_free :: "port \<Rightarrow> byte list \<Rightarrow> nat \<Rightarrow> nat \<Rightarrow> u16" where
  "write_free p d off k = (if cfg_IsServer (p_cfg p) then head_of d off - tail_of d off else client_free d off k)"

definition write_field :: "port \<Rightarrow> nat" where
  "write_field p = (if cfg_IsServer (p_cfg p) then ringTailOffset else ringHeadOffset)"

lemma WritePacket_start:
  assumes ra: "ring_at p q k off d" and "write_free p d off k \<noteq> 0"
  shows "WritePacket env p q pkt tr = do {
     (n, desc, pbs, p1) \<leftarrow> write_fill p q (uint (write_pos p d off)) newDescBuf (uint (PacketBufferSize (p_run p))) pkt;
     (res, p2) \<leftarrow> write_chain (unat (write_free p d off k) - 1) p1 q (uint (write_pos p d off)) desc pbs pkt n;
     (case res of
        None \<Rightarrow> do { (err, tr') \<leftarrow> interrupt env p2 q tr; Some (0, p2, tr') }
      | Some (n', slot', desc') \<Rightarrow> do {
          p3 \<leftarrow> putDescBuf p2 q (slot' AND (ring_size (q_ring q) - 1)) desc';
          p4 \<leftarrow> (if cfg_IsServer (p_cfg p) then writeTail p3 q (slot' + 1) else writeHead p3 q (slot' + 1));
          (err, tr') \<leftarrow> interrupt env p4 q tr;
          Some (n', p4, tr') }) }"
proof (cases "cfg_IsServer (p_cfg p)")
  case True
  then have "(word_of_int (uint (head_of d off) - uint (tail_of d off)) :: u16) = write_free p d off k"
    by (simp add: write_free_def)
  with True assms(2) show ?thesis
    by (simp add: WritePacket_def readHead_at [OF ra] readTail_at [OF ra] write_pos_def Let_def del: of_int_diff)
next
  case False
  then have "(word_of_int (ring_size (q_ring q) - uint (head_of d off) + uint (tail_of d off)) :: u16) = write_free p d off k"
    using client_free_code by (simp add: write_free_def ring_atD(2) [OF ra])
  with False assms(2) show ?thesis
    by (simp add: WritePacket_def readHead_at [OF ra] readTail_at [OF ra] write_pos_def Let_def del: of_int_diff of_int_add)
qed

lemma write_publish:
  fixes x :: int
  assumes "ring_at p q k off d" and "s < 2 ^ k" and "length db = descSize" and "b + length pkt \<le> length d"
  defines "p2 \<equiv> put_region_data p (ring_region (q_ring q)) (overlay d b pkt)"
    and "p4 \<equiv> put_region_data p (ring_region (q_ring q)) (commit_mem d off b pkt s db (write_field p) (word_of_int x))"
  shows "\<exists>p3 e. putDescBuf p2 q (int s) db = Some p3 \<and>
    (if cfg_IsServer (p_cfg p) then writeTail p3 q x else writeHead p3 q x) = Some p4 \<and>
    interrupt env p4 q tr = Some (e, SysWrite (q_interruptFd q) uvarint_one # tr)"
  unfolding p2_def p4_def write_field_def
  by (rule write_finish [OF assms(1-4), where x = x and env = env and tr = tr]) simp

lemma window_outside_ring:
  assumes "b + a \<le> off \<or> off + ring_span k \<le> b" and "s < 2 ^ k" and "length db = 16" and "fld + 2 \<le> 128"
    and "off + ring_span k \<le> length d"
  shows "window (overlay d (desc_base off s) db) b a = window d b a" "window (overlay d (off + fld) (put_le 2 x)) b a = window d b a"
proof -
  have "off \<le> desc_base off s" "desc_base off s + 16 \<le> off + ring_span k" "off + fld + 2 \<le> off + ring_span k"
    using slot_bound [OF assms(2), of off] assms(4) by (simp_all add: desc_base_def ring_span_def)
  then show "window (overlay d (desc_base off s) db) b a = window d b a" "window (overlay d (off + fld) (put_le 2 x)) b a = window d b a"
    using assms(1,3,5) by (auto intro!: window_overlay_other)
qed

lemma two_buffer_windows:
  fixes x :: u16
  assumes ra: "ring_at p q k off d" and s: "s0 < 2 ^ k" "s1 < 2 ^ k"
    and fits: "b0 + a0 \<le> length d" "b1 + a1 \<le> length d"
    and out: "b0 + a0 \<le> off \<or> off + ring_span k \<le> b0" "b1 + a1 \<le> off \<or> off + ring_span k \<le> b1" "b0 + a0 \<le> b1 \<or> b1 + a1 \<le> b0"
    and len: "length x0 = a0" "length x1 = m" "m \<le> a1" "length db0 = descSize" "length db1 = descSize"
  defines "d' \<equiv> commit_mem (overlay (overlay d b0 x0) (desc_base off s0) db0) off b1 x1 s1 db1 (write_field p) x"
  shows "window d' b0 a0 = x0" "window d' b1 m = x1"
    "(if cfg_IsServer (p_cfg p) then tail_of d' off else head_of d' off) = x"
proof -
  let ?e2 = "overlay (overlay d b0 x0) (desc_base off s0) db0"
  note R = ring_atD(5) [OF ra]
  have f: "write_field p + 2 \<le> 128" by (simp add: write_field_def)
  have l: "length (overlay d b0 x0) = length d" using fits(1) len(1) by simp
  have l2: "length ?e2 = length d" using l slot_fits [OF ra s(1)] len(4) by simp
  have l3: "length (overlay ?e2 b1 x1) = length d" using l2 fits(2) len(2,3) by simp
  have l4: "length (overlay (overlay ?e2 b1 x1) (desc_base off s1) db1) = length d" using l3 slot_fits [OF ra s(2)] len(5) by simp
  have o3: "off + ring_span k \<le> length (overlay ?e2 b1 x1)" and len5: "length db1 = 16"
    and o4: "off + ring_span k \<le> length (overlay (overlay ?e2 b1 x1) (desc_base off s1) db1)"
    using R l3 l4 len(5) by simp_all
  have w: "window d' b a = window (overlay ?e2 b1 x1) b a" if "b + a \<le> off \<or> off + ring_span k \<le> b" for b a
    unfolding d'_def commit_mem_def
    using window_outside_ring(1) [OF that s(2) len5 f o3] window_outside_ring(2) [OF that s(2) len5 f o4] by simp
  have "window d' b0 a0 = window ?e2 b0 a0"
    using w [OF out(1)] out(3) l2 fits(2) len(2,3) by (auto simp: window_overlay_other)
  also have "\<dots> = window (overlay d b0 x0) b0 a0" using window_outside_ring(1) [OF out(1) s(1) _ f] len(4) R l by simp
  finally show "window d' b0 a0 = x0" using fits(1) len(1) by (simp add: window_overlay_same)
  show "window d' b1 m = x1" using w [of b1 m] out(2) len(2,3) fits(2) l2 by (auto simp: window_overlay_same)
  have "window d' (off + write_field p) 2 = put_le 2 x"
    using l4 R f by (simp add: d'_def commit_mem_def window_overlay_same ring_span_def)
  then show "(if cfg_IsServer (p_cfg p) then tail_of d' off else head_of d' off) = x"
    by (simp add: head_of_def tail_of_def write_field_def split: if_splits)
qed

text \<open>The two buffers of a packet are filled in turn, each from the beginning of the packet.\<close>

lemma two_fills:
  assumes ra: "ring_at p q k off d" and k: "1 \<le> k" and free: "2 \<le> unat (write_free p d off k)"
    and s0: "s0 = unat (write_pos p d off) mod 2 ^ k" and s1: "s1 = (unat (write_pos p d off) + 1) mod 2 ^ k"
    and di0: "desc_is (desc_of d off s0) f0 (ring_region (q_ring q)) l0 (int b0)"
    and di1: "desc_is (desc_of d off s1) f1 (ring_region (q_ring q)) l1 (int b1)"
    and a0: "int a0 = (if cfg_IsServer (p_cfg p) then l0 else uint (PacketBufferSize (p_run p)))"
    and a1: "int a1 = (if cfg_IsServer (p_cfg p) then l1 else uint (PacketBufferSize (p_run p)))"
    and fits: "b0 + a0 \<le> length d" "b1 + a1 \<le> length d" and out: "b0 + a0 \<le> off \<or> off + ring_span k \<le> b0"
    and len: "a0 < length pkt" "length pkt \<le> a0 + a1" and m: "m = min a1 (length pkt)"
  defines "h \<equiv> uint (write_pos p d off)" and "reg \<equiv> ring_region (q_ring q)" and "e1 \<equiv> overlay d b0 (take a0 pkt)"
  shows "\<exists>db0 db0' db1. write_fill p q h newDescBuf (uint (PacketBufferSize (p_run p))) pkt =
      Some (int a0, db0, int a0, put_region_data p reg e1) \<and> length db0' = descSize \<and> length db1 = descSize \<and>
    write_chain (unat (write_free p d off k) - 1) (put_region_data p reg e1) q h db0 (int a0) pkt (int a0) =
      Some (Some (int (a0 + m), h + 1, db1), put_region_data (put_region_data p reg (overlay e1 (desc_base off s0) db0')) reg
        (overlay (overlay e1 (desc_base off s0) db0') b1 (take m pkt))) \<and>
    (h + 1) AND (ring_size (q_ring q) - 1) = int s1"
proof -
  have s: "s0 < 2 ^ k" "s1 < 2 ^ k" by (simp_all add: s0 s1)
  have "(2::nat) ^ 1 \<le> 2 ^ k" using k by (intro power_increasing) simp_all
  then have ne: "s0 \<noteq> s1" by (simp add: s0 s1 mod_Suc)
  have slot0: "h AND (ring_size (q_ring q) - 1) = int s0" unfolding s0 h_def by (rule slot_mask [OF ra])
  have slot1: "(h + 1) AND (ring_size (q_ring q) - 1) = int s1"
    by (simp add: h_def ring_atD(2) [OF ra] and_low_mask s1 zmod_int add.commute)
  have "int a < 2 ^ 32" if "int a = (if cfg_IsServer (p_cfg p) then l else uint (PacketBufferSize (p_run p)))" "l < 2 ^ 32" for a l
    using that uint_lt2p [of "PacketBufferSize (p_run p)"] by (simp split: if_splits)
  then have a32: "a0 < 2 ^ 32" "a1 < 2 ^ 32" using a0 a1 desc_is_bounds(6) [OF di0] desc_is_bounds(6) [OF di1] by force+
  have mn: "a0 = min a0 (length pkt)" using len(1) by simp
  obtain db0 where f0: "write_fill p q h newDescBuf (uint (PacketBufferSize (p_run p))) pkt =
      Some (int a0, db0, int a0, put_region_data p reg e1)" "desc_is db0 0 reg (int a0) (int b0)"
    using write_fill_at [OF ra s(1) slot0 di0 a0 a32(1) fits(1) length_newDescBuf mn] unfolding reg_def e1_def by blast
  have l1: "length e1 = length d" using fits(1) len(1) by (simp add: e1_def)
  have b1: "off + 128 \<le> desc_base off s1" "desc_base off s1 + 16 \<le> off + ring_span k"
    using slot_bound [OF s(2), of off] by (simp_all add: desc_base_def)
  have "desc_of e1 off s1 = desc_of d off s1" unfolding e1_def using fits(1) out(1) len(1) b1 by (intro desc_of_other) auto
  then have di1': "desc_is (desc_of e1 off s1) f1 reg l1 (int b1)" using di1 by (simp add: reg_def)
  have a1': "int a1 = (if cfg_IsServer (p_cfg (put_region_data p reg e1)) then l1 else int a0)" using a0 a1 by simp
  obtain n where n: "unat (write_free p d off k) - 1 = Suc n" using free by (cases "unat (write_free p d off k) - 1") auto
  have fit1: "b1 + a1 \<le> length e1" using fits(2) l1 by simp
  note ra1 = ring_at_put [OF ra l1, folded reg_def]
  obtain db0' db1 where c: "length db0' = descSize" "desc_is db1 0 reg (int m) (int b1)"
    "write_chain (Suc n) (put_region_data p reg e1) q h db0 (int a0) pkt (int a0) =
      Some (Some (int (a0 + m), h + 1, db1), put_region_data (put_region_data p reg (overlay e1 (desc_base off s0) db0')) reg
        (overlay (overlay e1 (desc_base off s0) db0') b1 (take m pkt)))"
    using write_second_buffer [OF ra1 a1' a32(2) s ne slot0 slot1 desc_isD(1) [OF f0(2)] di1' [unfolded reg_def] fit1 m len, of n]
      ring_atD(1) [OF ra] by (auto simp: put_region_data_put Let_def reg_def)
  then show ?thesis using f0(1) slot1 desc_isD(1) [OF c(2)] unfolding n by blast
qed

lemma WritePacket_two_buffers:
  assumes ra: "ring_at p q k off d" and k: "1 \<le> k" and free: "2 \<le> unat (write_free p d off k)"
    and s0: "s0 = unat (write_pos p d off) mod 2 ^ k" and s1: "s1 = (unat (write_pos p d off) + 1) mod 2 ^ k"
    and di0: "desc_is (desc_of d off s0) f0 (ring_region (q_ring q)) l0 (int b0)"
    and di1: "desc_is (desc_of d off s1) f1 (ring_region (q_ring q)) l1 (int b1)"
    and a0: "int a0 = (if cfg_IsServer (p_cfg p) then l0 else uint (PacketBufferSize (p_run p)))"
    and a1: "int a1 = (if cfg_IsServer (p_cfg p) then l1 else uint (PacketBufferSize (p_run p)))"
    and fits: "b0 + a0 \<le> length d" "b1 + a1 \<le> length d"
    and out: "b0 + a0 \<le> off \<or> off + ring_span k \<le> b0" "b1 + a1 \<le> off \<or> off + ring_span k \<le> b1" "b0 + a0 \<le> b1 \<or> b1 + a1 \<le> b0"
    and len: "a0 < length pkt" "length pkt \<le> a0 + a1" and m: "m = min a1 (length pkt)"
  shows "\<exists>p' d'. WritePacket env p q pkt tr = Some (int (a0 + m), p', SysWrite (q_interruptFd q) uvarint_one # tr) \<and>
    region_data p' (ring_region (q_ring q)) = Some d' \<and> window d' b0 a0 = take a0 pkt \<and> window d' b1 m = take m pkt \<and>
    write_pos p' d' off = write_pos p d off + 2"
proof -
  let ?reg = "ring_region (q_ring q)" and ?h = "uint (write_pos p d off)" and ?pk = "take a0 pkt" and ?pm = "take m pkt"
  have pk: "length ?pk = a0" "length ?pm = m" "m \<le> a1" using len(1) m by simp_all
  have s: "s0 < 2 ^ k" "s1 < 2 ^ k" by (simp_all add: s0 s1)
  let ?e1 = "overlay d b0 ?pk"
  obtain db0 db0' db1 where c: "write_fill p q ?h newDescBuf (uint (PacketBufferSize (p_run p))) pkt =
      Some (int a0, db0, int a0, put_region_data p ?reg ?e1)" "length db0' = descSize" "length db1 = descSize"
    "write_chain (unat (write_free p d off k) - 1) (put_region_data p ?reg ?e1) q ?h db0 (int a0) pkt (int a0) =
      Some (Some (int (a0 + m), ?h + 1, db1), put_region_data (put_region_data p ?reg (overlay ?e1 (desc_base off s0) db0')) ?reg
        (overlay (overlay ?e1 (desc_base off s0) db0') b1 ?pm))"
    "(?h + 1) AND (ring_size (q_ring q) - 1) = int s1"
    using two_fills [OF ra k free s0 s1 di0 di1 a0 a1 fits out(1) len m] by blast
  define e2 where "e2 = overlay ?e1 (desc_base off s0) db0'"
  have l2: "length e2 = length d" and fit2: "b1 + length ?pm \<le> length e2"
    using slot_fits [OF ra s(1)] c(2) fits pk by (simp_all add: e2_def)
  let ?p2 = "put_region_data p ?reg e2" and ?x = "?h + 1 + 1"
  let ?m = "commit_mem e2 off b1 ?pm s1 db1 (write_field p) (word_of_int ?x)"
  note ra2 = ring_at_put [OF ra l2]
  obtain p4 e where fin: "putDescBuf (put_region_data ?p2 ?reg (overlay e2 b1 ?pm)) q (int s1) db1 = Some p4"
    "(if cfg_IsServer (p_cfg p) then writeTail p4 q ?x else writeHead p4 q ?x) = Some (put_region_data ?p2 ?reg ?m)"
    "interrupt env (put_region_data ?p2 ?reg ?m) q tr = Some (e, SysWrite (q_interruptFd q) uvarint_one # tr)"
    using write_publish [OF ra2 s(2) c(3) fit2, where x = ?x and env = env and tr = tr] by (auto simp: write_field_def)
  have "write_free p d off k \<noteq> 0" using free by auto
  then have "WritePacket env p q pkt tr = Some (int (a0 + m), put_region_data ?p2 ?reg ?m, SysWrite (q_interruptFd q) uvarint_one # tr)"
    using c(1,5) c(4) [folded e2_def] fin by (simp add: WritePacket_start [OF ra] split del: if_split)
  moreover have lm: "length ?m = length d"
    using fit2 l2 slot_fits [OF ra s(2)] c(3) ring_atD(6) [OF ra] by (simp add: commit_mem_def write_field_def)
  then have "region_data (put_region_data ?p2 ?reg ?m) ?reg = Some ?m"
    using ring_atD(1) [OF ra2] l2 by (simp add: region_data_put)
  moreover note T = two_buffer_windows [OF ra s fits out pk c(2,3), of "word_of_int ?x", folded e2_def]
  have "(word_of_int ?x :: u16) = write_pos p d off + 2" by simp
  then have "write_pos (put_region_data ?p2 ?reg ?m) ?m off = write_pos p d off + 2"
    using T(3) by (simp only: write_pos_def put_region_data_frame)
  ultimately show ?thesis using T(1,2) by blast
qed

end
