(* ===== verification/Channel.thy ===== *)
theory Channel
  imports Packet
begin

text \<open>
  One direction of a connection as a whole: the client's and the server's queue over the same
  shared memory. \<open>fifo_channel\<close> is the contract a user of the library relies on: a bounded
  first-in first-out channel. Both directions of the program are interpreted as instances of
  it: client to server (\<open>S2M\<close> ring: the client moves the head, the server the tail) and server
  to client (\<open>M2S\<close> ring: the server moves the tail, the client reads up to it and refills by
  moving the head). Inside the locale the contract is lifted to arbitrary interleavings of sends
  and receives.
\<close>

section \<open>The contract\<close>

datatype 'a chan_op = Send 'a | Recv

text \<open>Running a list of operations: the final state, the packets accepted by the sender and the
  packets delivered to the receiver, both in order. \<open>None\<close> if an operation panics.\<close>

fun channel_run :: "('a \<Rightarrow> 's \<Rightarrow> ('s \<times> bool) option) \<Rightarrow> ('s \<Rightarrow> ('s \<times> 'a option) option) \<Rightarrow>
    'a chan_op list \<Rightarrow> 's \<Rightarrow> ('s \<times> 'a list \<times> 'a list) option" where
  "channel_run send recv [] s = Some (s, [], [])"
| "channel_run send recv (Send x # ops) s = do {
     (s1, accepted) \<leftarrow> send x s;
     (s2, ins, outs) \<leftarrow> channel_run send recv ops s1;
     Some (s2, if accepted then x # ins else ins, outs) }"
| "channel_run send recv (Recv # ops) s = do {
     (s1, r) \<leftarrow> recv s;
     (s2, ins, outs) \<leftarrow> channel_run send recv ops s1;
     Some (s2, ins, case r of None \<Rightarrow> outs | Some x \<Rightarrow> x # outs) }"

fun op_ok :: "('a \<Rightarrow> bool) \<Rightarrow> 'a chan_op \<Rightarrow> bool" where
  "op_ok P (Send x) = P x"
| "op_ok P Recv = True"

text \<open>The abstract channel: a list of packets and a credit, the number of packets the receiver is
  prepared to hold. A packet is accepted when the credit is not used up; every receive, successful or
  not, restores the credit to the capacity. The result is the final list, the packets accepted and
  the packets delivered.\<close>

fun fifo_run :: "nat \<Rightarrow> 'a chan_op list \<Rightarrow> nat \<Rightarrow> 'a list \<Rightarrow> 'a list \<times> 'a list \<times> 'a list" where
  "fifo_run cap [] credit q = (q, [], [])"
| "fifo_run cap (Send x # ops) credit q =
     (if length q < credit
      then (case fifo_run cap ops credit (q @ [x]) of (q', ins, outs) \<Rightarrow> (q', x # ins, outs))
      else fifo_run cap ops credit q)"
| "fifo_run cap (Recv # ops) credit [] = fifo_run cap ops cap []"
| "fifo_run cap (Recv # ops) credit (x # q) =
     (case fifo_run cap ops cap q of (q', ins, outs) \<Rightarrow> (q', ins, x # outs))"

text \<open>Nothing is lost, duplicated or reordered, and the capacity is kept.\<close>

lemma fifo_run_order:
  "fifo_run cap ops credit q = (q', ins, outs) \<Longrightarrow> q @ ins = outs @ q'"
  by (induction cap ops credit q arbitrary: q' ins outs rule: fifo_run.induct)
    (fastforce split: if_splits prod.splits)+

lemma fifo_run_bounded:
  "fifo_run cap ops credit q = (q', ins, outs) \<Longrightarrow> length q \<le> cap \<Longrightarrow> credit \<le> cap \<Longrightarrow> length q' \<le> cap"
  by (induction cap ops credit q arbitrary: q' ins outs rule: fifo_run.induct)
    (fastforce split: if_splits prod.splits)+

locale fifo_channel =
  fixes inv :: "'s \<Rightarrow> bool"
    and contents :: "'s \<Rightarrow> 'a list"
    and credit :: "'s \<Rightarrow> nat"
    and cap :: nat
    and ok :: "'a \<Rightarrow> bool"
    and send :: "'a \<Rightarrow> 's \<Rightarrow> ('s \<times> bool) option"
    and recv :: "'s \<Rightarrow> ('s \<times> 'a option) option"
  assumes send_accept: "inv s \<Longrightarrow> ok x \<Longrightarrow> length (contents s) < credit s \<Longrightarrow>
      \<exists>s'. send x s = Some (s', True) \<and> inv s' \<and> contents s' = contents s @ [x] \<and> credit s' = credit s"
    and send_reject: "inv s \<Longrightarrow> ok x \<Longrightarrow> \<not> length (contents s) < credit s \<Longrightarrow>
      \<exists>s'. send x s = Some (s', False) \<and> inv s' \<and> contents s' = contents s \<and> credit s' = credit s"
    and recv_some: "inv s \<Longrightarrow> contents s = x # xs \<Longrightarrow>
      \<exists>s'. recv s = Some (s', Some x) \<and> inv s' \<and> contents s' = xs \<and> credit s' = cap"
    and recv_none: "inv s \<Longrightarrow> contents s = [] \<Longrightarrow>
      \<exists>s'. recv s = Some (s', None) \<and> inv s' \<and> contents s' = [] \<and> credit s' = cap"
begin

text \<open>No interleaving panics, and every run is the run of the abstract channel on the contents.\<close>

lemma run_refines:
  assumes "inv s" and "list_all (op_ok ok) ops"
  shows "\<exists>s' ins outs. channel_run send recv ops s = Some (s', ins, outs) \<and> inv s' \<and>
    fifo_run cap ops (credit s) (contents s) = (contents s', ins, outs)"
  using assms
proof (induction ops arbitrary: s)
  case Nil
  then show ?case by simp
next
  case (Cons op ops)
  show ?case
  proof (cases op)
    case (Send x)
    then have x: "ok x" and ops: "list_all (op_ok ok) ops" using Cons.prems(2) by simp_all
    from send_accept [OF Cons.prems(1) x] send_reject [OF Cons.prems(1) x] Cons.IH [OF _ ops]
    show ?thesis by (cases "length (contents s) < credit s") (fastforce simp: Send)+
  next
    case Recv
    then have ops: "list_all (op_ok ok) ops" using Cons.prems(2) by simp
    from recv_some [OF Cons.prems(1)] recv_none [OF Cons.prems(1)] Cons.IH [OF _ ops]
    show ?thesis by (cases "contents s") (fastforce simp: Recv)+
  qed
qed

end

section \<open>Slots of a ring in the shared bytes\<close>

definition slots_ok :: "nat \<Rightarrow> nat \<Rightarrow> (nat \<Rightarrow> nat) \<Rightarrow> nat \<Rightarrow> nat \<Rightarrow> bool" where
  "slots_ok k off B bsz N \<longleftrightarrow>
     k \<le> 15 \<and> off + ring_span k \<le> N \<and>
     (\<forall>s<2 ^ k. B s + bsz \<le> N \<and> (B s + bsz \<le> off \<or> off + ring_span k \<le> B s)) \<and>
     (\<forall>s<2 ^ k. \<forall>s'<2 ^ k. s \<noteq> s' \<longrightarrow> B s + bsz \<le> B s' \<or> B s' + bsz \<le> B s)"

definition slots_point :: "nat \<Rightarrow> nat \<Rightarrow> (nat \<Rightarrow> nat) \<Rightarrow> byte list \<Rightarrow> bool" where
  "slots_point k off B d \<longleftrightarrow> (\<forall>s<2 ^ k. slot_points d off s 0 (B s))"

definition slot_idx :: "nat \<Rightarrow> u16 \<Rightarrow> nat \<Rightarrow> nat" where
  "slot_idx k lo i = (unat lo + i) mod 2 ^ k"

text \<open>\<open>pend_ok\<close>: the \<open>n\<close> slots from \<open>lo\<close> on each hold one unchained, non-empty packet that
  fits its buffer; \<open>pend\<close>: those packets.\<close>

definition slot_payload :: "nat \<Rightarrow> (nat \<Rightarrow> nat) \<Rightarrow> byte list \<Rightarrow> nat \<Rightarrow> byte list" where
  "slot_payload off B d s = window d (B s) (nat (the (desc_getLength (desc_of d off s))))"

definition pend :: "nat \<Rightarrow> nat \<Rightarrow> (nat \<Rightarrow> nat) \<Rightarrow> byte list \<Rightarrow> u16 \<Rightarrow> nat \<Rightarrow> byte list list" where
  "pend k off B d lo n = map (\<lambda>i. slot_payload off B d (slot_idx k lo i)) [0..<n]"

definition pend_ok :: "nat \<Rightarrow> nat \<Rightarrow> (nat \<Rightarrow> nat) \<Rightarrow> nat \<Rightarrow> byte list \<Rightarrow> u16 \<Rightarrow> nat \<Rightarrow> bool" where
  "pend_ok k off B bsz d lo n \<longleftrightarrow>
     (\<forall>i<n. \<exists>l. 0 < l \<and> l \<le> bsz \<and>
        desc_is (desc_of d off (slot_idx k lo i)) 0 0 (int l) (int (B (slot_idx k lo i))))"

lemma slot_idx_less [simp]: "slot_idx k lo i < 2 ^ k"
  by (simp add: slot_idx_def)

lemma unat_add_mod:
  assumes "k \<le> 16"
  shows "unat (lo + of_nat j :: u16) mod 2 ^ k = (unat lo + j) mod 2 ^ k"
proof -
  have dvd: "(2::nat) ^ k dvd 2 ^ 16" using assms by (rule le_imp_power_dvd)
  have "unat (lo + of_nat j :: u16) = (unat lo + j) mod 2 ^ 16"
    by (simp add: unat_word_ariths unat_of_nat mod_simps)
  then show ?thesis using dvd by (simp add: mod_mod_cancel)
qed

lemma slot_idx_Suc: "k \<le> 15 \<Longrightarrow> slot_idx k (lo + 1) i = slot_idx k lo (Suc i)"
proof -
  assume "k \<le> 15"
  then have "unat (lo + 1) mod 2 ^ k = (unat lo + 1) mod 2 ^ k"
    using unat_add_mod [of k lo 1] by simp
  then have "(unat (lo + 1) mod 2 ^ k + i) mod 2 ^ k = ((unat lo + 1) mod 2 ^ k + i) mod 2 ^ k" by simp
  then show ?thesis by (simp add: slot_idx_def mod_add_left_eq)
qed

lemma slot_idx_inj: "i < 2 ^ k \<Longrightarrow> j < 2 ^ k \<Longrightarrow> slot_idx k lo i = slot_idx k lo j \<Longrightarrow> i = j"
proof (induction i j rule: linorder_wlog)
  case (le i j)
  then have "(unat lo + i) mod 2 ^ k = (unat lo + j) mod 2 ^ k" by (simp add: slot_idx_def)
  then have "2 ^ k dvd j - i"
    using le(1) mod_eq_dvd_iff_nat [of "unat lo + i" "unat lo + j" "2 ^ k"] by simp
  then show ?case using le nat_dvd_not_less [of "j - i" "2 ^ k"] by force
next
  case (sym i j)
  then show ?case by simp
qed

subsection \<open>Stores that leave a slot alone\<close>

text \<open>\<open>slot_same\<close>: the descriptor of slot \<open>s\<close> and the bytes of its buffer are equal in \<open>d\<close> and
  \<open>d'\<close>. All pending packets survive a store for which this holds at their slots.\<close>

definition slot_same :: "nat \<Rightarrow> (nat \<Rightarrow> nat) \<Rightarrow> nat \<Rightarrow> byte list \<Rightarrow> byte list \<Rightarrow> nat \<Rightarrow> bool" where
  "slot_same off B bsz d d' s \<longleftrightarrow>
     desc_of d' off s = desc_of d off s \<and> window d' (B s) bsz = window d (B s) bsz"

lemma slot_same_trans:
  "slot_same off B bsz d d1 s \<Longrightarrow> slot_same off B bsz d1 d2 s \<Longrightarrow> slot_same off B bsz d d2 s"
  by (simp add: slot_same_def)

lemma slot_payload_same:
  assumes "slot_same off B bsz d d' s" and "desc_is (desc_of d off s) f r (int l) b" and "l \<le> bsz"
  shows "slot_payload off B d' s = slot_payload off B d s"
proof -
  have "window d' (B s) l = window d (B s) l"
    using assms(1,3) window_window [of 0 l bsz d' "B s"] window_window [of 0 l bsz d "B s"]
    by (simp add: slot_same_def)
  then show ?thesis using assms(1,2) by (simp add: slot_payload_def slot_same_def desc_is_def)
qed

lemma pend_same:
  assumes ok: "pend_ok k off B bsz d lo n"
    and same: "\<And>i. i < n \<Longrightarrow> slot_same off B bsz d d' (slot_idx k lo i)"
  shows "pend k off B d' lo n = pend k off B d lo n" "pend_ok k off B bsz d' lo n"
proof -
  have "slot_payload off B d' (slot_idx k lo i) = slot_payload off B d (slot_idx k lo i)" if "i < n" for i
    using ok same [OF that] that slot_payload_same unfolding pend_ok_def by blast
  then show "pend k off B d' lo n = pend k off B d lo n" by (simp add: pend_def)
  show "pend_ok k off B bsz d' lo n" using ok same unfolding pend_ok_def slot_same_def by simp
qed

lemma slots_okD:
  assumes "slots_ok k off B bsz N"
  shows "k \<le> 15" "off + ring_span k \<le> N" "off + 128 \<le> N"
    "s < 2 ^ k \<Longrightarrow> B s + bsz \<le> N" "s < 2 ^ k \<Longrightarrow> desc_base off s + 16 \<le> N"
    "s < 2 ^ k \<Longrightarrow> B s + bsz \<le> off \<or> off + ring_span k \<le> B s"
    "s < 2 ^ k \<Longrightarrow> s' < 2 ^ k \<Longrightarrow> s \<noteq> s' \<Longrightarrow> B s + bsz \<le> B s' \<or> B s' + bsz \<le> B s"
  using assms slot_bound [of s k off] by (auto simp: slots_ok_def ring_span_def)

lemma slot_same_header:
  assumes g: "slots_ok k off B bsz (length d)" and s: "s < 2 ^ k" and fld: "fld + 2 \<le> 128"
  shows "slot_same off B bsz d (overlay d (off + fld) (put_le 2 (x :: u16))) s"
proof -
  have "off + fld + 2 \<le> desc_base off s" using fld by (simp add: desc_base_def)
  moreover have "B s + bsz \<le> off + fld \<or> off + fld + 2 \<le> B s"
    using slots_okD(6) [OF g s] fld by (auto simp: ring_span_def)
  ultimately show ?thesis
    using slots_okD(3) [OF g] fld
    by (auto simp: slot_same_def desc_of_other window_overlay_other)
qed

lemma slot_same_desc:
  assumes g: "slots_ok k off B bsz (length d)" and s: "s < 2 ^ k" "s' < 2 ^ k" "s \<noteq> s'"
    and i: "desc_base off s' \<le> i" "i + length ys \<le> desc_base off s' + 16"
  shows "slot_same off B bsz d (overlay d i ys) s"
proof -
  have "i + length ys \<le> desc_base off s \<or> desc_base off s + 16 \<le> i"
    using desc_base_apart [OF s(3), of off] i by linarith
  moreover have "B s + bsz \<le> i \<or> i + length ys \<le> B s"
    using slots_okD(6) [OF g s(1)] slot_bound [OF s(2), of off] i
    by (auto simp: desc_base_def)
  moreover have "i + length ys \<le> length d" using slots_okD(5) [OF g s(2)] i by linarith
  ultimately show ?thesis by (auto simp: slot_same_def desc_of_other window_overlay_other)
qed

lemma slot_same_buffer:
  assumes g: "slots_ok k off B bsz (length d)" and s: "s < 2 ^ k" "s' < 2 ^ k" "s \<noteq> s'"
    and pkt: "length pkt \<le> bsz"
  shows "slot_same off B bsz d (overlay d (B s') pkt) s"
proof -
  have "B s' + length pkt \<le> desc_base off s \<or> desc_base off s + 16 \<le> B s'"
    using slots_okD(6) [OF g s(2)] slot_bound [OF s(1), of off] pkt
    by (auto simp: desc_base_def)
  then show ?thesis
    using slots_okD(7) [OF g s] slots_okD(4) [OF g s(2)] pkt
    by (auto simp: slot_same_def desc_of_other window_overlay_other)
qed

subsection \<open>The effect of a commit\<close>

lemma commit_mem_length:
  assumes "slots_ok k off B bsz (length d)" and "s < 2 ^ k" and "length pkt \<le> bsz"
    and "length db = 16" and "fld + 2 \<le> 128"
  shows "length (overlay d (B s) pkt) = length d"
    "length (overlay (overlay d (B s) pkt) (desc_base off s) db) = length d"
    "length (commit_mem d off (B s) pkt s db fld x) = length d"
proof -
  note g = slots_okD [OF assms(1)]
  show 1: "length (overlay d (B s) pkt) = length d" using g(4) [OF assms(2)] assms(3) by simp
  then show 2: "length (overlay (overlay d (B s) pkt) (desc_base off s) db) = length d"
    using g(5) [OF assms(2)] assms(4) by simp
  then show "length (commit_mem d off (B s) pkt s db fld x) = length d"
    using g(3) assms(5) by (simp add: commit_mem_def)
qed

lemma commit_mem_others:
  assumes g: "slots_ok k off B bsz (length d)" and s: "s < 2 ^ k" and pkt: "length pkt \<le> bsz"
    and db: "length db = 16" and fld: "fld + 2 \<le> 128" and s': "s' < 2 ^ k" "s' \<noteq> s"
  shows "slot_same off B bsz d (commit_mem d off (B s) pkt s db fld x) s'"
proof -
  note len = commit_mem_length [OF g s pkt db fld]
  let ?d1 = "overlay d (B s) pkt" and ?d2 = "overlay (overlay d (B s) pkt) (desc_base off s) db"
  have "slot_same off B bsz d ?d1 s'" by (rule slot_same_buffer [OF g s'(1) s s'(2) pkt])
  moreover have "slot_same off B bsz ?d1 ?d2 s'"
    using g len(1) db by (intro slot_same_desc [OF _ s'(1) s s'(2)]) simp_all
  moreover have "slot_same off B bsz ?d2 (commit_mem d off (B s) pkt s db fld x) s'"
    unfolding commit_mem_def using g len(2) by (intro slot_same_header [OF _ s'(1) fld]) simp
  ultimately show ?thesis by (blast intro: slot_same_trans)
qed

lemma commit_mem_slot:
  assumes g: "slots_ok k off B bsz (length d)" and s: "s < 2 ^ k" and pkt: "length pkt \<le> bsz"
    and db: "length db = 16" and fld: "fld + 2 \<le> 128"
  shows "desc_of (commit_mem d off (B s) pkt s db fld x) off s = db"
    "window (commit_mem d off (B s) pkt s db fld x) (B s) (length pkt) = pkt"
proof -
  note len = commit_mem_length [OF g s pkt db fld]
  let ?d1 = "overlay d (B s) pkt" and ?d2 = "overlay (overlay d (B s) pkt) (desc_base off s) db"
  have same: "slot_same off B bsz ?d2 (commit_mem d off (B s) pkt s db fld x) s"
    unfolding commit_mem_def using g len(2) by (intro slot_same_header [OF _ s fld]) simp
  have "desc_of ?d2 off s = db"
    using slots_okD(5) [OF g s] len(1) db by (intro desc_of_same) simp_all
  then show "desc_of (commit_mem d off (B s) pkt s db fld x) off s = db"
    using same by (simp add: slot_same_def)
  have "B s + length pkt \<le> desc_base off s \<or> desc_base off s + 16 \<le> B s"
    using slots_okD(6) [OF g s] slot_bound [OF s, of off] pkt by (auto simp: desc_base_def)
  then have "window ?d2 (B s) (length pkt) = window ?d1 (B s) (length pkt)"
    using slots_okD(5) [OF g s] len(1) db by (intro window_overlay_other) auto
  also have "\<dots> = pkt" using slots_okD(4) [OF g s] pkt by (intro window_overlay_same) simp_all
  finally have w2: "window ?d2 (B s) (length pkt) = pkt" .
  have "window (commit_mem d off (B s) pkt s db fld x) (B s) bsz = window ?d2 (B s) bsz"
    using same by (simp add: slot_same_def)
  from arg_cong [OF this, of "\<lambda>w. take (length pkt) w"] w2 pkt
  show "window (commit_mem d off (B s) pkt s db fld x) (B s) (length pkt) = pkt"
    by (simp add: min_absorb1)
qed

lemma commit_mem_header:
  assumes g: "slots_ok k off B bsz (length d)" and s: "s < 2 ^ k" and pkt: "length pkt \<le> bsz"
    and db: "length db = 16"
  shows "head_of (commit_mem d off (B s) pkt s db ringHeadOffset x) off = x"
    "tail_of (commit_mem d off (B s) pkt s db ringHeadOffset x) off = tail_of d off"
    "head_of (commit_mem d off (B s) pkt s db ringTailOffset x) off = head_of d off"
    "tail_of (commit_mem d off (B s) pkt s db ringTailOffset x) off = x"
proof -
  note len = commit_mem_length [OF g s pkt db, of 0]
  have apart: "B s + length pkt \<le> off \<or> off + 128 \<le> B s"
    using slots_okD(6) [OF g s] pkt by (auto simp: ring_span_def)
  have base: "off + 128 \<le> desc_base off s" by (simp add: desc_base_def)
  note bounds = slots_okD(3) [OF g] slots_okD(4) [OF g s] slots_okD(5) [OF g s]
  have h: "head_of (overlay (overlay d (B s) pkt) (desc_base off s) db) off = head_of d off"
    using len bounds apart base db pkt by (simp add: head_of_other) (auto simp: head_of_other)
  have t: "tail_of (overlay (overlay d (B s) pkt) (desc_base off s) db) off = tail_of d off"
    using len bounds apart base db pkt by (simp add: tail_of_other) (auto simp: tail_of_other)
  show "head_of (commit_mem d off (B s) pkt s db ringHeadOffset x) off = x"
    unfolding commit_mem_def using len bounds by (intro head_of_writeHead) simp
  show "tail_of (commit_mem d off (B s) pkt s db ringTailOffset x) off = x"
    unfolding commit_mem_def using len bounds by (intro tail_of_writeTail) simp
  show "tail_of (commit_mem d off (B s) pkt s db ringHeadOffset x) off = tail_of d off"
    using len bounds t by (simp add: commit_mem_def tail_of_other)
  show "head_of (commit_mem d off (B s) pkt s db ringTailOffset x) off = head_of d off"
    using len bounds h by (simp add: commit_mem_def head_of_other)
qed

lemma commit_mem_point:
  assumes g: "slots_ok k off B bsz (length d)" and s: "s < 2 ^ k" and pkt: "length pkt \<le> bsz"
    and db: "desc_is db 0 0 (int (length pkt)) (int (B s))" and fld: "fld + 2 \<le> 128"
    and pt: "slots_point k off B d"
  shows "slots_point k off B (commit_mem d off (B s) pkt s db fld x)"
  unfolding slots_point_def
proof (intro allI impI)
  fix s' :: nat
  assume s': "s' < 2 ^ k"
  have db16: "length db = 16" using desc_isD(1) [OF db] by simp
  show "slot_points (commit_mem d off (B s) pkt s db fld x) off s' 0 (B s')"
  proof (cases "s' = s")
    case True
    then show ?thesis using commit_mem_slot(1) [OF g s pkt db16 fld] db
      by (auto simp: slot_points_def)
  next
    case False
    with commit_mem_others [OF g s pkt db16 fld s' False] pt s' show ?thesis
      by (simp add: slot_points_def slot_same_def slots_point_def)
  qed
qed

text \<open>A commit to the slot after the last pending one appends the packet.\<close>

lemma commit_mem_pend:
  fixes x :: u16
  assumes g: "slots_ok k off B bsz (length d)" and n: "n < 2 ^ k" and pkt: "0 < length pkt" "length pkt \<le> bsz"
    and s: "s = slot_idx k lo n" and db: "desc_is db 0 0 (int (length pkt)) (int (B s))"
    and fld: "fld + 2 \<le> 128" and ok: "pend_ok k off B bsz d lo n"
  defines "d' \<equiv> commit_mem d off (B s) pkt s db fld x"
  shows "pend k off B d' lo (Suc n) = pend k off B d lo n @ [pkt]"
    "pend_ok k off B bsz d' lo (Suc n)"
proof -
  have s': "s < 2 ^ k" by (simp add: s)
  have db16: "length db = 16" using desc_isD(1) [OF db] by simp
  have "slot_same off B bsz d d' (slot_idx k lo i)" if "i < n" for i
  proof -
    have "slot_idx k lo i \<noteq> s" using slot_idx_inj [of i k n lo] that n s by auto
    then show ?thesis unfolding d'_def
      by (intro commit_mem_others [OF g s' pkt(2) db16 fld]) simp_all
  qed
  note same = pend_same [OF ok this]
  have desc: "desc_of d' off s = db" and buf: "window d' (B s) (length pkt) = pkt"
    unfolding d'_def by (rule commit_mem_slot [OF g s' pkt(2) db16 fld])+
  have "slot_payload off B d' s = pkt"
    using desc buf desc_isD(4) [OF db] by (simp add: slot_payload_def)
  then show "pend k off B d' lo (Suc n) = pend k off B d lo n @ [pkt]"
    using same(1) s by (simp add: pend_def)
  show "pend_ok k off B bsz d' lo (Suc n)"
    unfolding pend_ok_def
  proof (intro allI impI)
    fix i assume "i < Suc n"
    then consider "i < n" | "i = n" by linarith
    then show "\<exists>l>0. l \<le> bsz \<and>
        desc_is (desc_of d' off (slot_idx k lo i)) 0 0 (int l) (int (B (slot_idx k lo i)))"
      using same(2) desc db pkt s unfolding pend_ok_def by cases auto
  qed
qed

text \<open>\<open>outside\<close>: nothing has changed outside the ring at \<open>off\<close> and the \<open>n\<close> bytes from \<open>b\<close> on.\<close>

definition outside :: "nat \<Rightarrow> nat \<Rightarrow> nat \<Rightarrow> nat \<Rightarrow> byte list \<Rightarrow> byte list \<Rightarrow> bool" where
  "outside k off b n d d' \<longleftrightarrow> length d' = length d \<and>
     (\<forall>i m. (i + m \<le> off \<or> off + ring_span k \<le> i) \<and> (i + m \<le> b \<or> b + n \<le> i) \<longrightarrow> window d' i m = window d i m)"

lemma outside_refl [simp]: "outside k off b n d d"
  by (simp add: outside_def)

lemma outside_trans: "outside k off b n d d1 \<Longrightarrow> outside k off b n d1 d2 \<Longrightarrow> outside k off b n d d2"
  by (simp add: outside_def)

lemma outside_overlay:
  "off \<le> i \<Longrightarrow> i + length ys \<le> off + ring_span k \<Longrightarrow> off + ring_span k \<le> length d \<Longrightarrow> outside k off b n d (overlay d i ys)"
  "length ys \<le> n \<Longrightarrow> b + length ys \<le> length d \<Longrightarrow> outside k off b n d (overlay d b ys)"
  unfolding outside_def by (auto intro!: window_overlay_other)

lemma outside_desc:
  assumes "s < 2 ^ k" and "off + ring_span k \<le> length d" and "m + length ys \<le> 16"
  shows "outside k off b n d (overlay d (desc_base off s + m) ys)"
  using slot_bound [OF assms(1), of off] assms(2,3) by (intro outside_overlay(1)) (simp_all add: desc_base_def)

lemma outside_header:
  fixes x :: u16
  assumes "off + ring_span k \<le> length d" and "fld + 2 \<le> 128"
  shows "outside k off b n d (overlay d (off + fld) (put_le 2 x))"
  using assms by (intro outside_overlay(1)) (simp_all add: ring_span_def)

lemma commit_mem_outside:
  assumes "slots_ok k off B bsz (length d)" and "s < 2 ^ k" and "length pkt \<le> bsz"
    and "length db = 16" and "fld + 2 \<le> 128"
  shows "outside k off (B s) (length pkt) d (commit_mem d off (B s) pkt s db fld x)"
proof -
  note len = commit_mem_length(1,2) [OF assms] and g = slots_okD(2,4) [OF assms(1)]
  have "outside k off (B s) (length pkt) d (overlay d (B s) pkt)"
    using g(2) [OF assms(2)] assms(3) by (intro outside_overlay(2)) simp_all
  moreover have "outside k off (B s) (length pkt) (overlay d (B s) pkt) (overlay (overlay d (B s) pkt) (desc_base off s + 0) db)"
    using g(1) len assms(4) by (intro outside_desc [OF assms(2)]) simp_all
  moreover have "outside k off (B s) (length pkt) (overlay (overlay d (B s) pkt) (desc_base off s) db) (commit_mem d off (B s) pkt s db fld x)"
    unfolding commit_mem_def using g(1) len by (intro outside_header [OF _ assms(5)]) simp
  ultimately show ?thesis using outside_trans by (metis add_0_right)
qed

lemma refill_mem_outside:
  fixes w :: u16
  assumes "off + ring_span k \<le> length d"
  shows "outside k off b n d (refill_mem m d off k h w)"
  using assms
proof (induction m arbitrary: d h)
  case (Suc m)
  have "outside k off b n d (overlay d (desc_base off (h mod 2 ^ k) + descLengthOffset) (put_le 2 w))"
    using Suc.prems by (intro outside_desc) simp_all
  then show ?case using Suc by (auto simp: outside_def)
qed simp

lemma refilled_outside:
  assumes "off + ring_span k \<le> length d"
  shows "outside k off b n d (refilled d off k y pbs)"
proof -
  note r = refill_mem_outside [OF assms]
  show ?thesis
    unfolding refilled_def using assms r by (intro outside_trans [OF r outside_header]) (auto simp: outside_def)
qed

text \<open>Consuming the first pending slot.\<close>

lemma pend_Suc:
  assumes "k \<le> 15"
  shows "pend k off B d lo (Suc n) = slot_payload off B d (slot_idx k lo 0) # pend k off B d (lo + 1) n"
  unfolding pend_def
  by (simp add: upt_conv_Cons map_Suc_upt [symmetric] slot_idx_Suc [OF assms] comp_def del: upt_Suc)

lemma pend_ok_Suc:
  assumes "k \<le> 15" and "pend_ok k off B bsz d lo (Suc n)"
  shows "pend_ok k off B bsz d (lo + 1) n"
  using assms(2) by (auto simp: pend_ok_def slot_idx_Suc [OF assms(1)])

lemma unat_diff_Suc:
  fixes hi lo :: u16
  assumes "hi \<noteq> lo"
  shows "unat (hi - lo) = Suc (unat (hi - (lo + 1)))"
proof -
  have nz: "hi - lo \<noteq> 0" using assms by simp
  have eq: "hi - (lo + 1) = hi - lo - 1" by simp
  show ?thesis unfolding eq using unat_minus_one [OF nz] unat_gt_0 [of "hi - lo"] nz by simp
qed

lemma unat_Suc_diff:
  fixes hi lo :: u16
  assumes "unat (hi - lo) < 2 ^ k" and "k \<le> 15"
  shows "unat (hi + 1 - lo) = Suc (unat (hi - lo))"
proof -
  have "(2::nat) ^ k \<le> 2 ^ 15" using assms(2) by (rule power_increasing) simp
  then have "unat (hi - lo) + unat (1 :: u16) < 2 ^ LENGTH(16)" using assms(1) by simp
  then have "unat ((hi - lo) + 1) = unat (hi - lo) + 1" using unat_add_lem [of "hi - lo" 1] by simp
  then show ?thesis by (simp add: algebra_simps)
qed

section \<open>The two peers over one region\<close>

text \<open>
  \<open>channel\<close>: a client port and a server port with one queue each, and the bytes of the region
  both have mapped. \<open>with_mem\<close> is a port that sees the current bytes. An operation of a peer runs
  the code on its port and publishes the bytes it leaves.
\<close>

record channel =
  ch_mem :: "byte list"
  ch_client :: port
  ch_cq :: queue
  ch_server :: port
  ch_sq :: queue
  ch_trace :: trace

definition with_mem :: "port \<Rightarrow> byte list \<Rightarrow> port" where
  "with_mem p m = put_region_data p 0 m"

definition client_write :: "env \<Rightarrow> byte list \<Rightarrow> channel \<Rightarrow> (channel \<times> int) option" where
  "client_write env pkt c = do {
     (n, p, tr) \<leftarrow> WritePacket env (with_mem (ch_client c) (ch_mem c)) (ch_cq c) pkt (ch_trace c);
     m \<leftarrow> region_data p 0;
     Some (c\<lparr>ch_mem := m, ch_client := p, ch_trace := tr\<rparr>, n) }"

definition server_write :: "env \<Rightarrow> byte list \<Rightarrow> channel \<Rightarrow> (channel \<times> int) option" where
  "server_write env pkt c = do {
     (n, p, tr) \<leftarrow> WritePacket env (with_mem (ch_server c) (ch_mem c)) (ch_sq c) pkt (ch_trace c);
     m \<leftarrow> region_data p 0;
     Some (c\<lparr>ch_mem := m, ch_server := p, ch_trace := tr\<rparr>, n) }"

definition server_read :: "byte list \<Rightarrow> channel \<Rightarrow> (channel \<times> int \<times> error option \<times> byte list) option" where
  "server_read buf c = do {
     (n, err, pkt, q, p) \<leftarrow> ReadPacket (with_mem (ch_server c) (ch_mem c)) (ch_sq c) buf;
     m \<leftarrow> region_data p 0;
     Some (c\<lparr>ch_mem := m, ch_server := p, ch_sq := q\<rparr>, n, err, pkt) }"

definition client_read :: "byte list \<Rightarrow> channel \<Rightarrow> (channel \<times> int \<times> error option \<times> byte list) option" where
  "client_read buf c = do {
     (n, err, pkt, q, p) \<leftarrow> ReadPacket (with_mem (ch_client c) (ch_mem c)) (ch_cq c) buf;
     m \<leftarrow> region_data p 0;
     Some (c\<lparr>ch_mem := m, ch_client := p, ch_cq := q\<rparr>, n, err, pkt) }"

text \<open>The channel operations as a user of the library sees them: a send is accepted when the
  returned count is not 0; a receive into \<open>buf\<close> delivers \<open>buf[:n]\<close> when \<open>n > 0\<close> and no error
  is returned.\<close>

definition accepted :: "(channel \<times> int) option \<Rightarrow> (channel \<times> bool) option" where
  "accepted r = map_option (\<lambda>(c, n). (c, n \<noteq> 0)) r"

definition delivered :: "(channel \<times> int \<times> error option \<times> byte list) option \<Rightarrow>
    (channel \<times> byte list option) option" where
  "delivered r = map_option (\<lambda>(c, n, err, pkt).
     (c, if err = None \<and> 0 < n then Some (take (nat n) pkt) else None)) r"

definition q_at :: "queue \<Rightarrow> nat \<Rightarrow> nat \<Rightarrow> bool" where
  "q_at q k off \<longleftrightarrow> ring_region (q_ring q) = 0 \<and> ring_size (q_ring q) = 2 ^ k \<and>
     ring_offset (q_ring q) = int off"

definition maps_region :: "port \<Rightarrow> nat \<Rightarrow> bool" where
  "maps_region p N \<longleftrightarrow> (case region_data p 0 of None \<Rightarrow> False | Some d \<Rightarrow> length d = N)"

text \<open>What does not change while packets flow: the roles, the placement of the ring, the buffers
  and the size of the region. \<open>bsz\<close> is the client's packet buffer size.\<close>

definition wired :: "nat \<Rightarrow> nat \<Rightarrow> (nat \<Rightarrow> nat) \<Rightarrow> nat \<Rightarrow> channel \<Rightarrow> bool" where
  "wired k off B bsz c \<longleftrightarrow>
     \<not> cfg_IsServer (p_cfg (ch_client c)) \<and> cfg_IsServer (p_cfg (ch_server c)) \<and>
     q_at (ch_cq c) k off \<and> q_at (ch_sq c) k off \<and>
     maps_region (ch_client c) (length (ch_mem c)) \<and> maps_region (ch_server c) (length (ch_mem c)) \<and>
     unat (PacketBufferSize (p_run (ch_client c))) = bsz \<and>
     slots_ok k off B bsz (length (ch_mem c)) \<and> slots_point k off B (ch_mem c)"

lemma region_data_with_mem: "maps_region p (length m) \<Longrightarrow> region_data (with_mem p m) 0 = Some m"
  by (auto simp: maps_region_def with_mem_def region_data_put split: option.splits)

lemma with_mem_simps [simp]: "p_cfg (with_mem p m) = p_cfg p" "p_run (with_mem p m) = p_run p"
  "p_QuitChan (with_mem p m) = p_QuitChan p"
  by (simp_all add: with_mem_def)

lemma ring_at_with_mem:
  "maps_region p (length m) \<Longrightarrow> q_at q k off \<Longrightarrow> slots_ok k off B bsz (length m) \<Longrightarrow>
     ring_at (with_mem p m) q k off m"
  by (auto simp: ring_at_def q_at_def region_data_with_mem slots_ok_def)

lemma put_with_mem:
  assumes "maps_region p (length m)" and "length m' = length m"
  shows "region_data (put_region_data (with_mem p m) 0 m') 0 = Some m'"
    "maps_region (put_region_data (with_mem p m) 0 m') (length m)"
  using assms region_data_with_mem [OF assms(1)]
  by (simp_all add: region_data_put maps_region_def)

lemma wired_step:
  assumes "wired k off B bsz c" and "length m = length (ch_mem c)" and "slots_point k off B m"
  shows "wired k off B bsz (c\<lparr>ch_mem := m, ch_client := put_region_data (with_mem (ch_client c) (ch_mem c)) 0 m\<rparr>)"
    "wired k off B bsz (c\<lparr>ch_mem := m, ch_server := put_region_data (with_mem (ch_server c) (ch_mem c)) 0 m\<rparr>)"
  using assms by (auto simp: wired_def put_with_mem)

lemma wired_frame [simp]:
  "wired k off B bsz (c\<lparr>ch_trace := tr\<rparr>) = wired k off B bsz c"
  "wired k off B bsz (c\<lparr>ch_sq := (ch_sq c)\<lparr>q_lastHead := x\<rparr>\<rparr>) = wired k off B bsz c"
  "wired k off B bsz (c\<lparr>ch_cq := (ch_cq c)\<lparr>q_lastTail := x\<rparr>\<rparr>) = wired k off B bsz c"
  by (simp_all add: wired_def q_at_def)

text \<open>The effects of the operations on the rest of the region: a write stores the packet in one buffer,
  a read stores nothing outside its ring.\<close>

definition wrote :: "nat \<Rightarrow> nat \<Rightarrow> nat \<Rightarrow> byte list \<Rightarrow> channel \<Rightarrow> channel \<Rightarrow> bool" where
  "wrote k off b pkt c c' \<longleftrightarrow> outside k off b (length pkt) (ch_mem c) (ch_mem c') \<and>
     window (ch_mem c') b (length pkt) = pkt \<and> ch_cq c' = ch_cq c \<and> ch_sq c' = ch_sq c \<and>
     p_QuitChan (ch_client c') = p_QuitChan (ch_client c)"

definition kept :: "nat \<Rightarrow> nat \<Rightarrow> channel \<Rightarrow> channel \<Rightarrow> bool" where
  "kept k off c c' \<longleftrightarrow> outside k off off 0 (ch_mem c) (ch_mem c') \<and> p_QuitChan (ch_client c') = p_QuitChan (ch_client c)"

section \<open>Client to server\<close>

text \<open>The packets in flight are in the slots from the tail to the head, and the server's private
  \<open>lastHead\<close> is the tail.\<close>

definition s2m_inv :: "nat \<Rightarrow> nat \<Rightarrow> (nat \<Rightarrow> nat) \<Rightarrow> nat \<Rightarrow> channel \<Rightarrow> bool" where
  "s2m_inv k off B bsz c \<longleftrightarrow>
     wired k off B bsz c \<and> q_lastHead (ch_sq c) = tail_of (ch_mem c) off \<and>
     unat (head_of (ch_mem c) off - tail_of (ch_mem c) off) \<le> 2 ^ k \<and>
     pend_ok k off B bsz (ch_mem c) (tail_of (ch_mem c) off)
       (unat (head_of (ch_mem c) off - tail_of (ch_mem c) off))"

definition s2m_contents :: "nat \<Rightarrow> nat \<Rightarrow> (nat \<Rightarrow> nat) \<Rightarrow> channel \<Rightarrow> byte list list" where
  "s2m_contents k off B c =
     pend k off B (ch_mem c) (tail_of (ch_mem c) off)
       (unat (head_of (ch_mem c) off - tail_of (ch_mem c) off))"

definition packet_ok :: "nat \<Rightarrow> byte list \<Rightarrow> bool" where
  "packet_ok bsz pkt \<longleftrightarrow> 0 < length pkt \<and> length pkt \<le> bsz"

lemma client_free_zero_iff:
  assumes "k \<le> 15" and "unat (head_of d off - tail_of d off) \<le> 2 ^ k"
  shows "client_free d off k = 0 \<longleftrightarrow> unat (head_of d off - tail_of d off) = 2 ^ k"
proof -
  have "(2::nat) ^ k \<le> 2 ^ 15" using assms(1) by (rule power_increasing) simp
  then have u: "unat ((2 ^ k) :: u16) = 2 ^ k"
    using unat_of_nat [where 'a = 16, of "2 ^ k"] by simp
  have "client_free d off k = 0 \<longleftrightarrow> (2 ^ k :: u16) = head_of d off - tail_of d off"
    by (simp add: client_free_def)
  also have "\<dots> \<longleftrightarrow> unat (head_of d off - tail_of d off) = 2 ^ k"
    unfolding word_unat_eq_iff u by auto
  finally show ?thesis .
qed

lemma wiredD:
  assumes "wired k off B bsz c"
  shows "\<not> cfg_IsServer (p_cfg (ch_client c))" "cfg_IsServer (p_cfg (ch_server c))"
    "ring_at (with_mem (ch_client c) (ch_mem c)) (ch_cq c) k off (ch_mem c)"
    "ring_at (with_mem (ch_server c) (ch_mem c)) (ch_sq c) k off (ch_mem c)"
    "ring_region (q_ring (ch_cq c)) = 0" "ring_region (q_ring (ch_sq c)) = 0"
    "unat (PacketBufferSize (p_run (ch_client c))) = bsz"
    "slots_ok k off B bsz (length (ch_mem c))" "slots_point k off B (ch_mem c)"
    "maps_region (ch_client c) (length (ch_mem c))" "maps_region (ch_server c) (length (ch_mem c))"
    "k \<le> 15"
  using assms by (auto simp: wired_def q_at_def slots_ok_def intro: ring_at_with_mem)

lemma slot_idx_hi:
  assumes "k \<le> 15"
  shows "slot_idx k lo (unat (hi - lo)) = unat hi mod 2 ^ k"
proof -
  have "unat (lo + of_nat (unat (hi - lo)) :: u16) mod 2 ^ k = (unat lo + unat (hi - lo)) mod 2 ^ k"
    using assms by (intro unat_add_mod) simp
  then show ?thesis by (simp add: slot_idx_def)
qed

lemma client_write_accept:
  assumes inv: "s2m_inv k off B bsz c" and pkt: "packet_ok bsz pkt" and sp: "length (s2m_contents k off B c) < 2 ^ k"
  shows "\<exists>c'. client_write env pkt c = Some (c', int (length pkt)) \<and> s2m_inv k off B bsz c' \<and>
    s2m_contents k off B c' = s2m_contents k off B c @ [pkt] \<and>
    wrote k off (B (unat (head_of (ch_mem c) off) mod 2 ^ k)) pkt c c' \<and> tail_of (ch_mem c') off = tail_of (ch_mem c) off"
proof -
  let ?d = "ch_mem c" and ?p = "with_mem (ch_client c) (ch_mem c)"
  let ?h = "head_of (ch_mem c) off" and ?t = "tail_of (ch_mem c) off"
  have w: "wired k off B bsz c" and lh: "q_lastHead (ch_sq c) = ?t"
    and ok: "pend_ok k off B bsz ?d ?t (unat (?h - ?t))" using inv by (auto simp: s2m_inv_def)
  note W = wiredD [OF w]
  have n: "unat (?h - ?t) < 2 ^ k" using sp by (simp add: s2m_contents_def pend_def)
  have len: "0 < length pkt" "length pkt \<le> bsz" using pkt by (auto simp: packet_ok_def)
  define s where "s = unat ?h mod 2 ^ k"
  have s: "s < 2 ^ k" "s = slot_idx k ?t (unat (?h - ?t))"
    using slot_idx_hi [OF W(12)] by (simp_all add: s_def)
  obtain f l where di: "desc_is (desc_of ?d off s) f (ring_region (q_ring (ch_cq c))) l (int (B s))"
    using W(9) s(1) by (auto simp: slots_point_def slot_points_def W(5))
  have "client_free ?d off k \<noteq> 0" using n client_free_zero_iff [OF W(12)] by simp
  from WritePacket_client_at [OF W(3) _ this s_def di, of pkt env "ch_trace c"]
  obtain db where db: "desc_is db 0 0 (int (length pkt)) (int (B s))"
    and wr: "WritePacket env ?p (ch_cq c) pkt (ch_trace c) = Some (int (length pkt),
       put_region_data ?p 0 (commit_mem ?d off (B s) pkt s db ringHeadOffset (?h + 1)),
       SysWrite (q_interruptFd (ch_cq c)) uvarint_one # ch_trace c)"
    using W(1,5) slots_okD(4) [OF W(8) s(1)] len(2) by (auto simp: W(7))
  define m where "m = commit_mem ?d off (B s) pkt s db ringHeadOffset (?h + 1)"
  have db16: "length db = 16" using desc_isD(1) [OF db] by simp
  have fld: "ringHeadOffset + 2 \<le> 128" by simp
  have lm: "length m = length ?d" unfolding m_def
    by (rule commit_mem_length(3) [OF W(8) s(1) len(2) db16 fld])
  let ?c = "c\<lparr>ch_mem := m, ch_client := put_region_data ?p 0 m,
       ch_trace := SysWrite (q_interruptFd (ch_cq c)) uvarint_one # ch_trace c\<rparr>"
  have step: "client_write env pkt c = Some (?c, int (length pkt))"
    using put_with_mem(1) [OF W(10) lm] by (simp add: client_write_def wr [folded m_def])
  have "slots_point k off B m" unfolding m_def
    by (rule commit_mem_point [OF W(8) s(1) len(2) db fld W(9)])
  from wired_step(1) [OF w lm this] have w': "wired k off B bsz ?c" by (simp only: wired_frame)
  note hdr = commit_mem_header(1,2) [OF W(8) s(1) len(2) db16, of "?h + 1", folded m_def]
  note cnt = unat_Suc_diff [OF n W(12)]
  note pend = commit_mem_pend [OF W(8) n len s(2) db fld ok, of "?h + 1", folded m_def]
  have "s2m_inv k off B bsz ?c" using w' lh n pend(2) by (simp add: s2m_inv_def hdr cnt)
  moreover have "s2m_contents k off B ?c = s2m_contents k off B c @ [pkt]"
    using pend(1) by (simp add: s2m_contents_def hdr cnt)
  moreover have "wrote k off (B (unat ?h mod 2 ^ k)) pkt c ?c"
    using commit_mem_outside [OF W(8) s(1) len(2) db16 fld] commit_mem_slot(2) [OF W(8) s(1) len(2) db16 fld]
    by (simp add: wrote_def m_def flip: s_def)
  moreover have "tail_of (ch_mem ?c) off = ?t" by (simp add: hdr)
  ultimately show ?thesis using step by blast
qed

lemma client_write_reject:
  assumes inv: "s2m_inv k off B bsz c" and full: "\<not> length (s2m_contents k off B c) < 2 ^ k"
  shows "\<exists>c'. client_write env pkt c = Some (c', 0) \<and> s2m_inv k off B bsz c' \<and>
    s2m_contents k off B c' = s2m_contents k off B c \<and> kept k off c c'"
proof -
  let ?d = "ch_mem c" and ?p = "with_mem (ch_client c) (ch_mem c)"
  have w: "wired k off B bsz c" using inv by (auto simp: s2m_inv_def)
  note W = wiredD [OF w]
  have "client_free ?d off k = 0"
    using full inv client_free_zero_iff [OF W(12), of ?d off] by (auto simp: s2m_contents_def pend_def s2m_inv_def)
  then have wr: "WritePacket env ?p (ch_cq c) pkt (ch_trace c) =
      Some (0, ?p, SysWrite (q_interruptFd (ch_cq c)) uvarint_one # ch_trace c)"
    using W(1) by (intro WritePacket_full_at [OF W(3)]) simp
  let ?c = "c\<lparr>ch_mem := ?d, ch_client := ?p,
      ch_trace := SysWrite (q_interruptFd (ch_cq c)) uvarint_one # ch_trace c\<rparr>"
  have step: "client_write env pkt c = Some (?c, 0)"
    using region_data_with_mem [OF W(10)] by (simp add: client_write_def wr)
  have "put_region_data ?p 0 ?d = ?p" by (rule put_region_data_same [OF region_data_with_mem [OF W(10)]])
  with wired_step(1) [OF w refl W(9)] have "wired k off B bsz ?c" by (simp only: wired_frame)
  then have "s2m_inv k off B bsz ?c" using inv by (simp add: s2m_inv_def)
  with step show ?thesis by (auto simp: s2m_contents_def kept_def)
qed

text \<open>Moving the tail of the S2M ring over the first pending packet.\<close>

lemma overlay_tail_facts:
  fixes x :: u16
  assumes g: "slots_ok k off B bsz (length d)" and pt: "slots_point k off B d"
  defines "d' \<equiv> overlay d (off + ringTailOffset) (put_le 2 x)"
  shows "length d' = length d" "head_of d' off = head_of d off" "tail_of d' off = x"
    "slots_point k off B d'" "s < 2 ^ k \<Longrightarrow> slot_same off B bsz d d' s"
proof -
  have same: "slot_same off B bsz d d' s" if "s < 2 ^ k" for s
    unfolding d'_def by (rule slot_same_header [OF g that]) simp
  show "length d' = length d" "head_of d' off = head_of d off"
    using slots_okD(3) [OF g] by (simp_all add: d'_def head_of_other)
  show "tail_of d' off = x" unfolding d'_def by (rule tail_of_writeTail [OF slots_okD(3) [OF g]])
  show "slots_point k off B d'"
    using pt same by (simp add: slots_point_def slot_points_def slot_same_def)
  show "s < 2 ^ k \<Longrightarrow> slot_same off B bsz d d' s" by (rule same)
qed

lemma server_read_packet:
  assumes inv: "s2m_inv k off B bsz c" and cont: "s2m_contents k off B c = pkt # rest"
    and buf: "bsz \<le> length buf"
  shows "\<exists>c' pkt'. server_read buf c = Some (c', int (length pkt), None, pkt') \<and>
    take (length pkt) pkt' = pkt \<and> length pkt' = length buf \<and> 0 < length pkt \<and>
    s2m_inv k off B bsz c' \<and> s2m_contents k off B c' = rest \<and>
    kept k off c c' \<and> tail_of (ch_mem c') off = tail_of (ch_mem c) off + 1"
proof -
  let ?d = "ch_mem c" and ?p = "with_mem (ch_server c) (ch_mem c)"
  let ?h = "head_of (ch_mem c) off" and ?t = "tail_of (ch_mem c) off"
  have w: "wired k off B bsz c" and lh: "q_lastHead (ch_sq c) = ?t"
    and bound: "unat (?h - ?t) \<le> 2 ^ k"
    and ok: "pend_ok k off B bsz ?d ?t (unat (?h - ?t))" using inv by (auto simp: s2m_inv_def)
  note W = wiredD [OF w]
  have ne: "?h \<noteq> ?t" using cont by (auto simp: s2m_contents_def pend_def)
  note cnt = unat_diff_Suc [OF ne]
  define s where "s = unat ?t mod 2 ^ k"
  have s: "s < 2 ^ k" "s = slot_idx k ?t 0" by (simp_all add: s_def slot_idx_def)
  have "0 < unat (?h - ?t)" using cnt by simp
  with ok obtain l where l: "0 < l" "l \<le> bsz" "desc_is (desc_of ?d off s) 0 0 (int l) (int (B s))"
    unfolding pend_ok_def s(2) by blast
  have "slot_payload off B ?d s = window ?d (B s) l"
    using desc_isD(4) [OF l(3)] by (simp add: slot_payload_def)
  then have pkt: "pkt = window ?d (B s) l"
    and rest: "rest = pend k off B ?d (?t + 1) (unat (?h - (?t + 1)))"
    using cont unfolding s2m_contents_def cnt pend_Suc [OF W(12)] s(2) [symmetric] by simp_all
  have fits: "B s + l \<le> length ?d" using slots_okD(4) [OF W(8) s(1)] l(2) by linarith
  then have lp: "length pkt = l" by (simp add: pkt)
  define m where "m = overlay ?d (off + ringTailOffset) (put_le 2 (?t + 1))"
  let ?q = "(ch_sq c)\<lparr>q_lastHead := ?t + 1\<rparr>"
  have rd: "ReadPacket ?p (ch_sq c) buf =
      Some (int l, None, overlay buf 0 pkt, ?q, put_region_data ?p 0 m)"
    using ReadPacket_server_at [OF W(4), of s l "B s" buf] W(2,6) ne l buf fits
    by (simp add: lh s_def pkt m_def)
  note M = overlay_tail_facts [OF W(8,9), where x = "?t + 1", folded m_def]
  let ?c = "c\<lparr>ch_mem := m, ch_server := put_region_data ?p 0 m, ch_sq := ?q\<rparr>"
  have step: "server_read buf c = Some (?c, int (length pkt), None, overlay buf 0 pkt)"
    using put_with_mem(1) [OF W(11) M(1)] lp by (simp add: server_read_def rd)
  have w': "wired k off B bsz ?c"
    using wired_step(2) [OF w M(1) M(4)] by (simp add: wired_def q_at_def)
  note pend = pend_same [OF pend_ok_Suc [OF W(12) ok [unfolded cnt]], of m]
  have same: "slot_same off B bsz ?d m (slot_idx k (?t + 1) i)" for i by (rule M(5)) simp
  have "s2m_inv k off B bsz ?c"
    using w' bound pend(2) same by (simp add: s2m_inv_def M(2,3) cnt)
  moreover have "s2m_contents k off B ?c = rest"
    using pend(1) same rest by (simp add: s2m_contents_def M(2,3))
  moreover have "kept k off c ?c" "tail_of (ch_mem ?c) off = ?t + 1"
    using outside_header [OF slots_okD(2) [OF W(8)]] M(3) by (simp_all add: kept_def m_def)
  moreover have "take (length pkt) (overlay buf 0 pkt) = pkt" "length (overlay buf 0 pkt) = length buf"
    using lp l(2) buf by (simp_all add: overlay_def)
  ultimately show ?thesis using step l(1) lp by auto
qed

lemma server_read_none:
  assumes inv: "s2m_inv k off B bsz c" and cont: "s2m_contents k off B c = []"
  shows "\<exists>c'. server_read buf c = Some (c', 0, None, buf) \<and> s2m_inv k off B bsz c' \<and>
    s2m_contents k off B c' = [] \<and> kept k off c c' \<and> tail_of (ch_mem c') off = tail_of (ch_mem c) off"
proof -
  let ?d = "ch_mem c" and ?p = "with_mem (ch_server c) (ch_mem c)"
  let ?h = "head_of (ch_mem c) off" and ?t = "tail_of (ch_mem c) off"
  have w: "wired k off B bsz c" and lh: "q_lastHead (ch_sq c) = ?t" using inv by (auto simp: s2m_inv_def)
  note W = wiredD [OF w]
  have "unat (?h - ?t) = 0" using cont by (simp add: s2m_contents_def pend_def)
  then have e: "?h = ?t" by (simp add: unat_eq_0)
  define m where "m = overlay ?d (off + ringTailOffset) (put_le 2 ?t)"
  have rd: "ReadPacket ?p (ch_sq c) buf = Some (0, None, buf, ch_sq c, put_region_data ?p 0 m)"
    using ReadPacket_server_empty_at [OF W(4), of buf] W(2,6) e by (simp add: lh m_def)
  note M = overlay_tail_facts [OF W(8,9), where x = ?t, folded m_def]
  let ?c = "c\<lparr>ch_mem := m, ch_server := put_region_data ?p 0 m, ch_sq := ch_sq c\<rparr>"
  have "server_read buf c = Some (?c, 0, None, buf)"
    using put_with_mem(1) [OF W(11) M(1)] by (simp add: server_read_def rd)
  moreover have "wired k off B bsz ?c" using wired_step(2) [OF w M(1) M(4)] by (simp add: wired_def)
  moreover have "kept k off c ?c"
    using outside_header [OF slots_okD(2) [OF W(8)]] by (simp add: kept_def m_def)
  ultimately show ?thesis using lh
    by (simp add: s2m_inv_def s2m_contents_def M(2,3) e pend_def pend_ok_def)
qed

text \<open>The client-to-server direction is a bounded first-in first-out channel of \<open>2 ^ k\<close> packets.\<close>

interpretation s2m: fifo_channel "s2m_inv k off B bsz" "s2m_contents k off B" "\<lambda>_. 2 ^ k"
  "2 ^ k" "packet_ok bsz" "\<lambda>pkt c. accepted (client_write env pkt c)"
  "\<lambda>c. delivered (server_read (replicate bsz 0) c)"
  for k off B bsz env
proof
  fix c pkt
  assume "s2m_inv k off B bsz c" "packet_ok bsz pkt" "length (s2m_contents k off B c) < 2 ^ k"
  from client_write_accept [OF this, of env] this(2)
  show "\<exists>c'. accepted (client_write env pkt c) = Some (c', True) \<and> s2m_inv k off B bsz c' \<and>
      s2m_contents k off B c' = s2m_contents k off B c @ [pkt] \<and> (2::nat) ^ k = 2 ^ k"
    by (auto simp: accepted_def packet_ok_def)
next
  fix c pkt
  assume "s2m_inv k off B bsz c" "\<not> length (s2m_contents k off B c) < 2 ^ k"
  from client_write_reject [OF this, of env pkt]
  show "\<exists>c'. accepted (client_write env pkt c) = Some (c', False) \<and> s2m_inv k off B bsz c' \<and>
      s2m_contents k off B c' = s2m_contents k off B c \<and> (2::nat) ^ k = 2 ^ k"
    by (auto simp: accepted_def)
next
  fix c pkt rest
  assume "s2m_inv k off B bsz c" "s2m_contents k off B c = pkt # rest"
  then obtain c' pkt' where "server_read (replicate bsz 0) c = Some (c', int (length pkt), None, pkt')"
    "take (length pkt) pkt' = pkt" "0 < length pkt" "s2m_inv k off B bsz c'" "s2m_contents k off B c' = rest"
    using server_read_packet [of k off B bsz c pkt rest "replicate bsz 0"] by auto
  then show "\<exists>c'. delivered (server_read (replicate bsz 0) c) = Some (c', Some pkt) \<and>
      s2m_inv k off B bsz c' \<and> s2m_contents k off B c' = rest \<and> (2::nat) ^ k = 2 ^ k"
    by (auto simp: delivered_def)
next
  fix c
  assume "s2m_inv k off B bsz c" "s2m_contents k off B c = []"
  from server_read_none [OF this, of "replicate bsz 0"]
  show "\<exists>c'. delivered (server_read (replicate bsz 0) c) = Some (c', None) \<and>
      s2m_inv k off B bsz c' \<and> s2m_contents k off B c' = [] \<and> (2::nat) ^ k = 2 ^ k"
    by (auto simp: delivered_def)
qed

section \<open>Server to client\<close>

text \<open>The effect of a refill on the descriptors, slot by slot.\<close>

definition short_descs :: "nat \<Rightarrow> nat \<Rightarrow> (nat \<Rightarrow> nat) \<Rightarrow> byte list \<Rightarrow> bool" where
  "short_descs k off B d \<longleftrightarrow>
     (\<forall>s<2 ^ k. \<exists>f l. desc_is (desc_of d off s) f 0 l (int (B s)) \<and> l < 65536)"

definition free_desc :: "nat \<Rightarrow> (nat \<Rightarrow> nat) \<Rightarrow> nat \<Rightarrow> byte list \<Rightarrow> nat \<Rightarrow> bool" where
  "free_desc off B bsz d s \<longleftrightarrow> (\<exists>f. desc_is (desc_of d off s) f 0 (int bsz) (int (B s)))"

lemma refill_step:
  assumes g: "slots_ok k off B bsz (length d)" and sd: "short_descs k off B d" and s: "s < 2 ^ k"
    and w: "uint (w :: u16) = int bsz"
  defines "d' \<equiv> overlay d (desc_base off s + descLengthOffset) (put_le 2 w)"
  shows "length d' = length d" "head_of d' off = head_of d off" "tail_of d' off = tail_of d off"
    "short_descs k off B d'" "free_desc off B bsz d' s"
    "s' < 2 ^ k \<Longrightarrow> s' \<noteq> s \<Longrightarrow> slot_same off B bsz d d' s'"
proof -
  note b = slots_okD(5) [OF g s]
  have base: "off + 128 \<le> desc_base off s" by (simp add: desc_base_def)
  show "length d' = length d" "head_of d' off = head_of d off" "tail_of d' off = tail_of d off"
    using b base by (simp_all add: d'_def head_of_other tail_of_other)
  have same: "slot_same off B bsz d d' s'" if "s' < 2 ^ k" "s' \<noteq> s" for s'
    unfolding d'_def by (rule slot_same_desc [OF g that(1) s that(2)]) simp_all
  obtain f l where "desc_is (desc_of d off s) f 0 l (int (B s))" "l < 65536"
    using sd s by (auto simp: short_descs_def)
  from desc_is_low_length [OF this, of w]
  have s_desc: "desc_is (desc_of d' off s) f 0 (int bsz) (int (B s))"
    unfolding d'_def desc_of_setLength [OF b] w by simp
  then show "free_desc off B bsz d' s" by (auto simp: free_desc_def)
  show "short_descs k off B d'"
    unfolding short_descs_def
  proof (intro allI impI)
    fix s' :: nat assume s': "s' < 2 ^ k"
    show "\<exists>f l. desc_is (desc_of d' off s') f 0 l (int (B s')) \<and> l < 65536"
    proof (cases "s' = s")
      case True
      moreover have "int bsz < 65536" using w uint_u16_less [of w] by simp
      ultimately show ?thesis using s_desc by blast
    next
      case False
      with same [OF s'] sd s' show ?thesis by (simp add: slot_same_def short_descs_def)
    qed
  qed
  show "s' < 2 ^ k \<Longrightarrow> s' \<noteq> s \<Longrightarrow> slot_same off B bsz d d' s'" by (rule same)
qed

lemma refill_mem_facts:
  fixes n h :: nat
  assumes "slots_ok k off B bsz (length d)" and "short_descs k off B d" and "uint (w :: u16) = int bsz"
  shows "length (refill_mem n d off k h w) = length d \<and>
    head_of (refill_mem n d off k h w) off = head_of d off \<and>
    tail_of (refill_mem n d off k h w) off = tail_of d off \<and>
    short_descs k off B (refill_mem n d off k h w) \<and>
    (\<forall>s<2 ^ k. (\<exists>i<n. s = (h + i) mod 2 ^ k) \<longrightarrow> free_desc off B bsz (refill_mem n d off k h w) s) \<and>
    (\<forall>s<2 ^ k. (\<forall>i<n. s \<noteq> (h + i) mod 2 ^ k) \<longrightarrow> slot_same off B bsz d (refill_mem n d off k h w) s)"
  using assms
proof (induction n arbitrary: d h)
  case 0
  then show ?case by (simp add: slot_same_def)
next
  case (Suc n)
  let ?s = "h mod 2 ^ k"
  let ?d1 = "overlay d (desc_base off ?s + descLengthOffset) (put_le 2 w)"
  let ?d2 = "refill_mem n ?d1 off k (Suc h) w"
  have s: "?s < 2 ^ k" by simp
  note st = refill_step [OF Suc.prems(1,2) s Suc.prems(3)]
  have "slots_ok k off B bsz (length ?d1)" using Suc.prems(1) st(1) by simp
  note IH = Suc.IH [OF this st(4) Suc.prems(3), of "Suc h"]
  have "free_desc off B bsz ?d2 s'" if s': "s' < 2 ^ k" "i < Suc n" "s' = (h + i) mod 2 ^ k" for s' i
  proof (cases "\<exists>j<n. s' = (Suc h + j) mod 2 ^ k")
    case True
    then show ?thesis using IH s'(1) by blast
  next
    case False
    then have "slot_same off B bsz ?d1 ?d2 s'" using IH s'(1) by blast
    moreover have "s' = ?s" using False s' by (cases i) auto
    ultimately show ?thesis using st(5) by (simp add: slot_same_def free_desc_def)
  qed
  moreover have "slot_same off B bsz d ?d2 s'"
    if s': "s' < 2 ^ k" "\<forall>i<Suc n. s' \<noteq> (h + i) mod 2 ^ k" for s'
  proof -
    have "s' \<noteq> ?s" using s'(2) by force
    moreover have "\<forall>i<n. s' \<noteq> (Suc h + i) mod 2 ^ k" using s'(2) by auto
    ultimately show ?thesis using st(6) [of s'] IH s'(1) slot_same_trans by blast
  qed
  ultimately show ?case using IH st(1,2,3) by auto
qed

lemma unat_pow16: "k \<le> 15 \<Longrightarrow> unat ((2 ^ k) :: u16) = 2 ^ k"
proof -
  assume "k \<le> 15"
  then have "(2::nat) ^ k \<le> 2 ^ 15" by (rule power_increasing) simp
  then show ?thesis using unat_of_nat [where 'a = 16, of "2 ^ k"] by simp
qed

lemma refilled_facts:
  assumes g: "slots_ok k off B bsz (length d)" and sd: "short_descs k off B d"
    and bsz: "unat pbs = bsz" "bsz < 65536" and tot: "unat (head_of d off - y) \<le> 2 ^ k"
  defines "d' \<equiv> refilled d off k y pbs"
  shows "length d' = length d" "tail_of d' off = tail_of d off" "head_of d' off = y + 2 ^ k"
    "short_descs k off B d'"
    "j < unat (head_of d off - y) \<Longrightarrow> slot_same off B bsz d d' (slot_idx k y j)"
    "unat (head_of d off - y) \<le> j \<Longrightarrow> j < 2 ^ k \<Longrightarrow> free_desc off B bsz d' (slot_idx k y j)"
proof -
  let ?h = "head_of d off"
  let ?n = "unat ((2 ^ k - (?h - y)) :: u16)"
  let ?r = "refill_mem ?n d off k (unat ?h) (ucast pbs :: u16)"
  have k: "k \<le> 15" by (rule slots_okD(1) [OF g])
  have n: "?n = 2 ^ k - unat (?h - y)"
    using tot unat_pow16 [OF k] by (simp add: unat_sub word_le_nat_alt)
  have w: "uint (ucast pbs :: u16) = int bsz"
    using bsz by (simp add: unsigned_ucast_eq uint_nat take_bit_nat_eq_self)
  note R = refill_mem_facts [OF g sd w, of ?n "unat ?h"]
  have gr: "slots_ok k off B bsz (length ?r)" using g R by simp
  have d': "d' = overlay ?r (off + ringHeadOffset) (put_le 2 (y + 2 ^ k))"
    by (simp add: d'_def refilled_def)
  have b: "off + 128 \<le> length ?r" by (rule slots_okD(3) [OF gr])
  show "length d' = length d" "tail_of d' off = tail_of d off"
    using R b by (simp_all add: d' tail_of_other)
  show "head_of d' off = y + 2 ^ k" unfolding d' by (rule head_of_writeHead [OF b])
  have same: "slot_same off B bsz ?r d' s" if "s < 2 ^ k" for s
    unfolding d' by (rule slot_same_header [OF gr that]) simp
  show "short_descs k off B d'" using R same by (simp add: short_descs_def slot_same_def)
  have idx: "(unat ?h + i) mod 2 ^ k = slot_idx k y (unat (?h - y) + i)" for i
    using slot_idx_hi [OF k, of y ?h] by (simp add: slot_idx_def) (metis add.assoc mod_add_left_eq)
  show "slot_same off B bsz d d' (slot_idx k y j)" if j: "j < unat (?h - y)"
  proof -
    have "slot_idx k y j \<noteq> (unat ?h + i) mod 2 ^ k" if "i < ?n" for i
    proof -
      have "unat (?h - y) + i < 2 ^ k" using that tot n by linarith
      then show ?thesis using j tot slot_idx_inj [of j k "unat (?h - y) + i" y] unfolding idx by auto
    qed
    then show ?thesis using R same slot_same_trans slot_idx_less by blast
  qed
  show "free_desc off B bsz d' (slot_idx k y j)" if j: "unat (?h - y) \<le> j" "j < 2 ^ k"
  proof -
    have "slot_idx k y j = (unat ?h + (j - unat (?h - y))) mod 2 ^ k" "j - unat (?h - y) < ?n"
      using j idx [of "j - unat (?h - y)"] n by simp_all
    then have "free_desc off B bsz ?r (slot_idx k y j)" using R slot_idx_less by blast
    then show ?thesis using same [OF slot_idx_less] by (simp add: free_desc_def slot_same_def)
  qed
qed

text \<open>Relative to the client's private \<open>lastTail\<close>: first the pending packets up to the tail, then
  the free slots up to the head, each with a descriptor length of a whole buffer.\<close>

definition m2s_slots :: "nat \<Rightarrow> nat \<Rightarrow> (nat \<Rightarrow> nat) \<Rightarrow> nat \<Rightarrow> byte list \<Rightarrow> u16 \<Rightarrow> bool" where
  "m2s_slots k off B bsz d lo \<longleftrightarrow>
     (let np = unat (tail_of d off - lo); nt = unat (head_of d off - lo) in
      np \<le> nt \<and> nt \<le> 2 ^ k \<and> pend_ok k off B bsz d lo np \<and> short_descs k off B d \<and>
      (\<forall>j. np \<le> j \<and> j < nt \<longrightarrow> free_desc off B bsz d (slot_idx k lo j)))"

definition m2s_inv :: "nat \<Rightarrow> nat \<Rightarrow> (nat \<Rightarrow> nat) \<Rightarrow> nat \<Rightarrow> channel \<Rightarrow> bool" where
  "m2s_inv k off B bsz c \<longleftrightarrow> wired k off B bsz c \<and> bsz < 65536 \<and>
     m2s_slots k off B bsz (ch_mem c) (q_lastTail (ch_cq c))"

definition m2s_contents :: "nat \<Rightarrow> nat \<Rightarrow> (nat \<Rightarrow> nat) \<Rightarrow> channel \<Rightarrow> byte list list" where
  "m2s_contents k off B c =
     pend k off B (ch_mem c) (q_lastTail (ch_cq c))
       (unat (tail_of (ch_mem c) off - q_lastTail (ch_cq c)))"

text \<open>The credit: the slots from the client's position to the head, none before the first refill.\<close>

definition m2s_credit :: "nat \<Rightarrow> channel \<Rightarrow> nat" where
  "m2s_credit off c = unat (head_of (ch_mem c) off - q_lastTail (ch_cq c))"

lemma m2s_space_iff:
  assumes "m2s_inv k off B bsz c"
  shows "length (m2s_contents k off B c) < m2s_credit off c \<longleftrightarrow> head_of (ch_mem c) off \<noteq> tail_of (ch_mem c) off"
proof -
  have "unat (tail_of (ch_mem c) off - q_lastTail (ch_cq c)) \<le> m2s_credit off c"
    using assms by (simp add: m2s_inv_def m2s_slots_def m2s_credit_def Let_def)
  moreover have "unat (tail_of (ch_mem c) off - q_lastTail (ch_cq c)) = m2s_credit off c \<longleftrightarrow>
      tail_of (ch_mem c) off = head_of (ch_mem c) off"
    unfolding m2s_credit_def word_unat_eq_iff [symmetric] by simp
  moreover have "length (m2s_contents k off B c) = unat (tail_of (ch_mem c) off - q_lastTail (ch_cq c))"
    by (simp add: m2s_contents_def pend_def)
  ultimately show ?thesis by (metis nat_less_le)
qed

lemma short_descs_point: "short_descs k off B d \<Longrightarrow> slots_point k off B d"
  unfolding short_descs_def slots_point_def slot_points_def by blast

text \<open>A refill keeps the pending packets and leaves every other slot free.\<close>

lemma m2s_refill:
  assumes g: "slots_ok k off B bsz (length d)" and bsz: "unat pbs = bsz" "bsz < 65536"
    and inv: "m2s_slots k off B bsz d y"
  defines "d' \<equiv> refilled d off k y pbs"
  shows "m2s_slots k off B bsz d' y" "length d' = length d" "slots_point k off B d'"
    "pend k off B d' y (unat (tail_of d' off - y)) = pend k off B d y (unat (tail_of d off - y))"
    "unat (head_of d' off - y) = 2 ^ k" "tail_of d' off = tail_of d off"
proof -
  let ?np = "unat (tail_of d off - y)" and ?nt = "unat (head_of d off - y)"
  have I: "?np \<le> ?nt" "?nt \<le> 2 ^ k" "pend_ok k off B bsz d y ?np" "short_descs k off B d"
    "\<And>j. ?np \<le> j \<Longrightarrow> j < ?nt \<Longrightarrow> free_desc off B bsz d (slot_idx k y j)"
    using inv by (auto simp: m2s_slots_def Let_def)
  note R = refilled_facts [OF g I(4) bsz I(2), folded d'_def]
  note P = pend_same [OF I(3), of d']
  have same: "slot_same off B bsz d d' (slot_idx k y i)" if "i < ?np" for i
    using that I(1) by (intro R(5)) simp
  have tot: "unat (head_of d' off - y) = 2 ^ k"
    using unat_pow16 [OF slots_okD(1) [OF g]] by (simp add: R(3))
  have free: "free_desc off B bsz d' (slot_idx k y j)" if "?np \<le> j" "j < 2 ^ k" for j
  proof (cases "j < ?nt")
    case True
    with I(5) [OF that(1) True] R(5) [OF True] show ?thesis by (simp add: free_desc_def slot_same_def)
  next
    case False
    then show ?thesis using that(2) by (intro R(6)) simp_all
  qed
  show "unat (head_of d' off - y) = 2 ^ k" by (rule tot)
  show "tail_of d' off = tail_of d off" by (rule R(2))
  from free show "m2s_slots k off B bsz d' y"
    using P(2) same I(1,2) R(4) tot by (simp add: m2s_slots_def Let_def R(2))
  show "length d' = length d" by (rule R(1))
  show "slots_point k off B d'" by (rule short_descs_point [OF R(4)])
  show "pend k off B d' y (unat (tail_of d' off - y)) = pend k off B d y ?np"
    using P(1) same by (simp add: R(2))
qed

lemma commit_short_descs:
  assumes g: "slots_ok k off B bsz (length d)" and s: "s < 2 ^ k" and pkt: "length pkt \<le> bsz" and bsz: "bsz < 65536"
    and db: "desc_is db 0 0 (int (length pkt)) (int (B s))" and fld: "fld + 2 \<le> 128" and sd: "short_descs k off B d"
  shows "short_descs k off B (commit_mem d off (B s) pkt s db fld x)"
  unfolding short_descs_def
proof (intro allI impI)
  let ?d' = "commit_mem d off (B s) pkt s db fld x"
  fix r :: nat assume r: "r < 2 ^ k"
  have db16: "length db = 16" using desc_isD(1) [OF db] by simp
  show "\<exists>f l. desc_is (desc_of ?d' off r) f 0 l (int (B r)) \<and> l < 65536"
  proof (cases "r = s")
    case True
    have "desc_is (desc_of ?d' off s) 0 0 (int (length pkt)) (int (B s))"
      using db by (simp add: commit_mem_slot(1) [OF g s pkt db16 fld])
    moreover have "int (length pkt) < 65536" using pkt bsz by simp
    ultimately show ?thesis unfolding True by blast
  next
    case False
    with commit_mem_others [OF g s pkt db16 fld r False] sd r show ?thesis by (simp add: slot_same_def short_descs_def)
  qed
qed

lemma m2s_commit:
  assumes g: "slots_ok k off B bsz (length d)" and inv: "m2s_slots k off B bsz d lo"
    and free: "head_of d off \<noteq> tail_of d off" and pkt: "packet_ok bsz pkt" and bsz: "bsz < 65536"
    and s: "s = unat (tail_of d off) mod 2 ^ k"
    and db: "desc_is db 0 0 (int (length pkt)) (int (B s))"
  defines "d' \<equiv> commit_mem d off (B s) pkt s db ringTailOffset (tail_of d off + 1)"
  shows "m2s_slots k off B bsz d' lo" "length d' = length d" "slots_point k off B d'"
    "pend k off B d' lo (unat (tail_of d' off - lo)) =
       pend k off B d lo (unat (tail_of d off - lo)) @ [pkt]"
    "head_of d' off = head_of d off"
proof -
  let ?t = "tail_of d off" and ?h = "head_of d off"
  let ?np = "unat (?t - lo)" and ?nt = "unat (?h - lo)"
  have I: "?np \<le> ?nt" "?nt \<le> 2 ^ k" "pend_ok k off B bsz d lo ?np" "short_descs k off B d"
    "\<And>j. ?np \<le> j \<Longrightarrow> j < ?nt \<Longrightarrow> free_desc off B bsz d (slot_idx k lo j)"
    using inv by (auto simp: m2s_slots_def Let_def)
  have k: "k \<le> 15" by (rule slots_okD(1) [OF g])
  have "?np \<noteq> ?nt" using free by (auto simp: word_unat_eq_iff [symmetric])
  then have np: "?np < ?nt" "?np < 2 ^ k" using I(1,2) by simp_all
  have len: "0 < length pkt" "length pkt \<le> bsz" using pkt by (auto simp: packet_ok_def)
  have s': "s < 2 ^ k" "s = slot_idx k lo ?np" using slot_idx_hi [OF k] by (simp_all add: s)
  have db16: "length db = 16" using desc_isD(1) [OF db] by simp
  have fld: "ringTailOffset + 2 \<le> 128" by simp
  note H = commit_mem_header(3,4) [OF g s'(1) len(2) db16, of "?t + 1", folded d'_def]
  note P = commit_mem_pend [OF g np(2) len s'(2) db fld I(3), of "?t + 1", folded d'_def]
  note cnt = unat_Suc_diff [OF np(2) k]
  have same: "slot_same off B bsz d d' r" if "r < 2 ^ k" "r \<noteq> s" for r
    unfolding d'_def by (rule commit_mem_others [OF g s'(1) len(2) db16 fld that])
  have sd: "short_descs k off B d'"
    unfolding d'_def by (rule commit_short_descs [OF g s'(1) len(2) bsz db fld I(4)])
  have "free_desc off B bsz d' (slot_idx k lo j)" if "Suc ?np \<le> j" "j < ?nt" for j
  proof -
    have "slot_idx k lo j \<noteq> s" using slot_idx_inj [of j k ?np lo] that np I(2) s'(2) by auto
    with same [OF slot_idx_less this] I(5) [of j] that show ?thesis
      by (simp add: free_desc_def slot_same_def)
  qed
  then show "m2s_slots k off B bsz d' lo"
    using P(2) np I(2) sd by (simp add: m2s_slots_def Let_def H cnt)
  show "length d' = length d"
    unfolding d'_def by (rule commit_mem_length(3) [OF g s'(1) len(2) db16 fld])
  show "slots_point k off B d'" by (rule short_descs_point [OF sd])
  show "head_of d' off = head_of d off" by (simp add: H)
  show "pend k off B d' lo (unat (tail_of d' off - lo)) = pend k off B d lo ?np @ [pkt]"
    using P(1) by (simp add: H cnt)
qed

lemma server_write_accept:
  assumes inv: "m2s_inv k off B bsz c" and pkt: "packet_ok bsz pkt" and sp: "length (m2s_contents k off B c) < m2s_credit off c"
  shows "\<exists>c'. server_write env pkt c = Some (c', int (length pkt)) \<and> m2s_inv k off B bsz c' \<and>
    m2s_contents k off B c' = m2s_contents k off B c @ [pkt] \<and> m2s_credit off c' = m2s_credit off c \<and>
    wrote k off (B (unat (tail_of (ch_mem c) off) mod 2 ^ k)) pkt c c' \<and> tail_of (ch_mem c') off = tail_of (ch_mem c) off + 1"
proof -
  let ?d = "ch_mem c" and ?p = "with_mem (ch_server c) (ch_mem c)"
  let ?t = "tail_of (ch_mem c) off" and ?lo = "q_lastTail (ch_cq c)"
  have w: "wired k off B bsz c" and bsz: "bsz < 65536" and sl: "m2s_slots k off B bsz ?d ?lo"
    using inv by (auto simp: m2s_inv_def)
  note W = wiredD [OF w]
  have ne: "head_of ?d off \<noteq> ?t" using sp by (simp add: m2s_space_iff [OF inv])
  have "unat (?t - ?lo) \<noteq> unat (head_of ?d off - ?lo)"
    using ne by (auto simp: word_unat_eq_iff [symmetric])
  then have np: "unat (?t - ?lo) < unat (head_of ?d off - ?lo)"
    using sl by (auto simp: m2s_slots_def Let_def)
  define s where "s = unat ?t mod 2 ^ k"
  have s: "s < 2 ^ k" "s = slot_idx k ?lo (unat (?t - ?lo))"
    using slot_idx_hi [OF W(12)] by (simp_all add: s_def)
  have "free_desc off B bsz ?d s" using sl np unfolding s(2) by (auto simp: m2s_slots_def Let_def)
  then obtain f where di: "desc_is (desc_of ?d off s) f (ring_region (q_ring (ch_sq c))) (int bsz) (int (B s))"
    by (auto simp: free_desc_def W(6))
  have len: "length pkt \<le> bsz" using pkt by (simp add: packet_ok_def)
  from WritePacket_server_at [OF W(4) _ ne s_def di slots_okD(4) [OF W(8) s(1)] len, of env "ch_trace c"]
  obtain db where db: "desc_is db 0 0 (int (length pkt)) (int (B s))"
    and wr: "WritePacket env ?p (ch_sq c) pkt (ch_trace c) = Some (int (length pkt),
       put_region_data ?p 0 (commit_mem ?d off (B s) pkt s db ringTailOffset (?t + 1)),
       SysWrite (q_interruptFd (ch_sq c)) uvarint_one # ch_trace c)"
    using W(2,6) by auto
  define m where "m = commit_mem ?d off (B s) pkt s db ringTailOffset (?t + 1)"
  note M = m2s_commit [OF W(8) sl ne pkt bsz s_def db, folded m_def]
  let ?c = "c\<lparr>ch_mem := m, ch_server := put_region_data ?p 0 m,
       ch_trace := SysWrite (q_interruptFd (ch_sq c)) uvarint_one # ch_trace c\<rparr>"
  have step: "server_write env pkt c = Some (?c, int (length pkt))"
    using put_with_mem(1) [OF W(11) M(2)] by (simp add: server_write_def wr [folded m_def])
  have "wired k off B bsz ?c" using wired_step(2) [OF w M(2,3)] by (simp only: wired_frame)
  then have "m2s_inv k off B bsz ?c" using bsz M(1) by (simp add: m2s_inv_def)
  moreover have "m2s_contents k off B ?c = m2s_contents k off B c @ [pkt]"
    using M(4) by (simp add: m2s_contents_def)
  moreover have "m2s_credit off ?c = m2s_credit off c" by (simp add: m2s_credit_def M(5))
  moreover have "length db = 16" "ringTailOffset + 2 \<le> 128" using desc_isD(1) [OF db] by simp_all
  note C = commit_mem_outside [OF W(8) s(1) len this] commit_mem_slot(2) [OF W(8) s(1) len this]
    commit_mem_header(4) [OF W(8) s(1) len this(1)]
  have "wrote k off (B (unat ?t mod 2 ^ k)) pkt c ?c" "tail_of (ch_mem ?c) off = ?t + 1"
    using C by (simp_all add: wrote_def m_def flip: s_def)
  ultimately show ?thesis using step by blast
qed

lemma server_write_reject:
  assumes inv: "m2s_inv k off B bsz c" and full: "\<not> length (m2s_contents k off B c) < m2s_credit off c"
  shows "\<exists>c'. server_write env pkt c = Some (c', 0) \<and> m2s_inv k off B bsz c' \<and>
    m2s_contents k off B c' = m2s_contents k off B c \<and> m2s_credit off c' = m2s_credit off c \<and> ch_mem c' = ch_mem c"
proof -
  let ?d = "ch_mem c" and ?p = "with_mem (ch_server c) (ch_mem c)"
  have w: "wired k off B bsz c" using inv by (auto simp: m2s_inv_def)
  note W = wiredD [OF w]
  have wr: "WritePacket env ?p (ch_sq c) pkt (ch_trace c) =
      Some (0, ?p, SysWrite (q_interruptFd (ch_sq c)) uvarint_one # ch_trace c)"
    using W(2) full by (intro WritePacket_full_at [OF W(4)]) (simp add: m2s_space_iff [OF inv])
  let ?c = "c\<lparr>ch_mem := ?d, ch_server := ?p,
      ch_trace := SysWrite (q_interruptFd (ch_sq c)) uvarint_one # ch_trace c\<rparr>"
  have step: "server_write env pkt c = Some (?c, 0)"
    using region_data_with_mem [OF W(11)] by (simp add: server_write_def wr)
  have "put_region_data ?p 0 ?d = ?p" by (rule put_region_data_same [OF region_data_with_mem [OF W(11)]])
  with wired_step(2) [OF w refl W(9)] have "wired k off B bsz ?c" by (simp only: wired_frame)
  then have "m2s_inv k off B bsz ?c" using inv by (simp add: m2s_inv_def)
  with step show ?thesis by (auto simp: m2s_contents_def m2s_credit_def)
qed

lemma m2s_slots_advance:
  assumes k: "k \<le> 15" and inv: "m2s_slots k off B bsz d lo" and ne: "tail_of d off \<noteq> lo"
  shows "m2s_slots k off B bsz d (lo + 1)"
proof -
  let ?np = "unat (tail_of d off - (lo + 1))" and ?nt = "unat (head_of d off - (lo + 1))"
  have np: "unat (tail_of d off - lo) = Suc ?np" by (rule unat_diff_Suc [OF ne])
  have "head_of d off \<noteq> lo" using inv np by (auto simp: m2s_slots_def Let_def)
  then have nt: "unat (head_of d off - lo) = Suc ?nt" by (rule unat_diff_Suc)
  have I: "Suc ?np \<le> Suc ?nt" "Suc ?nt \<le> 2 ^ k" "pend_ok k off B bsz d lo (Suc ?np)"
    "short_descs k off B d"
    "\<And>j. Suc ?np \<le> j \<Longrightarrow> j < Suc ?nt \<Longrightarrow> free_desc off B bsz d (slot_idx k lo j)"
    using inv unfolding m2s_slots_def Let_def np nt by auto
  have "free_desc off B bsz d (slot_idx k (lo + 1) j)" if "?np \<le> j" "j < ?nt" for j
    using I(5) [of "Suc j"] that by (simp add: slot_idx_Suc [OF k])
  then show ?thesis
    unfolding m2s_slots_def Let_def using I(1,2,4) pend_ok_Suc [OF k I(3)] by auto
qed

lemma client_read_packet:
  assumes inv: "m2s_inv k off B bsz c" and cont: "m2s_contents k off B c = pkt # rest"
    and buf: "bsz \<le> length buf"
  shows "\<exists>c' pkt'. client_read buf c = Some (c', int (length pkt), None, pkt') \<and>
    take (length pkt) pkt' = pkt \<and> length pkt' = length buf \<and> 0 < length pkt \<and>
    m2s_inv k off B bsz c' \<and> m2s_contents k off B c' = rest \<and> m2s_credit off c' = 2 ^ k \<and>
    kept k off c c' \<and> tail_of (ch_mem c') off = tail_of (ch_mem c) off"
proof -
  let ?d = "ch_mem c" and ?p = "with_mem (ch_client c) (ch_mem c)"
  let ?t = "tail_of (ch_mem c) off" and ?lo = "q_lastTail (ch_cq c)"
  have w: "wired k off B bsz c" and bsz: "bsz < 65536" and sl: "m2s_slots k off B bsz ?d ?lo"
    using inv by (auto simp: m2s_inv_def)
  note W = wiredD [OF w]
  have ne: "?t \<noteq> ?lo" using cont by (auto simp: m2s_contents_def pend_def)
  note cnt = unat_diff_Suc [OF ne]
  define s where "s = unat ?lo mod 2 ^ k"
  have s: "s < 2 ^ k" "s = slot_idx k ?lo 0" by (simp_all add: s_def slot_idx_def)
  have "pend_ok k off B bsz ?d ?lo (Suc (unat (?t - (?lo + 1))))"
    using sl unfolding m2s_slots_def Let_def cnt by simp
  then obtain l where l: "0 < l" "l \<le> bsz" "desc_is (desc_of ?d off s) 0 0 (int l) (int (B s))"
    unfolding pend_ok_def s(2) by blast
  have "slot_payload off B ?d s = window ?d (B s) l"
    using desc_isD(4) [OF l(3)] by (simp add: slot_payload_def)
  then have pkt: "pkt = window ?d (B s) l"
    and rest: "rest = pend k off B ?d (?lo + 1) (unat (?t - (?lo + 1)))"
    using cont unfolding m2s_contents_def cnt pend_Suc [OF W(12)] s(2) [symmetric] by simp_all
  have fits: "B s + l \<le> length ?d" using slots_okD(4) [OF W(8) s(1)] l(2) by linarith
  then have lp: "length pkt = l" by (simp add: pkt)
  define m where "m = refilled ?d off k (?lo + 1) (PacketBufferSize (p_run (ch_client c)))"
  let ?q = "(ch_cq c)\<lparr>q_lastTail := ?lo + 1\<rparr>"
  have rd: "ReadPacket ?p (ch_cq c) buf =
      Some (int l, None, overlay buf 0 pkt, ?q, put_region_data ?p 0 m)"
    using ReadPacket_client_at [OF W(3), of s l "B s" buf] W(1,5) ne l buf fits
    by (simp add: s_def pkt m_def)
  note M = m2s_refill [OF W(8) W(7) bsz m2s_slots_advance [OF W(12) sl ne], folded m_def]
  let ?c = "c\<lparr>ch_mem := m, ch_client := put_region_data ?p 0 m, ch_cq := ?q\<rparr>"
  have step: "client_read buf c = Some (?c, int (length pkt), None, overlay buf 0 pkt)"
    using put_with_mem(1) [OF W(10) M(2)] lp by (simp add: client_read_def rd)
  have "wired k off B bsz ?c"
    using wired_step(1) [OF w M(2,3)] by (simp add: wired_def q_at_def)
  then have "m2s_inv k off B bsz ?c" using bsz M(1) by (simp add: m2s_inv_def)
  moreover have "m2s_contents k off B ?c = rest" using M(4) rest by (simp add: m2s_contents_def)
  moreover have "m2s_credit off ?c = 2 ^ k" using M(5) by (simp add: m2s_credit_def)
  moreover have "kept k off c ?c" "tail_of (ch_mem ?c) off = ?t"
    using refilled_outside [OF slots_okD(2) [OF W(8)]] M(6) by (simp_all add: kept_def m_def)
  moreover have "take (length pkt) (overlay buf 0 pkt) = pkt" "length (overlay buf 0 pkt) = length buf"
    using lp l(2) buf by (simp_all add: overlay_def)
  ultimately show ?thesis using step l(1) lp by auto
qed

lemma client_read_none:
  assumes inv: "m2s_inv k off B bsz c" and cont: "m2s_contents k off B c = []"
  shows "\<exists>c'. client_read buf c = Some (c', 0, None, buf) \<and> m2s_inv k off B bsz c' \<and>
    m2s_contents k off B c' = [] \<and> m2s_credit off c' = 2 ^ k \<and>
    kept k off c c' \<and> tail_of (ch_mem c') off = tail_of (ch_mem c) off"
proof -
  let ?d = "ch_mem c" and ?p = "with_mem (ch_client c) (ch_mem c)"
  let ?t = "tail_of (ch_mem c) off" and ?lo = "q_lastTail (ch_cq c)"
  have w: "wired k off B bsz c" and bsz: "bsz < 65536" and sl: "m2s_slots k off B bsz ?d ?lo"
    using inv by (auto simp: m2s_inv_def)
  note W = wiredD [OF w]
  have "unat (?t - ?lo) = 0" using cont by (simp add: m2s_contents_def pend_def)
  then have e: "?t = ?lo" by (simp add: unat_eq_0)
  define m where "m = refilled ?d off k ?lo (PacketBufferSize (p_run (ch_client c)))"
  have rd: "ReadPacket ?p (ch_cq c) buf = Some (0, None, buf, ch_cq c, put_region_data ?p 0 m)"
    using ReadPacket_client_empty_at [OF W(3) _ e, of buf] W(1,5) by (simp add: m_def)
  note M = m2s_refill [OF W(8) W(7) bsz sl, folded m_def]
  let ?c = "c\<lparr>ch_mem := m, ch_client := put_region_data ?p 0 m, ch_cq := ch_cq c\<rparr>"
  have "client_read buf c = Some (?c, 0, None, buf)"
    using put_with_mem(1) [OF W(10) M(2)] by (simp add: client_read_def rd)
  moreover have "wired k off B bsz ?c" using wired_step(1) [OF w M(2,3)] by (simp add: wired_def)
  then have "m2s_inv k off B bsz ?c" using bsz M(1) by (simp add: m2s_inv_def)
  moreover have "m2s_contents k off B ?c = []" using M(4) cont by (simp add: m2s_contents_def)
  moreover have "m2s_credit off ?c = 2 ^ k" using M(5) by (simp add: m2s_credit_def)
  moreover have "kept k off c ?c" "tail_of (ch_mem ?c) off = ?t"
    using refilled_outside [OF slots_okD(2) [OF W(8)]] M(6) by (simp_all add: kept_def m_def)
  ultimately show ?thesis by blast
qed

text \<open>The server-to-client direction is a bounded first-in first-out channel, too.\<close>

interpretation m2s: fifo_channel "m2s_inv k off B bsz" "m2s_contents k off B" "m2s_credit off"
  "2 ^ k" "packet_ok bsz" "\<lambda>pkt c. accepted (server_write env pkt c)"
  "\<lambda>c. delivered (client_read (replicate bsz 0) c)"
  for k off B bsz env
proof
  fix c pkt
  assume "m2s_inv k off B bsz c" "packet_ok bsz pkt" "length (m2s_contents k off B c) < m2s_credit off c"
  from server_write_accept [OF this, of env] this(2)
  show "\<exists>c'. accepted (server_write env pkt c) = Some (c', True) \<and> m2s_inv k off B bsz c' \<and>
      m2s_contents k off B c' = m2s_contents k off B c @ [pkt] \<and> m2s_credit off c' = m2s_credit off c"
    by (auto simp: accepted_def packet_ok_def)
next
  fix c pkt
  assume "m2s_inv k off B bsz c" "\<not> length (m2s_contents k off B c) < m2s_credit off c"
  from server_write_reject [OF this, of env pkt]
  show "\<exists>c'. accepted (server_write env pkt c) = Some (c', False) \<and> m2s_inv k off B bsz c' \<and>
      m2s_contents k off B c' = m2s_contents k off B c \<and> m2s_credit off c' = m2s_credit off c"
    by (auto simp: accepted_def)
next
  fix c pkt rest
  assume "m2s_inv k off B bsz c" "m2s_contents k off B c = pkt # rest"
  then obtain c' pkt' where "client_read (replicate bsz 0) c = Some (c', int (length pkt), None, pkt')"
    "take (length pkt) pkt' = pkt" "0 < length pkt" "m2s_inv k off B bsz c'" "m2s_contents k off B c' = rest" "m2s_credit off c' = 2 ^ k"
    using client_read_packet [of k off B bsz c pkt rest "replicate bsz 0"] by auto
  then show "\<exists>c'. delivered (client_read (replicate bsz 0) c) = Some (c', Some pkt) \<and>
      m2s_inv k off B bsz c' \<and> m2s_contents k off B c' = rest \<and> m2s_credit off c' = 2 ^ k"
    by (auto simp: delivered_def)
next
  fix c
  assume "m2s_inv k off B bsz c" "m2s_contents k off B c = []"
  from client_read_none [OF this, of "replicate bsz 0"]
  show "\<exists>c'. delivered (client_read (replicate bsz 0) c) = Some (c', None) \<and>
      m2s_inv k off B bsz c' \<and> m2s_contents k off B c' = [] \<and> m2s_credit off c' = 2 ^ k"
    by (auto simp: delivered_def)
qed

end
