(* ===== verification/Mem_Region.thy ===== *)
theory Mem_Region
  imports Channel
begin

text \<open>
  The client's shared memory (\<^verbatim>\<open>src/mem_region.go\<close>): \<open>addRegion\<close> creates and maps the region
  that holds all rings and packet buffers, \<open>initializeQueues\<close> writes the ring headers and the
  descriptors. The first part is the model. The second part shows what a port with one queue
  pair gets: two rings with the invariants of theory \<open>Channel\<close>. In between are the sizes,
  with the 16-bit arithmetic of the packet buffer offset.
\<close>

section \<open>Model\<close>

definition cookie :: int where "cookie = 0x3E31F20"

text \<open>The sizes are computed at the width of their operands: the packet buffer offset in
  \<open>uint16\<close> (the type of \<open>NumQueuePairs\<close>, which the untyped shift takes over), the region size
  in \<open>uint32\<close>.\<close>

definition packet_buffer_offset :: "MemoryConfig \<Rightarrow> bool \<Rightarrow> u32" where
  "packet_buffer_offset run hasRings =
     (if hasRings
      then ucast ((NumQueuePairs run + NumQueuePairs run) *
             (of_nat ringSize + of_nat descSize * push_bit (unat (Log2RingSize run)) 1) :: u16)
      else 0)"

definition region_size :: "MemoryConfig \<Rightarrow> bool \<Rightarrow> bool \<Rightarrow> u64" where
  "region_size run hasPacketBuffers hasRings =
     (if hasPacketBuffers
      then ucast (packet_buffer_offset run hasRings +
             PacketBufferSize run * push_bit (unat (Log2RingSize run)) 1 *
             ucast (NumQueuePairs run + NumQueuePairs run) :: u32)
      else ucast (packet_buffer_offset run hasRings))"

definition addRegion :: "env \<Rightarrow> bool \<Rightarrow> bool \<Rightarrow> port \<Rightarrow> trace \<Rightarrow> error option \<times> port \<times> trace" where
  "addRegion env hasPacketBuffers hasRings p tr =
     (let pbo = packet_buffer_offset (p_run p) hasRings;
          size = region_size (p_run p) hasPacketBuffers hasRings
      in case memfdCreate env tr of
           (Inl e, tr1) \<Rightarrow> (Some e, p, tr1)
         | (Inr fd, tr1) \<Rightarrow>
             (case add_seals env tr1 fd of
                Some e \<Rightarrow> (Some (''memfdCreate: fcntl: '' @ e), p, SysClose fd # SysAddSeals fd # tr1)
              | None \<Rightarrow>
                  (let tr2 = SysAddSeals fd # tr1 in
                   case ftruncate env tr2 fd (uint size) of
                     Some e \<Rightarrow> (Some (''memfdCreate: '' @ e), p,
                                 SysClose fd # SysFtruncate fd (uint size) # tr2)
                   | None \<Rightarrow>
                       (let tr3 = SysFtruncate fd (uint size) # tr2 in
                        case mmap env tr3 fd (uint size) of
                          Inl e \<Rightarrow> (Some (''addRegion: '' @ e), p, SysMmap fd (uint size) # tr3)
                        | Inr d \<Rightarrow>
                            (None,
                             p\<lparr>p_regions := p_regions p @
                                [\<lparr> mr_data = Some d, mr_size = size, mr_fd = fd,
                                  mr_packetBufferOffset = pbo \<rparr>]\<rparr>,
                             SysMmap fd (uint size) # tr3)))))"

definition initializeRegions :: "env \<Rightarrow> port \<Rightarrow> trace \<Rightarrow> error option \<times> port \<times> trace" where
  "initializeRegions env p tr =
     (case addRegion env True True p tr of
        (Some e, p', tr') \<Rightarrow> (Some (''initializeRegions: '' @ e), p', tr')
      | (None, p', tr') \<Rightarrow> (None, p', tr'))"

text \<open>The inner loop of \<open>initializeQueues\<close>, \<open>n\<close> iterations from index \<open>j\<close>. The slot it writes
  to is \<open>qid*q.ring.size + j\<close>.\<close>

fun init_descs :: "nat \<Rightarrow> int \<Rightarrow> int \<Rightarrow> port \<Rightarrow> queue \<Rightarrow> descBuf \<Rightarrow> (descBuf \<times> port) option" where
  "init_descs 0 qid j p q desc = Some (desc, p)"
| "init_descs (Suc n) qid j p q desc = do {
     let slot = qid * ring_size (q_ring q) + j;
     r \<leftarrow> go_nth (p_regions p) 0;
     desc' \<leftarrow> desc_setOffset desc
       (uint (mr_packetBufferOffset r + word_of_int slot * PacketBufferSize (p_run p)));
     p' \<leftarrow> putDescBuf p q slot desc';
     init_descs n qid (j + 1) p' q desc' }"

definition append_queue :: "ringType \<Rightarrow> queue \<Rightarrow> port \<Rightarrow> port" where
  "append_queue rt q p =
     (case rt of ringTypeS2M \<Rightarrow> p\<lparr>p_txQueues := p_txQueues p @ [q]\<rparr>
      | ringTypeM2S \<Rightarrow> p\<lparr>p_rxQueues := p_rxQueues p @ [q]\<rparr>)"

text \<open>One iteration of the outer loops: the transmit queues have \<open>ringTypeS2M\<close>, the receive
  queues \<open>ringTypeM2S\<close>.\<close>

definition init_queue :: "env \<Rightarrow> ringType \<Rightarrow> int \<Rightarrow> descBuf \<Rightarrow> port \<Rightarrow> trace \<Rightarrow>
    (error option \<times> descBuf \<times> port \<times> trace) option" where
  "init_queue env rt qid desc p tr = do {
     r1 \<leftarrow> ring_setCookie (port_newRing (p_run p) 0 rt qid) cookie;
     r2 \<leftarrow> ring_setFlags r1 1;
     (case eventFd env tr of
        (Inl e, tr') \<Rightarrow> Some (Some e, desc, p, tr')
      | (Inr fd, tr') \<Rightarrow> do {
          let q = \<lparr> q_ring = r2, q_lastHead = 0, q_lastTail = 0, q_interruptFd = fd \<rparr>;
          p1 \<leftarrow> putRing p q;
          (desc', p2) \<leftarrow> init_descs (nat (ring_size r2)) qid 0 (append_queue rt q p1) q desc;
          Some (None, desc', p2, tr') }) }"

fun init_loop :: "nat \<Rightarrow> env \<Rightarrow> ringType \<Rightarrow> int \<Rightarrow> descBuf \<Rightarrow> port \<Rightarrow> trace \<Rightarrow>
    (error option \<times> descBuf \<times> port \<times> trace) option" where
  "init_loop 0 env rt qid desc p tr = Some (None, desc, p, tr)"
| "init_loop (Suc n) env rt qid desc p tr = do {
     (err, desc', p', tr') \<leftarrow> init_queue env rt qid desc p tr;
     (case err of
        Some e \<Rightarrow> Some (Some e, desc', p', tr')
      | None \<Rightarrow> init_loop n env rt (qid + 1) desc' p' tr') }"

definition initializeQueues :: "env \<Rightarrow> port \<Rightarrow> trace \<Rightarrow> (error option \<times> port \<times> trace) option" where
  "initializeQueues env p tr = do {
     d1 \<leftarrow> desc_setFlags newDescBuf 0;
     d2 \<leftarrow> desc_setRegion d1 0;
     d3 \<leftarrow> desc_setLength d2 (uint (PacketBufferSize (p_run p)));
     (err, d4, p1, tr1) \<leftarrow> init_loop (unat (NumQueuePairs (p_run p))) env ringTypeS2M 0 d3 p tr;
     (case err of
        Some e \<Rightarrow> Some (Some e, p1, tr1)
      | None \<Rightarrow> do {
          (err', d5, p2, tr2) \<leftarrow> init_loop (unat (NumQueuePairs (p_run p1))) env ringTypeM2S 0 d4 p1 tr1;
          Some (err', p2, tr2) }) }"

section \<open>One ring\<close>

text \<open>The header a new ring is published with: cookie and flags set, head and tail 0.\<close>

definition fresh_header :: "byte list" where
  "fresh_header = overlay (overlay (replicate 128 0) 0 (put_le 4 (word_of_int cookie :: u32))) 4
     (put_le 2 (1 :: u16))"

lemma length_fresh_header [simp]: "length fresh_header = 128"
  by (simp add: fresh_header_def)

lemma window_fresh_header:
  "6 \<le> i \<Longrightarrow> i + 2 \<le> 128 \<Longrightarrow> window fresh_header i 2 = [0, 0]"
proof -
  assume "6 \<le> i" "i + 2 \<le> 128"
  then have "window fresh_header i 2 = window (replicate 128 0) i 2"
    by (simp add: fresh_header_def window_overlay_other)
  then show ?thesis using \<open>i + 2 \<le> 128\<close> by (simp add: window_replicate numeral_2_eq_2)
qed

lemma fresh_ring:
  obtains r1 where "ring_setCookie (port_newRing run 0 rt qid) cookie = Some r1"
    "ring_setFlags r1 1 = Some ((port_newRing run 0 rt qid)\<lparr>ring_rb := fresh_header\<rparr>)"
  by (simp add: ring_access_defs port_newRing_def Let_def le_put32_def le_put16_def le_put_def
      fresh_header_def)

lemma header_of_fresh:
  assumes "off + 128 \<le> length d"
  shows "head_of (overlay d off fresh_header) off = 0" "tail_of (overlay d off fresh_header) off = 0"
proof -
  have "window (overlay d off fresh_header) (off + i) 2 = window fresh_header i 2" if "i + 2 \<le> 128" for i
  proof -
    have "window (window (overlay d off fresh_header) off 128) i 2 = window (overlay d off fresh_header) (off + i) 2"
      using that by (intro window_window) simp
    moreover have "window (overlay d off fresh_header) off 128 = fresh_header"
      using assms by (intro window_overlay_same) simp_all
    ultimately show ?thesis by simp
  qed
  then show "head_of (overlay d off fresh_header) off = 0" "tail_of (overlay d off fresh_header) off = 0"
    by (simp_all add: head_of_def tail_of_def window_fresh_header)
qed

lemma putRing_at:
  assumes "ring_at p q k off d" and "ring_rb (q_ring q) = fresh_header"
  shows "putRing p q = Some (put_region_data p (ring_region (q_ring q)) (overlay d off fresh_header))"
  using assms ring_atD [OF assms(1)]
  by (simp add: putRing_def go_copy_from_def Let_def)

lemma go_nth_put: "go_nth (p_regions p) 0 = Some r \<Longrightarrow> mr_data r \<noteq> None \<Longrightarrow>
   go_nth (p_regions (put_region_data p 0 d)) 0 = Some (r\<lparr>mr_data := Some d\<rparr>)"
  by (auto simp: go_nth_def put_region_data_def split: if_splits)

text \<open>\<open>filled off j n P d d'\<close>: \<open>d'\<close> is \<open>d\<close> with the descriptors of the slots \<open>j\<close> to \<open>j + n - 1\<close>
  replaced by descriptors that satisfy \<open>P\<close>, and no other byte changed.\<close>

definition filled :: "nat \<Rightarrow> nat \<Rightarrow> nat \<Rightarrow> (nat \<Rightarrow> descBuf \<Rightarrow> bool) \<Rightarrow> byte list \<Rightarrow> byte list \<Rightarrow> bool" where
  "filled off j n P d d' \<longleftrightarrow> length d' = length d \<and>
     (\<forall>s. j \<le> s \<and> s < j + n \<longrightarrow> P s (desc_of d' off s)) \<and>
     (\<forall>i m. i + m \<le> desc_base off j \<or> desc_base off (j + n) \<le> i \<longrightarrow> window d' i m = window d i m)"

lemma filled_0: "filled off j 0 P d d"
  by (auto simp: filled_def)

lemma filled_Suc:
  assumes f: "filled off (Suc j) n P (overlay d (desc_base off j) db) d'"
    and db: "P j db" "length db = 16" and b: "desc_base off j + 16 \<le> length d"
  shows "filled off j (Suc n) P d d'"
proof -
  let ?d = "overlay d (desc_base off j) db"
  have ld: "length ?d = length d" using b db(2) by simp
  have base: "desc_base off (Suc j) = desc_base off j + 16" "desc_base off j + 16 \<le> desc_base off (j + Suc n)"
    by (simp_all add: desc_base_def)
  have w: "window d' i m = window ?d i m"
    if "i + m \<le> desc_base off j + 16 \<or> desc_base off (j + Suc n) \<le> i" for i m
    using f that base by (auto simp: filled_def)
  have "desc_of d' off j = desc_of ?d off j" unfolding desc_of_def by (rule w) simp
  also have "\<dots> = db" using b db(2) by (intro desc_of_same) simp_all
  finally have "P s (desc_of d' off s)" if "j \<le> s" "s < j + Suc n" for s
    using f db(1) that by (cases "s = j") (simp_all add: filled_def)
  moreover have "window d' i m = window d i m"
    if im: "i + m \<le> desc_base off j \<or> desc_base off (j + Suc n) \<le> i" for i m
  proof -
    have "window d' i m = window ?d i m" using im by (intro w) auto
    also have "\<dots> = window d i m" using im b db(2) base by (intro window_overlay_other) auto
    finally show ?thesis .
  qed
  ultimately show ?thesis using f ld by (simp add: filled_def)
qed

definition init_desc_ok :: "memoryRegion \<Rightarrow> MemoryConfig \<Rightarrow> int \<Rightarrow> nat \<Rightarrow> descBuf \<Rightarrow> bool" where
  "init_desc_ok r run l s db \<longleftrightarrow>
     desc_is db 0 0 l (uint (mr_packetBufferOffset r + word_of_nat s * PacketBufferSize run))"

lemma init_descs_at:
  assumes "ring_at p q k off d" and reg: "ring_region (q_ring q) = 0"
    and "go_nth (p_regions p) 0 = Some r" "mr_data r \<noteq> None"
    and "desc_is desc 0 0 l o0" and "j + n \<le> 2 ^ k"
  shows "\<exists>desc' d' o'. init_descs n 0 (int j) p q desc = Some (desc', put_region_data p 0 d') \<and>
    desc_is desc' 0 0 l o' \<and> filled off j n (init_desc_ok r (p_run p) l) d d'"
  using assms
proof (induction n arbitrary: j p d desc r o0)
  case 0
  then have "put_region_data p 0 d = p" using put_region_data_same [of p 0 d] ring_atD(1) by metis
  moreover have "filled off j 0 (init_desc_ok r (p_run p) l) d d" by (rule filled_0)
  ultimately show ?case using 0 by (metis init_descs.simps(1))
next
  case (Suc n)
  note ra = Suc.prems(1)
  have j: "j < 2 ^ k" "Suc j + n \<le> 2 ^ k" using Suc.prems(6) by simp_all
  let ?o = "uint (mr_packetBufferOffset r + word_of_nat j * PacketBufferSize (p_run p))"
  obtain d1 where d1: "desc_setOffset desc ?o = Some d1" "desc_is d1 0 0 l ?o"
    using desc_is_setOffset [OF Suc.prems(5), of ?o] by auto
  have l1: "length d1 = 16" and b: "desc_base off j + 16 \<le> length d"
    using desc_isD(1) [OF d1(2)] slot_fits [OF ra j(1)] by simp_all
  let ?d = "overlay d (desc_base off j) d1" and ?p = "put_region_data p 0 (overlay d (desc_base off j) d1)"
  have put: "putDescBuf p q (int j) d1 = Some ?p"
    using putDescBuf_at [OF ra j(1)] l1 by (simp add: reg)
  have "length ?d = length d" using b l1 by simp
  then have ra': "ring_at ?p q k off ?d" using ring_at_put [OF ra] reg by metis
  have r': "mr_data (r\<lparr>mr_data := Some ?d\<rparr>) \<noteq> None" by simp
  obtain desc' d' o' where IH: "init_descs n 0 (int (Suc j)) ?p q d1 = Some (desc', put_region_data ?p 0 d')"
    "desc_is desc' 0 0 l o'" "filled off (Suc j) n (init_desc_ok (r\<lparr>mr_data := Some ?d\<rparr>) (p_run ?p) l) ?d d'"
    using Suc.IH [OF ra' reg go_nth_put [OF Suc.prems(3,4)] r' d1(2) j(2)] by blast
  have "init_desc_ok (r\<lparr>mr_data := Some ?d\<rparr>) (p_run ?p) l = init_desc_ok r (p_run p) l"
    by (simp add: init_desc_ok_def fun_eq_iff)
  with filled_Suc [OF _ _ l1 b, of n "init_desc_ok r (p_run p) l" d'] IH(3) d1(2)
  have "filled off j (Suc n) (init_desc_ok r (p_run p) l) d d'" by (simp add: init_desc_ok_def)
  moreover have "put_region_data ?p 0 d' = put_region_data p 0 d'"
    using ring_atD(1) [OF ra] reg by (simp add: put_region_data_put)
  then have "init_descs (Suc n) 0 (int j) p q desc = Some (desc', put_region_data p 0 d')"
    using Suc.prems(3) d1(1) put IH(1) by (simp add: Let_def add.commute)
  ultimately show ?case using IH(2) by blast
qed

text \<open>\<open>ring_ready\<close>: an empty ring at \<open>off\<close> that carries the cookie and whose descriptors are
  initialised.\<close>

definition cookie_of :: "byte list \<Rightarrow> nat \<Rightarrow> int" where
  "cookie_of d off = uint (get_le (window d off 4) :: u32)"

definition ring_ready :: "byte list \<Rightarrow> nat \<Rightarrow> nat \<Rightarrow> (nat \<Rightarrow> descBuf \<Rightarrow> bool) \<Rightarrow> bool" where
  "ring_ready d off k P \<longleftrightarrow> head_of d off = 0 \<and> tail_of d off = 0 \<and> cookie_of d off = cookie \<and> (\<forall>s<2 ^ k. P s (desc_of d off s))"

lemma ring_ready_cong:
  assumes "\<And>i m. i + m \<le> a \<or> b \<le> i \<Longrightarrow> window d' i m = window d i m"
    and "off + ring_span k \<le> a \<or> b \<le> off"
  shows "ring_ready d' off k P = ring_ready d off k P"
proof -
  have w: "window d' (off + i) m = window d (off + i) m" if "i + m \<le> ring_span k" for i m
    using that assms(2) by (intro assms(1)) auto
  have "desc_of d' off s = desc_of d off s" if "s < 2 ^ k" for s
    using w [of "128 + 16 * s" 16] that by (simp add: desc_of_def desc_base_def ring_span_def add.assoc)
  moreover have "head_of d' off = head_of d off" "tail_of d' off = tail_of d off"
    "cookie_of d' off = cookie_of d off"
    using w [of 6 2] w [of 64 2] w [of 0 4] by (simp_all add: head_of_def tail_of_def cookie_of_def ring_span_def)
  ultimately show ?thesis by (simp add: ring_ready_def)
qed

lemma window_prefix: "window d off 128 = h \<Longrightarrow> window d off 4 = window h 0 4"
  by (auto simp: window_def)

lemma cookie_of_fresh:
  assumes "off + 128 \<le> length d"
  shows "cookie_of (overlay d off fresh_header) off = cookie"
proof -
  have "window (overlay d off fresh_header) off 128 = fresh_header"
    using assms by (intro window_overlay_same) simp_all
  then have "window (overlay d off fresh_header) off 4 = window fresh_header 0 4"
    by (metis window_prefix)
  also have "\<dots> = put_le 4 (word_of_int cookie :: u32)"
    by (simp add: fresh_header_def window_overlay_other window_overlay_same)
  finally show ?thesis by (simp add: cookie_of_def cookie_def)
qed

lemma append_queue_simps [simp]:
  "p_regions (append_queue rt q p) = p_regions p" "p_run (append_queue rt q p) = p_run p"
  "p_cfg (append_queue rt q p) = p_cfg p"
  "region_data (append_queue rt q p) i = region_data p i"
  "put_region_data (append_queue rt q p) i d = append_queue rt q (put_region_data p i d)"
  by (simp_all add: append_queue_def region_data_def put_region_data_def split: ringType.splits)

definition new_queue :: "MemoryConfig \<Rightarrow> ringType \<Rightarrow> int \<Rightarrow> queue" where
  "new_queue run rt fd =
     \<lparr> q_ring = (port_newRing run 0 rt 0)\<lparr>ring_rb := fresh_header\<rparr>,
       q_lastHead = 0, q_lastTail = 0, q_interruptFd = fd \<rparr>"

lemma init_queue_at:
  assumes ra: "ring_at p q k off d"
    and q: "q = new_queue (p_run p) rt fd"
    and r: "go_nth (p_regions p) 0 = Some r" "mr_data r \<noteq> None"
    and di: "desc_is desc 0 0 l o0" and ev: "eventFd env tr = (Inr fd, tr')"
  shows "\<exists>desc' d' o'. init_queue env rt 0 desc p tr =
      Some (None, desc', append_queue rt q (put_region_data p 0 d'), tr') \<and>
    desc_is desc' 0 0 l o' \<and> length d' = length d \<and> ring_ready d' off k (init_desc_ok r (p_run p) l) \<and>
    (\<forall>i m. i + m \<le> off \<or> off + ring_span k \<le> i \<longrightarrow> window d' i m = window d i m)"
proof -
  have reg: "ring_region (q_ring q) = 0" by (simp add: q new_queue_def port_newRing_def Let_def)
  have b: "off + 128 \<le> length d" by (rule ring_atD(6) [OF ra])
  let ?d = "overlay d off fresh_header"
  let ?p = "append_queue rt q (put_region_data p 0 ?d)"
  have ld: "length ?d = length d" using b by simp
  have put: "putRing p q = Some (put_region_data p 0 ?d)"
    using putRing_at [OF ra] reg by (simp add: q new_queue_def)
  have "ring_at (put_region_data p 0 ?d) q k off ?d" using ring_at_put [OF ra ld] reg by simp
  then have ra': "ring_at ?p q k off ?d" by (simp add: ring_at_def)
  have r': "go_nth (p_regions ?p) 0 = Some (r\<lparr>mr_data := Some ?d\<rparr>)"
    using go_nth_put [OF r] by simp
  obtain desc' d' o' where D: "init_descs (2 ^ k) 0 (int 0) ?p q desc = Some (desc', put_region_data ?p 0 d')"
    "desc_is desc' 0 0 l o'" "filled off 0 (2 ^ k) (init_desc_ok (r\<lparr>mr_data := Some ?d\<rparr>) (p_run ?p) l) ?d d'"
    using init_descs_at [OF ra' reg r' _ di, of 0 "2 ^ k"] by auto
  have eq: "init_desc_ok (r\<lparr>mr_data := Some ?d\<rparr>) (p_run ?p) l = init_desc_ok r (p_run p) l"
    by (simp add: init_desc_ok_def fun_eq_iff)
  obtain r1 where r1: "ring_setCookie (port_newRing (p_run p) 0 rt 0) cookie = Some r1"
    "ring_setFlags r1 1 = Some (q_ring q)"
    using fresh_ring [of "p_run p" rt 0] unfolding q new_queue_def by (metis queue.select_convs(1))
  have pp: "put_region_data (put_region_data p 0 ?d) 0 d' = put_region_data p 0 d'"
    using ring_atD(1) [OF ra] reg by (simp add: put_region_data_put)
  have sz: "nat (ring_size (q_ring q)) = 2 ^ k" using ring_atD(2) [OF ra] by simp
  have qe: "q = \<lparr> q_ring = q_ring q, q_lastHead = 0, q_lastTail = 0, q_interruptFd = fd \<rparr>" by (simp add: q new_queue_def)
  have run: "init_queue env rt 0 desc p tr = Some (None, desc', append_queue rt q (put_region_data p 0 d'), tr')"
    using D(1) put pp by (simp add: init_queue_def r1 ev sz Let_def qe [symmetric])
  have w: "window d' i m = window ?d i m"
    if "i + m \<le> off + 128 \<or> off + ring_span k \<le> i" for i m
    using D(3) that by (auto simp: filled_def desc_base_def ring_span_def)
  have "head_of d' off = 0" "tail_of d' off = 0"
    using header_of_fresh [OF b] w [of "off + 6" 2] w [of "off + 64" 2] by (simp_all add: head_of_def tail_of_def)
  moreover have "cookie_of d' off = cookie"
    using cookie_of_fresh [OF b] w [of off 4] by (simp add: cookie_of_def)
  ultimately have "ring_ready d' off k (init_desc_ok r (p_run p) l)"
    using D(3) unfolding eq by (simp add: ring_ready_def filled_def)
  moreover have "window d' i m = window d i m" if im: "i + m \<le> off \<or> off + ring_span k \<le> i" for i m
    using w [of i m] im b window_overlay_other [of off fresh_header d i m] by (auto simp: ring_span_def)
  ultimately show ?thesis using run D(2,3) ld by (auto simp: filled_def)
qed


section \<open>A port with one queue pair\<close>

lemma new_queue_at:
  assumes "NumQueuePairs run = 1" and "unat (Log2RingSize run) = k" and "k \<le> 15"
  shows "q_at (new_queue run ringTypeS2M fd) k 0" "q_at (new_queue run ringTypeM2S fd) k (ring_span k)"
proof -
  have "(2::int) ^ k \<le> 2 ^ 15" using assms(3) by (rule power_increasing) simp
  moreover have "0 < (2::int) ^ k" by simp
  ultimately show "q_at (new_queue run ringTypeS2M fd) k 0" "q_at (new_queue run ringTypeM2S fd) k (ring_span k)"
    using assms by (simp_all add: q_at_def new_queue_def port_newRing_def ring_bytes_def Let_def shl1_small wrap64_id ring_span_def)
qed


lemma ring_atI:
  assumes "region_data p 0 = Some d" and "q_at q k off" and "k \<le> 15" and "off + ring_span k \<le> length d"
  shows "ring_at p q k off d"
  using assms by (simp add: ring_at_def q_at_def)

text \<open>The descriptor that the initialisation starts from.\<close>

lemma initial_desc:
  obtains d1 d2 d3 where "desc_setFlags newDescBuf 0 = Some d1" "desc_setRegion d1 0 = Some d2"
    "desc_setLength d2 (uint (l :: u32)) = Some d3" "desc_is d3 0 0 (uint l) 0"
proof -
  have "desc_is newDescBuf 0 0 0 0" by (simp add: desc_is_def newDescBuf_def) code_simp
  then obtain d1 where d1: "desc_setFlags newDescBuf 0 = Some d1" "desc_is d1 0 0 0 0"
    using desc_is_setFlags [of newDescBuf 0 0 0 0 0] by auto
  obtain d2 where d2: "desc_setRegion d1 0 = Some d2" "desc_is d2 0 0 0 0"
    using desc_is_setRegion [OF d1(2), of 0] by auto
  obtain d3 where d3: "desc_setLength d2 (uint l) = Some d3" "desc_is d3 0 0 (uint l) 0"
    using desc_is_setLength [OF d2(2), of "uint l"] by auto
  show thesis by (rule that [OF d1(1) d2(1) d3])
qed

lemma initializeQueues_one_pair:
  assumes run: "NumQueuePairs (p_run p) = 1" "unat (Log2RingSize (p_run p)) = k" "k \<le> 15"
    and r: "go_nth (p_regions p) 0 = Some r" "mr_data r = Some d" and fits: "2 * ring_span k \<le> length d"
    and ev: "eventFd env tr = (Inr fd1, tr1)" "eventFd env tr1 = (Inr fd2, tr2)"
  defines "qt \<equiv> new_queue (p_run p) ringTypeS2M fd1" and "qr \<equiv> new_queue (p_run p) ringTypeM2S fd2"
    and "P \<equiv> init_desc_ok r (p_run p) (uint (PacketBufferSize (p_run p)))"
  shows "\<exists>d'. initializeQueues env p tr =
      Some (None, append_queue ringTypeM2S qr (append_queue ringTypeS2M qt (put_region_data p 0 d')), tr2) \<and>
    length d' = length d \<and> ring_ready d' 0 k P \<and> ring_ready d' (ring_span k) k P"
proof -
  let ?l = "uint (PacketBufferSize (p_run p))"
  obtain d1 d2 d3 where D: "desc_setFlags newDescBuf 0 = Some d1" "desc_setRegion d1 0 = Some d2"
    "desc_setLength d2 ?l = Some d3" "desc_is d3 0 0 ?l 0" by (rule initial_desc)
  have rd: "region_data p 0 = Some d" using r by (simp add: region_data_def bytes_of_def)
  have qt: "q_at qt k 0" and qr: "q_at qr k (ring_span k)"
    using new_queue_at [OF run] by (simp_all add: qt_def qr_def)
  have ra: "ring_at p qt k 0 d" using fits by (intro ring_atI [OF rd qt run(3)]) simp
  have r2: "mr_data r \<noteq> None" using r(2) by simp
  have qt': "qt = new_queue (p_run p) ringTypeS2M fd1" by (simp add: qt_def)
  obtain d4 m1 o4 where T: "init_queue env ringTypeS2M 0 d3 p tr =
      Some (None, d4, append_queue ringTypeS2M qt (put_region_data p 0 m1), tr1)"
    "desc_is d4 0 0 ?l o4" "length m1 = length d" "ring_ready m1 0 k P"
    using init_queue_at [OF ra qt' r(1) r2 D(4) ev(1)] unfolding P_def by blast
  let ?p1 = "append_queue ringTypeS2M qt (put_region_data p 0 m1)"
  have rd1: "region_data ?p1 0 = Some m1" using rd T(3) by (simp add: region_data_put)
  have ra1: "ring_at ?p1 qr k (ring_span k) m1" using fits T(3) by (intro ring_atI [OF rd1 qr run(3)]) simp
  have qr': "qr = new_queue (p_run ?p1) ringTypeM2S fd2" by (simp add: qr_def)
  have r1: "go_nth (p_regions ?p1) 0 = Some (r\<lparr>mr_data := Some m1\<rparr>)" using go_nth_put [OF r(1) r2] by simp
  have eq: "init_desc_ok (r\<lparr>mr_data := Some m1\<rparr>) (p_run ?p1) ?l = P"
    by (simp add: init_desc_ok_def P_def fun_eq_iff)
  obtain d5 m2 where R: "init_queue env ringTypeM2S 0 d4 ?p1 tr1 =
      Some (None, d5, append_queue ringTypeM2S qr (put_region_data ?p1 0 m2), tr2)"
    "length m2 = length m1" "ring_ready m2 (ring_span k) k P"
    "\<And>i m. i + m \<le> ring_span k \<or> ring_span k + ring_span k \<le> i \<Longrightarrow> window m2 i m = window m1 i m"
    using init_queue_at [OF ra1 qr' r1 _ T(2) ev(2)]
    unfolding eq by auto
  have "ring_ready m2 0 k P"
    using T(4) ring_ready_cong [of "ring_span k" "ring_span k + ring_span k" m2 m1 0 k P] R(4) by simp
  moreover have "put_region_data ?p1 0 m2 = append_queue ringTypeS2M qt (put_region_data p 0 m2)"
    using rd by (simp add: put_region_data_put)
  then have "initializeQueues env p tr =
      Some (None, append_queue ringTypeM2S qr (append_queue ringTypeS2M qt (put_region_data p 0 m2)), tr2)"
    using T(1) R(1) by (simp add: initializeQueues_def D run)
  ultimately show ?thesis using R(2,3) T(3) by auto
qed

section \<open>Sizes\<close>

lemma packet_buffer_offset_mod:
  "unat (packet_buffer_offset run True) =
     (2 * unat (NumQueuePairs run) * ring_span (unat (Log2RingSize run))) mod 2 ^ 16"
proof -
  let ?k = "unat (Log2RingSize run)" and ?n = "unat (NumQueuePairs run)"
  let ?w = "(NumQueuePairs run + NumQueuePairs run) *
      (of_nat ringSize + of_nat descSize * push_bit ?k 1) :: u16"
  have w: "?w = of_nat (2 * ?n * ring_span ?k)"
    by (simp add: ring_span_def algebra_simps)
  have "unat (packet_buffer_offset run True) = unat (ucast ?w :: u32)"
    unfolding packet_buffer_offset_def if_True ..
  also have "\<dots> = unat ?w" by (rule unat_ucast_up) simp
  also have "\<dots> = (2 * ?n * ring_span ?k) mod 2 ^ 16" unfolding w unat_of_nat by simp
  finally show ?thesis .
qed

lemma region_size_mod:
  "unat (region_size run True True) =
     (unat (packet_buffer_offset run True) +
      unat (PacketBufferSize run) * 2 ^ unat (Log2RingSize run) *
        (2 * unat (NumQueuePairs run) mod 2 ^ 16)) mod 2 ^ 32"
proof -
  let ?k = "unat (Log2RingSize run)"
  let ?n2 = "2 * unat (NumQueuePairs run) mod 2 ^ 16"
  let ?w = "packet_buffer_offset run True + PacketBufferSize run * push_bit ?k 1 *
      ucast (NumQueuePairs run + NumQueuePairs run) :: u32"
  have "unat (ucast (NumQueuePairs run + NumQueuePairs run) :: u32) = ?n2"
    by (rule trans [OF unat_ucast_up]) (simp, unfold unat_word_ariths(1), simp add: mult_2)
  from arg_cong [OF this, of "of_nat :: nat \<Rightarrow> u32"]
  have n2: "(ucast (NumQueuePairs run + NumQueuePairs run) :: u32) = of_nat ?n2"
    by (simp only: of_nat_unat ucast_id)
  have w: "?w = of_nat (unat (packet_buffer_offset run True) + unat (PacketBufferSize run) * 2 ^ ?k * ?n2)"
    unfolding n2 by (simp only: of_nat_add of_nat_mult of_nat_unat ucast_id of_nat_power
        of_nat_numeral push_bit_of_1)
  have "unat (region_size run True True) = unat (ucast ?w :: u64)"
    unfolding region_size_def if_True ..
  also have "\<dots> = unat ?w" by (rule unat_ucast_up) simp
  finally show ?thesis unfolding w unat_of_nat by (simp only: len_of_numeral_defs) simp
qed

text \<open>A configuration with one queue pair whose sizes fit: \<open>k \<le> 10\<close> keeps the packet buffer
  offset below \<open>2 ^ 16\<close>.\<close>

definition one_pair :: "MemoryConfig \<Rightarrow> nat \<Rightarrow> bool" where
  "one_pair run k \<longleftrightarrow> NumQueuePairs run = 1 \<and> unat (Log2RingSize run) = k \<and> k \<le> 10 \<and>
     2 * ring_span k + 2 * 2 ^ k * unat (PacketBufferSize run) < 2 ^ 32"

definition buffer_at :: "MemoryConfig \<Rightarrow> nat \<Rightarrow> nat \<Rightarrow> nat" where
  "buffer_at run k s = 2 * ring_span k + s * unat (PacketBufferSize run)"

lemma one_pair_sizes:
  assumes "one_pair run k"
  shows "unat (packet_buffer_offset run True) = 2 * ring_span k"
    "unat (region_size run True True) = 2 * ring_span k + 2 * 2 ^ k * unat (PacketBufferSize run)"
proof -
  have c: "NumQueuePairs run = 1" "unat (Log2RingSize run) = k" "k \<le> 10"
    "2 * ring_span k + 2 * 2 ^ k * unat (PacketBufferSize run) < 2 ^ 32"
    using assms by (auto simp: one_pair_def)
  have "(2::nat) ^ k \<le> 2 ^ 10" using c(3) by (rule power_increasing) simp
  then have "2 * ring_span k < 2 ^ 16" by (simp add: ring_span_def)
  then show pbo: "unat (packet_buffer_offset run True) = 2 * ring_span k"
    using packet_buffer_offset_mod [of run] c(1,2) by simp
  show "unat (region_size run True True) = 2 * ring_span k + 2 * 2 ^ k * unat (PacketBufferSize run)"
    using region_size_mod [of run] c by (simp add: pbo mult_ac)
qed

lemma one_pair_slots_ok:
  assumes "one_pair run k" and "off = 0 \<or> off = ring_span k"
    and "N = 2 * ring_span k + 2 * 2 ^ k * unat (PacketBufferSize run)"
  shows "slots_ok k off (buffer_at run k) (unat (PacketBufferSize run)) N"
proof -
  let ?p = "unat (PacketBufferSize run)"
  have step: "s * ?p + ?p \<le> s' * ?p" if "s < s'" for s s' :: nat
    using mult_le_mono1 [of "Suc s" s' ?p] that by simp
  have "s * ?p + ?p \<le> 2 * 2 ^ k * ?p" if "s < 2 ^ k" for s using step [of s "2 * 2 ^ k"] that by simp
  then show ?thesis using assms step
    by (auto simp: slots_ok_def buffer_at_def one_pair_def nat_neq_iff)
qed

lemma init_desc_ok_buffer:
  assumes "one_pair run k" and "mr_packetBufferOffset r = packet_buffer_offset run True" and "s < 2 ^ k"
    and "init_desc_ok r run l s db"
  shows "desc_is db 0 0 l (int (buffer_at run k s))"
proof -
  let ?p = "unat (PacketBufferSize run)"
  have "s * ?p \<le> 2 ^ k * ?p" using assms(3) by (intro mult_le_mono1) simp
  moreover have "2 * ring_span k + 2 * (2 ^ k * ?p) < 2 ^ 32"
    using assms(1) by (simp add: one_pair_def mult.assoc)
  ultimately have "buffer_at run k s < 2 ^ 32" unfolding buffer_at_def by linarith
  moreover have "mr_packetBufferOffset r + word_of_nat s * PacketBufferSize run = word_of_nat (buffer_at run k s)"
    using one_pair_sizes(1) [OF assms(1)] assms(2)
    by (simp add: buffer_at_def) (metis of_nat_mult of_nat_numeral of_nat_unat ucast_id)
  ultimately have "uint (mr_packetBufferOffset r + word_of_nat s * PacketBufferSize run) = int (buffer_at run k s)"
    by (simp add: unsigned_of_nat take_bit_nat_eq_self)
  then show ?thesis using assms(4) by (simp add: init_desc_ok_def)
qed

section \<open>From set-up to a working channel\<close>

text \<open>The documented behaviour of \<open>mmap\<close> the code relies on: a mapping has the requested length.\<close>

definition mmap_full :: "env \<Rightarrow> bool" where
  "mmap_full env \<longleftrightarrow> (\<forall>tr fd n d. mmap env tr fd n = Inr d \<longrightarrow> length d = nat n)"

lemma addRegion_ok:
  assumes "addRegion env True True p tr = (None, p', tr')" and "mmap_full env"
  obtains r d where "p' = p\<lparr>p_regions := p_regions p @ [r]\<rparr>" "mr_data r = Some d"
    "mr_packetBufferOffset r = packet_buffer_offset (p_run p) True"
    "mr_size r = region_size (p_run p) True True" "length d = unat (region_size (p_run p) True True)"
proof -
  let ?size = "region_size (p_run p) True True"
  from assms(1) obtain fd d tr3 where
    p': "p' = p\<lparr>p_regions := p_regions p @ [\<lparr> mr_data = Some d, mr_size = ?size, mr_fd = fd,
       mr_packetBufferOffset = packet_buffer_offset (p_run p) True \<rparr>]\<rparr>"
    and m: "mmap env tr3 fd (uint ?size) = Inr d"
    by (auto simp: addRegion_def Let_def split: prod.splits sum.splits option.splits)
  have "length d = unat ?size" using assms(2) m by (simp add: mmap_full_def)
  then show thesis using that p' by (metis memoryRegion.select_convs(1,2,4))
qed

text \<open>\<open>client_ready p k d\<close>: the port has one transmit and one receive queue over the bytes \<open>d\<close>;
  both rings are empty and every descriptor points to a whole packet buffer.\<close>

definition client_ready :: "port \<Rightarrow> nat \<Rightarrow> byte list \<Rightarrow> queue \<Rightarrow> queue \<Rightarrow> bool" where
  "client_ready p k d qt qr \<longleftrightarrow>
     p_txQueues p = [qt] \<and> p_rxQueues p = [qr] \<and> region_data p 0 = Some d \<and>
     length d = 2 * ring_span k + 2 * 2 ^ k * unat (PacketBufferSize (p_run p)) \<and>
     q_at qt k 0 \<and> q_at qr k (ring_span k) \<and> q_lastTail qr = 0 \<and>
     (\<forall>off\<in>{0, ring_span k}. ring_ready d off k (\<lambda>s db. desc_is db 0 0
        (uint (PacketBufferSize (p_run p))) (int (buffer_at (p_run p) k s))))"

lemma client_ready_size:
  assumes "one_pair (p_run p) k" and "client_ready p k d qt qr"
  shows "sint (region_size (p_run p) True True) = int (length d)"
proof -
  have n: "unat (region_size (p_run p) True True) = length d"
    using one_pair_sizes(2) [OF assms(1)] assms(2) by (simp add: client_ready_def)
  have "length d < 2 ^ 32" using assms by (simp add: client_ready_def one_pair_def)
  then have "uint (region_size (p_run p) True True) < 2 ^ 63" using n unfolding uint_nat by simp
  then have "sint (region_size (p_run p) True True) = uint (region_size (p_run p) True True)"
    by (simp add: sint_uint signed_take_bit_int_eq_self_iff) (rule order_trans [OF _ uint_ge_0], simp)
  then show ?thesis using n by (simp add: uint_nat)
qed

lemma ring_ready_mono:
  "ring_ready d off k P \<Longrightarrow> (\<And>s db. s < 2 ^ k \<Longrightarrow> P s db \<Longrightarrow> Q s db) \<Longrightarrow> ring_ready d off k Q"
  by (simp add: ring_ready_def)

lemma client_setup:
  assumes cfg: "one_pair (p_run p) k" and fresh: "p_regions p = []" "p_txQueues p = []" "p_rxQueues p = []"
    and os: "mmap_full env" and reg: "initializeRegions env p tr = (None, p1, tr1)"
    and ev: "eventFd env tr1 = (Inr fd1, tr2)" "eventFd env tr2 = (Inr fd2, tr3)"
  defines "qt \<equiv> new_queue (p_run p) ringTypeS2M fd1" and "qr \<equiv> new_queue (p_run p) ringTypeM2S fd2"
  shows "\<exists>d p2 r. initializeQueues env p1 tr1 = Some (None, p2, tr3) \<and> p1 = p\<lparr>p_regions := [r]\<rparr> \<and>
    p2 = p\<lparr>p_regions := [r\<lparr>mr_data := Some d\<rparr>], p_txQueues := [qt], p_rxQueues := [qr]\<rparr> \<and>
    mr_size r = region_size (p_run p) True True \<and> client_ready p2 k d qt qr"
proof -
  let ?run = "p_run p" and ?l = "uint (PacketBufferSize (p_run p))"
  have "addRegion env True True p tr = (None, p1, tr1)"
    using reg by (auto simp: initializeRegions_def split: prod.splits option.splits)
  then obtain r d where p1: "p1 = p\<lparr>p_regions := [r]\<rparr>" and r: "mr_data r = Some d"
    "mr_packetBufferOffset r = packet_buffer_offset ?run True"
    "length d = unat (region_size ?run True True)" "mr_size r = region_size ?run True True"
    using addRegion_ok [OF _ os] fresh(1) by (metis append_Nil)
  note N = one_pair_sizes [OF cfg]
  have c: "NumQueuePairs (p_run p1) = 1" "unat (Log2RingSize (p_run p1)) = k" "k \<le> 15"
    using cfg by (auto simp: one_pair_def p1)
  have g: "go_nth (p_regions p1) 0 = Some r" by (simp add: p1 go_nth_def)
  have fits: "2 * ring_span k \<le> length d" using r(3) N(2) by simp
  let ?qt = "new_queue (p_run p1) ringTypeS2M fd1" and ?qr = "new_queue (p_run p1) ringTypeM2S fd2"
  obtain d' where Q: "initializeQueues env p1 tr1 = Some (None,
      append_queue ringTypeM2S ?qr (append_queue ringTypeS2M ?qt (put_region_data p1 0 d')), tr3)"
    "length d' = length d" "ring_ready d' 0 k (init_desc_ok r ?run ?l)"
    "ring_ready d' (ring_span k) k (init_desc_ok r ?run ?l)"
    using initializeQueues_one_pair [OF c g r(1) fits ev] by (auto simp: p1)
  let ?p2 = "append_queue ringTypeM2S ?qr (append_queue ringTypeS2M ?qt (put_region_data p1 0 d'))"
  have "region_data p1 0 = Some d" using g r(1) by (simp add: region_data_def bytes_of_def)
  then have rd: "region_data ?p2 0 = Some d'" using Q(2) by (simp add: region_data_put)
  have "ring_ready d' off k (\<lambda>s db. desc_is db 0 0 ?l (int (buffer_at ?run k s)))"
    if "off \<in> {0, ring_span k}" for off
    using that Q(3,4) init_desc_ok_buffer [OF cfg r(2)] by (blast intro: ring_ready_mono)
  then have "client_ready ?p2 k d' ?qt ?qr"
    using rd Q(2) r(3) N(2) new_queue_at [OF c] fresh
    by (simp add: client_ready_def append_queue_def p1 put_region_data_def) (simp add: new_queue_def)
  moreover have "?p2 = p\<lparr>p_regions := [r\<lparr>mr_data := Some d'\<rparr>], p_txQueues := [qt], p_rxQueues := [qr]\<rparr>"
    using fresh r(1) by (simp add: append_queue_def put_region_data_def p1 qt_def qr_def)
  moreover have "?qt = qt" "?qr = qr" by (simp_all add: p1 qt_def qr_def)
  ultimately show ?thesis using Q(1) p1 r(4) by metis
qed

text \<open>The server's side of the ring, as \<open>parseAddRing\<close> builds it: same place, same size, nothing
  consumed yet.\<close>

definition peer_queue :: "port \<Rightarrow> queue \<Rightarrow> nat \<Rightarrow> nat \<Rightarrow> nat \<Rightarrow> bool" where
  "peer_queue srv sq k off N \<longleftrightarrow> cfg_IsServer (p_cfg srv) \<and> maps_region srv N \<and> q_at sq k off \<and>
     q_lastHead sq = 0"

lemma ready_wired:
  assumes "one_pair (p_run p) k" and "client_ready p k d qt qr" and "\<not> cfg_IsServer (p_cfg p)"
    and "peer_queue srv sq k off (length d)" and "off = 0 \<and> cq = qt \<or> off = ring_span k \<and> cq = qr"
  shows "wired k off (buffer_at (p_run p) k) (unat (PacketBufferSize (p_run p)))
    \<lparr> ch_mem = d, ch_client = p, ch_cq = cq, ch_server = srv, ch_sq = sq, ch_trace = tr \<rparr>"
proof -
  have off: "off = 0 \<or> off = ring_span k" using assms(5) by auto
  have "slots_point k off (buffer_at (p_run p) k) d"
    using assms(2) off by (fastforce simp: client_ready_def ring_ready_def slots_point_def slot_points_def)
  moreover have "slots_ok k off (buffer_at (p_run p) k) (unat (PacketBufferSize (p_run p))) (length d)"
    using assms(2) by (intro one_pair_slots_ok [OF assms(1) off]) (simp add: client_ready_def)
  ultimately show ?thesis
    using assms by (auto simp: wired_def client_ready_def peer_queue_def maps_region_def)
qed

lemma s2m_established:
  fixes tr :: trace
  assumes "one_pair (p_run p) k" and "client_ready p k d qt qr" and "\<not> cfg_IsServer (p_cfg p)"
    and "peer_queue srv sq k 0 (length d)"
  defines "c \<equiv> \<lparr> ch_mem = d, ch_client = p, ch_cq = qt, ch_server = srv, ch_sq = sq, ch_trace = tr \<rparr>"
  shows "s2m_inv k 0 (buffer_at (p_run p) k) (unat (PacketBufferSize (p_run p))) c"
    "s2m_contents k 0 (buffer_at (p_run p) k) c = []"
  using ready_wired [OF assms(1-4), of qt tr] assms(2,4)
  by (simp_all add: c_def s2m_inv_def s2m_contents_def client_ready_def ring_ready_def peer_queue_def
      pend_ok_def pend_def)

lemma m2s_established:
  fixes tr :: trace
  assumes "one_pair (p_run p) k" and "client_ready p k d qt qr" and "\<not> cfg_IsServer (p_cfg p)"
    and "peer_queue srv sq k (ring_span k) (length d)" and "unat (PacketBufferSize (p_run p)) < 65536"
  defines "c \<equiv> \<lparr> ch_mem = d, ch_client = p, ch_cq = qr, ch_server = srv, ch_sq = sq, ch_trace = tr \<rparr>"
  shows "m2s_inv k (ring_span k) (buffer_at (p_run p) k) (unat (PacketBufferSize (p_run p))) c"
    "m2s_contents k (ring_span k) (buffer_at (p_run p) k) c = []" "m2s_credit (ring_span k) c = 0"
proof -
  have "short_descs k (ring_span k) (buffer_at (p_run p) k) d"
    unfolding short_descs_def
  proof (intro allI impI)
    fix s :: nat assume "s < 2 ^ k"
    then have "desc_is (desc_of d (ring_span k) s) 0 0 (uint (PacketBufferSize (p_run p)))
        (int (buffer_at (p_run p) k s))"
      using assms(2) by (simp add: client_ready_def ring_ready_def)
    moreover have "uint (PacketBufferSize (p_run p)) < 65536"
      using assms(5) unfolding uint_nat by linarith
    ultimately show "\<exists>f l. desc_is (desc_of d (ring_span k) s) f 0 l (int (buffer_at (p_run p) k s)) \<and> l < 65536"
      by (intro exI conjI)
  qed
  moreover have z: "head_of d (ring_span k) = 0" "tail_of d (ring_span k) = 0" "q_lastTail qr = 0"
    using assms(2) by (simp_all add: client_ready_def ring_ready_def)
  moreover have "wired k (ring_span k) (buffer_at (p_run p) k) (unat (PacketBufferSize (p_run p))) c"
    unfolding c_def by (rule ready_wired [OF assms(1-4)]) simp
  ultimately show "m2s_inv k (ring_span k) (buffer_at (p_run p) k) (unat (PacketBufferSize (p_run p))) c"
    using assms(5) by (simp add: c_def m2s_inv_def m2s_slots_def pend_ok_def Let_def)
  show "m2s_contents k (ring_span k) (buffer_at (p_run p) k) c = []"
    by (simp add: c_def m2s_contents_def pend_def z)
  show "m2s_credit (ring_span k) c = 0" by (simp add: c_def m2s_credit_def z)
qed

end
