(* ===== verification/Messages.thy ===== *)
theory Messages
  imports Prelude
begin

text \<open>
  The control messages (\<^verbatim>\<open>src/control_msg.go\<close>, lines 13 to 100): the constants of the protocol,
  the message structs, and their wire format as \<open>binary.Write\<close> and \<open>binary.Read\<close> with
  \<open>binary.LittleEndian\<close> produce and consume it: the fields in order, without padding, arrays as
  they are. \<open>codec\<close> is the contract of such a format; every message of the protocol is an
  instance, so a message that was sent is parsed to itself whatever follows it in the frame.
\<close>

section \<open>Constants\<close>

definition maxEpollEvents :: nat where "maxEpollEvents = 1"
definition maxControlLen :: nat where "maxControlLen = 256"
definition errorFdNotFound :: error where "errorFdNotFound = ''fd not found''"

definition VersionMajor :: nat where "VersionMajor = 2"
definition VersionMinor :: nat where "VersionMinor = 0"
definition Version :: u16 where
  "Version = push_bit 8 (of_nat VersionMajor) OR of_nat VersionMinor"

definition msgTypeNone :: u16 where "msgTypeNone = 0"
definition msgTypeAck :: u16 where "msgTypeAck = 1"
definition msgTypeHello :: u16 where "msgTypeHello = 2"
definition msgTypeInit :: u16 where "msgTypeInit = 3"
definition msgTypeAddRegion :: u16 where "msgTypeAddRegion = 4"
definition msgTypeAddRing :: u16 where "msgTypeAddRing = 5"
definition msgTypeConnect :: u16 where "msgTypeConnect = 6"
definition msgTypeConnected :: u16 where "msgTypeConnected = 7"
definition msgTypeDisconnect :: u16 where "msgTypeDisconnect = 8"

lemmas msgType_defs = msgTypeNone_def msgTypeAck_def msgTypeHello_def msgTypeInit_def
  msgTypeAddRegion_def msgTypeAddRing_def msgTypeConnect_def msgTypeConnected_def
  msgTypeDisconnect_def

lemma msgTypes_distinct:
  "distinct [msgTypeNone, msgTypeAck, msgTypeHello, msgTypeInit, msgTypeAddRegion,
     msgTypeAddRing, msgTypeConnect, msgTypeConnected, msgTypeDisconnect]"
  "distinct [msgTypeDisconnect, msgTypeConnected, msgTypeConnect, msgTypeAddRing,
     msgTypeAddRegion, msgTypeInit, msgTypeHello, msgTypeAck, msgTypeNone]"
  by code_simp+

lemmas msgType_distinct [simp] = msgTypes_distinct [simplified]

definition msgSize :: nat where "msgSize = 128"
definition msgTypeSize :: nat where "msgTypeSize = 2"
definition msgAddRingFlagS2M :: u16 where "msgAddRingFlagS2M = 1"

definition portModeEthernet :: byte where "portModeEthernet = 0"
definition portModeIp :: byte where "portModeIp = 1"
definition portModePuntInject :: byte where "portModePuntInject = 2"

section \<open>Messages\<close>

record MsgHello =
  hello_Name :: "byte list"
  hello_VersionMin :: u16
  hello_VersionMax :: u16
  hello_MaxRegion :: u16
  hello_MaxRingM2S :: u16
  hello_MaxRingS2M :: u16
  hello_MaxLog2RingSize :: byte

record MsgInit =
  init_Version :: u16
  init_Id :: u32
  init_Mode :: byte
  init_Secret :: "byte list"
  init_Name :: "byte list"

record MsgAddRegion =
  areg_Index :: u16
  areg_Size :: u64

record MsgAddRing =
  aring_Flags :: u16
  aring_Index :: u16
  aring_Region :: u16
  aring_Offset :: u32
  aring_RingSizeLog2 :: byte
  aring_PrivateHdrSize :: u16

record MsgConnect =
  connect_Name :: "byte list"

record MsgConnected =
  connected_Name :: "byte list"

record MsgDisconnect =
  dc_Code :: u32
  dc_String :: "byte list"

text \<open>\<open>copy(field[:], []byte(s))\<close> into a zeroed array of \<open>n\<close> bytes.\<close>

definition fixed_field :: "nat \<Rightarrow> string \<Rightarrow> byte list" where
  "fixed_field n s = take n (bytes_of_string s @ replicate n 0)"

lemma length_fixed_field [simp]: "length (fixed_field n s) = n"
  by (simp add: fixed_field_def)

section \<open>Wire format\<close>

text \<open>\<open>io.ReadFull\<close>, which \<open>binary.Read\<close> uses to fetch the bytes of the struct.\<close>

definition read_full :: "nat \<Rightarrow> byte list \<Rightarrow> error + byte list" where
  "read_full n bs =
     (if n \<le> length bs then Inr (take n bs)
      else if bs = [] then Inl ''EOF'' else Inl ''unexpected EOF'')"

definition decode_with :: "nat \<Rightarrow> (byte list \<Rightarrow> 'm) \<Rightarrow> byte list \<Rightarrow> error + 'm" where
  "decode_with n f bs = (case read_full n bs of Inl e \<Rightarrow> Inl e | Inr w \<Rightarrow> Inr (f w))"

definition enc_Hello :: "MsgHello \<Rightarrow> byte list" where
  "enc_Hello m = hello_Name m @ put_le 2 (hello_VersionMin m) @ put_le 2 (hello_VersionMax m) @
     put_le 2 (hello_MaxRegion m) @ put_le 2 (hello_MaxRingM2S m) @ put_le 2 (hello_MaxRingS2M m) @
     [hello_MaxLog2RingSize m]"

definition dec_Hello :: "byte list \<Rightarrow> error + MsgHello" where
  "dec_Hello = decode_with 43 (\<lambda>w.
     \<lparr> hello_Name = window w 0 32, hello_VersionMin = get_le (window w 32 2),
       hello_VersionMax = get_le (window w 34 2), hello_MaxRegion = get_le (window w 36 2),
       hello_MaxRingM2S = get_le (window w 38 2), hello_MaxRingS2M = get_le (window w 40 2),
       hello_MaxLog2RingSize = w ! 42 \<rparr>)"

definition enc_Init :: "MsgInit \<Rightarrow> byte list" where
  "enc_Init m = put_le 2 (init_Version m) @ put_le 4 (init_Id m) @ [init_Mode m] @
     init_Secret m @ init_Name m"

definition dec_Init :: "byte list \<Rightarrow> error + MsgInit" where
  "dec_Init = decode_with 63 (\<lambda>w.
     \<lparr> init_Version = get_le (window w 0 2), init_Id = get_le (window w 2 4),
       init_Mode = w ! 6, init_Secret = window w 7 24, init_Name = window w 31 32 \<rparr>)"

definition enc_AddRegion :: "MsgAddRegion \<Rightarrow> byte list" where
  "enc_AddRegion m = put_le 2 (areg_Index m) @ put_le 8 (areg_Size m)"

definition dec_AddRegion :: "byte list \<Rightarrow> error + MsgAddRegion" where
  "dec_AddRegion = decode_with 10 (\<lambda>w.
     \<lparr> areg_Index = get_le (window w 0 2), areg_Size = get_le (window w 2 8) \<rparr>)"

definition enc_AddRing :: "MsgAddRing \<Rightarrow> byte list" where
  "enc_AddRing m = put_le 2 (aring_Flags m) @ put_le 2 (aring_Index m) @ put_le 2 (aring_Region m) @
     put_le 4 (aring_Offset m) @ [aring_RingSizeLog2 m] @ put_le 2 (aring_PrivateHdrSize m)"

definition dec_AddRing :: "byte list \<Rightarrow> error + MsgAddRing" where
  "dec_AddRing = decode_with 13 (\<lambda>w.
     \<lparr> aring_Flags = get_le (window w 0 2), aring_Index = get_le (window w 2 2),
       aring_Region = get_le (window w 4 2), aring_Offset = get_le (window w 6 4),
       aring_RingSizeLog2 = w ! 10, aring_PrivateHdrSize = get_le (window w 11 2) \<rparr>)"

definition enc_Connect :: "MsgConnect \<Rightarrow> byte list" where
  "enc_Connect m = connect_Name m"

definition dec_Connect :: "byte list \<Rightarrow> error + MsgConnect" where
  "dec_Connect = decode_with 32 (\<lambda>w. \<lparr> connect_Name = w \<rparr>)"

definition enc_Connected :: "MsgConnected \<Rightarrow> byte list" where
  "enc_Connected m = connected_Name m"

definition dec_Connected :: "byte list \<Rightarrow> error + MsgConnected" where
  "dec_Connected = decode_with 32 (\<lambda>w. \<lparr> connected_Name = w \<rparr>)"

definition enc_Disconnect :: "MsgDisconnect \<Rightarrow> byte list" where
  "enc_Disconnect m = put_le 4 (dc_Code m) @ dc_String m"

definition dec_Disconnect :: "byte list \<Rightarrow> error + MsgDisconnect" where
  "dec_Disconnect = decode_with 100 (\<lambda>w.
     \<lparr> dc_Code = get_le (window w 0 4), dc_String = window w 4 96 \<rparr>)"

section \<open>The contract of a wire format\<close>

text \<open>\<open>wf\<close> says that the arrays of the struct have their declared lengths.\<close>

locale codec =
  fixes enc :: "'m \<Rightarrow> byte list"
    and dec :: "byte list \<Rightarrow> error + 'm"
    and size :: nat
    and wf :: "'m \<Rightarrow> bool"
  assumes enc_length: "wf m \<Longrightarrow> length (enc m) = size"
    and dec_enc: "wf m \<Longrightarrow> dec (enc m) = Inr m"
    and dec_prefix: "size \<le> length bs \<Longrightarrow> dec bs = dec (take size bs)"
    and dec_short: "length bs < size \<Longrightarrow> \<exists>e. dec bs = Inl e"
    and enc_dec: "length bs = size \<Longrightarrow> \<exists>m. dec bs = Inr m \<and> wf m \<and> enc m = bs"
begin

text \<open>A frame is the message type, the message, and whatever bytes follow.\<close>

lemma frame:
  assumes "wf m"
  shows "dec (drop msgTypeSize (put_le 2 (t :: u16) @ enc m @ rest)) = Inr m"
proof -
  have "size \<le> length (enc m @ rest)" using enc_length [OF assms] by simp
  then have "dec (enc m @ rest) = dec (enc m)" using dec_prefix [of "enc m @ rest"] enc_length [OF assms] by simp
  then show ?thesis using dec_enc [OF assms] by (simp add: msgTypeSize_def)
qed

lemma dec_total:
  assumes "size \<le> length bs"
  shows "\<exists>m. dec bs = Inr m \<and> wf m \<and> enc m = take size bs"
  using enc_dec [of "take size bs"] dec_prefix [OF assms] assms by simp

lemma enc_inj: "wf m \<Longrightarrow> wf m' \<Longrightarrow> enc m = enc m' \<Longrightarrow> m = m'"
  using dec_enc by (metis sum.inject(2))

end

lemma window_Cons_append:
  "length xs = n \<Longrightarrow> window (xs @ ys) 0 n = xs"
  "length xs \<le> i \<Longrightarrow> window (xs @ ys) i n = window ys (i - length xs) n"
  by (simp_all add: window_def)

lemma window_Cons: "0 < i \<Longrightarrow> window (x # xs) i n = window xs (i - 1) n"
  by (simp add: window_def drop_Cons')

lemma window_split:
  "j = i + n \<Longrightarrow> window xs i n @ window xs j m = window xs i (n + m)"
  "j = i + n \<Longrightarrow> window xs i n @ window xs j m @ ys = window xs i (n + m) @ ys"
proof -
  show eq: "window xs i n @ window xs j m = window xs i (n + m)" if "j = i + n"
    using that take_add [of n m "drop i xs"] by (simp add: window_def add.commute)
  show "window xs i n @ window xs j m @ ys = window xs i (n + m) @ ys" if "j = i + n"
    using eq [OF that] by (metis append_assoc)
qed

lemma put_get_window:
  assumes "8 * n \<le> LENGTH('a::len)" and "i + n \<le> length xs"
  shows "put_le n (get_le (window xs i n) :: 'a word) = window xs i n"
  using put_get_le [of "window xs i n", where 'a = 'a] assms by simp

lemma single_byte_window: "i < length xs \<Longrightarrow> xs ! i # ys = window xs i 1 @ ys"
  by (simp add: window_def take_Suc hd_drop_conv_nth)

lemma decode_with_short: "length bs < n \<Longrightarrow> \<exists>e. decode_with n f bs = Inl e"
  by (simp add: decode_with_def read_full_def)

lemma decode_with_prefix: "n \<le> length bs \<Longrightarrow> decode_with n f bs = decode_with n f (take n bs)"
  by (simp add: decode_with_def read_full_def)

lemma decode_with_exact: "length bs = n \<Longrightarrow> decode_with n f bs = Inr (f bs)"
  by (simp add: decode_with_def read_full_def)

lemmas codec_simps = decode_with_exact window_Cons_append put_get_window window_split
  single_byte_window nth_append window_Cons

interpretation hello: codec enc_Hello dec_Hello 43 "\<lambda>m. length (hello_Name m) = 32"
proof
  fix bs :: "byte list"
  assume "length bs = 43"
  then show "\<exists>m. dec_Hello bs = Inr m \<and> length (hello_Name m) = 32 \<and> enc_Hello m = bs"
    by (simp add: dec_Hello_def enc_Hello_def codec_simps)
qed (auto simp: dec_Hello_def enc_Hello_def codec_simps decode_with_prefix decode_with_short)

interpretation initm: codec enc_Init dec_Init 63 "\<lambda>m. length (init_Secret m) = 24 \<and> length (init_Name m) = 32"
proof
  fix bs :: "byte list"
  assume "length bs = 63"
  then show "\<exists>m. dec_Init bs = Inr m \<and> (length (init_Secret m) = 24 \<and> length (init_Name m) = 32) \<and> enc_Init m = bs"
    by (simp add: dec_Init_def enc_Init_def codec_simps)
qed (auto simp: dec_Init_def enc_Init_def codec_simps decode_with_prefix decode_with_short)

interpretation aregion: codec enc_AddRegion dec_AddRegion 10 "\<lambda>m. True"
proof
  fix bs :: "byte list"
  assume "length bs = 10"
  then show "\<exists>m. dec_AddRegion bs = Inr m \<and> True \<and> enc_AddRegion m = bs"
    by (simp add: dec_AddRegion_def enc_AddRegion_def codec_simps)
qed (auto simp: dec_AddRegion_def enc_AddRegion_def codec_simps decode_with_prefix decode_with_short)

interpretation aring: codec enc_AddRing dec_AddRing 13 "\<lambda>m. True"
proof
  fix bs :: "byte list"
  assume "length bs = 13"
  then show "\<exists>m. dec_AddRing bs = Inr m \<and> True \<and> enc_AddRing m = bs"
    by (simp add: dec_AddRing_def enc_AddRing_def codec_simps)
qed (auto simp: dec_AddRing_def enc_AddRing_def codec_simps decode_with_prefix decode_with_short)

interpretation conn: codec enc_Connect dec_Connect 32 "\<lambda>m. length (connect_Name m) = 32"
proof
  fix bs :: "byte list"
  assume "length bs = 32"
  then show "\<exists>m. dec_Connect bs = Inr m \<and> length (connect_Name m) = 32 \<and> enc_Connect m = bs"
    by (simp add: dec_Connect_def enc_Connect_def codec_simps)
qed (auto simp: dec_Connect_def enc_Connect_def codec_simps decode_with_prefix decode_with_short)

interpretation connd: codec enc_Connected dec_Connected 32 "\<lambda>m. length (connected_Name m) = 32"
proof
  fix bs :: "byte list"
  assume "length bs = 32"
  then show "\<exists>m. dec_Connected bs = Inr m \<and> length (connected_Name m) = 32 \<and> enc_Connected m = bs"
    by (simp add: dec_Connected_def enc_Connected_def codec_simps)
qed (auto simp: dec_Connected_def enc_Connected_def codec_simps decode_with_prefix decode_with_short)

interpretation disc: codec enc_Disconnect dec_Disconnect 100 "\<lambda>m. length (dc_String m) = 96"
proof
  fix bs :: "byte list"
  assume "length bs = 100"
  then show "\<exists>m. dec_Disconnect bs = Inr m \<and> length (dc_String m) = 96 \<and> enc_Disconnect m = bs"
    by (simp add: dec_Disconnect_def enc_Disconnect_def codec_simps)
qed (auto simp: dec_Disconnect_def enc_Disconnect_def codec_simps decode_with_prefix decode_with_short)

end
