(* ===== verification/Cmsg.thy ===== *)
theory Cmsg
  imports Messages
begin

text \<open>
  File descriptors in the ancillary data of a control message: \<open>parseControlMsg\<close>
  (\<^verbatim>\<open>src/control_msg.go\<close>) and what it uses of Go's \<open>syscall\<close> package on 64-bit Linux,
  \<open>ParseSocketControlMessage\<close>, \<open>ParseUnixRights\<close> and \<open>UnixRights\<close>. The lemmas show that the
  descriptor a sender attaches is the one the receiver gets, also when the kernel puts other
  messages (the credentials that \<open>SO_PASSCRED\<close> asks for) before or after it.
\<close>

section \<open>Model\<close>

definition SOL_SOCKET :: u32 where "SOL_SOCKET = 1"
definition SCM_RIGHTS :: u32 where "SCM_RIGHTS = 1"
definition SCM_CREDENTIALS :: u32 where "SCM_CREDENTIALS = 2"
definition EINVAL :: error where "EINVAL = ''invalid argument''"

definition sizeofCmsghdr :: nat where "sizeofCmsghdr = 16"

text \<open>\<open>cmsgAlignOf\<close>: round up to a multiple of 8.\<close>

definition cmsgAlignOf :: "nat \<Rightarrow> nat" where
  "cmsgAlignOf n = (n + 7) div 8 * 8"

record socketControlMessage =
  scm_Level :: u32
  scm_Type :: u32
  scm_Data :: "byte list"

lemma cmsgAlignOf_ge: "n \<le> cmsgAlignOf n"
  by (simp add: cmsgAlignOf_def)

function parseSocketControlMessage :: "byte list \<Rightarrow> error + socketControlMessage list" where
  "parseSocketControlMessage b =
     (if length b < sizeofCmsghdr then Inr []
      else let len = unat (get_le (window b 0 8) :: u64) in
        if len < sizeofCmsghdr \<or> length b < len then Inl EINVAL
        else case parseSocketControlMessage (drop (cmsgAlignOf len) b) of
               Inl e \<Rightarrow> Inl e
             | Inr ms \<Rightarrow> Inr (\<lparr> scm_Level = get_le (window b 8 4), scm_Type = get_le (window b 12 4),
                                scm_Data = window b 16 (len - 16) \<rparr> # ms))"
  by pat_completeness auto

termination
proof (relation "measure length", simp)
  fix b :: "byte list" and len
  assume "\<not> length b < sizeofCmsghdr" "\<not> (len < sizeofCmsghdr \<or> length b < len)"
  then show "(drop (cmsgAlignOf len) b, b) \<in> measure length"
    using cmsgAlignOf_ge [of len] by (auto simp: sizeofCmsghdr_def)
qed

declare parseSocketControlMessage.simps [simp del]

text \<open>\<open>ParseUnixRights\<close> on the data of a message of the right level and type. A trailing piece
  shorter than a descriptor makes it index past the slice it allocated.\<close>

fun parse_fds :: "byte list \<Rightarrow> int list option" where
  "parse_fds [] = Some []"
| "parse_fds (a # b # c # d # rest) =
     map_option ((#) (sint (get_le [a, b, c, d] :: u32))) (parse_fds rest)"
| "parse_fds _ = None"

definition parseUnixRights :: "socketControlMessage \<Rightarrow> (error + int list) option" where
  "parseUnixRights m =
     (if scm_Level m \<noteq> SOL_SOCKET then Some (Inl EINVAL)
      else if scm_Type m \<noteq> SCM_RIGHTS then Some (Inl EINVAL)
      else map_option Inr (parse_fds (scm_Data m)))"

text \<open>\<open>UnixRights(fd)\<close>: \<open>CmsgSpace(4)\<close> bytes, the header and the descriptor.\<close>

definition unixRights :: "int \<Rightarrow> byte list" where
  "unixRights fd = put_le 8 (20 :: u64) @ put_le 4 SOL_SOCKET @ put_le 4 SCM_RIGHTS @
     put_le 4 (word_of_int fd :: u32) @ replicate 4 0"

text \<open>The loop over the messages; the variable \<open>fd\<close> keeps the first descriptor of the last
  message that has any.\<close>

fun control_loop :: "socketControlMessage list \<Rightarrow> int \<Rightarrow> (error + int) option" where
  "control_loop [] fd = Some (Inr fd)"
| "control_loop (cmsg # ms) fd =
     (if scm_Level cmsg = SOL_SOCKET \<and> scm_Type cmsg = SCM_RIGHTS then do {
        r \<leftarrow> parseUnixRights cmsg;
        (case r of
           Inl e \<Rightarrow> Some (Inl (''syscall.ParseUnixRights: '' @ e))
         | Inr [] \<Rightarrow> control_loop ms fd
         | Inr (f # _) \<Rightarrow> control_loop ms f) }
      else control_loop ms fd)"

definition parseControlMsg :: "byte list \<Rightarrow> int \<Rightarrow> (error + int) option" where
  "parseControlMsg control controlLen = do {
     b \<leftarrow> go_range control 0 controlLen;
     (case parseSocketControlMessage b of
        Inl e \<Rightarrow> Some (Inl (''syscall.ParseSocketControlMessage: '' @ e))
      | Inr [] \<Rightarrow> Some (Inl ''missing control message'')
      | Inr ms \<Rightarrow> do {
          r \<leftarrow> control_loop ms (- 1);
          (case r of
             Inl e \<Rightarrow> Some (Inl e)
           | Inr fd \<Rightarrow> if fd = - 1 then Some (Inl ''missing file descriptor'') else Some (Inr fd)) }) }"

section \<open>Parsing what was built\<close>

text \<open>The bytes of one message, with the padding to a multiple of 8 that \<open>CmsgSpace\<close> reserves.\<close>

definition cmsg_bytes :: "socketControlMessage \<Rightarrow> byte list" where
  "cmsg_bytes m = put_le 8 (of_nat (16 + length (scm_Data m)) :: u64) @ put_le 4 (scm_Level m) @
     put_le 4 (scm_Type m) @ scm_Data m @
     replicate (cmsgAlignOf (16 + length (scm_Data m)) - (16 + length (scm_Data m))) 0"

lemma length_cmsg_bytes [simp]: "length (cmsg_bytes m) = cmsgAlignOf (16 + length (scm_Data m))"
  using cmsgAlignOf_ge [of "16 + length (scm_Data m)"] by (simp add: cmsg_bytes_def)

lemma unixRights_bytes:
  "unixRights fd = cmsg_bytes \<lparr> scm_Level = SOL_SOCKET, scm_Type = SCM_RIGHTS,
     scm_Data = put_le 4 (word_of_int fd :: u32) \<rparr>"
  by (simp add: unixRights_def cmsg_bytes_def cmsgAlignOf_def)

lemma parse_cmsg_bytes:
  assumes "length (scm_Data m) < 2 ^ 32"
  shows "parseSocketControlMessage (cmsg_bytes m @ rest) =
     (case parseSocketControlMessage rest of Inl e \<Rightarrow> Inl e | Inr ms \<Rightarrow> Inr (m # ms))"
proof -
  let ?n = "16 + length (scm_Data m)" and ?b = "cmsg_bytes m @ rest"
  have "unat (of_nat ?n :: u64) = ?n"
    using assms by (intro of_nat_inverse [OF refl]) simp
  moreover have "get_le (window ?b 0 8) = (of_nat ?n :: u64)"
    by (simp add: cmsg_bytes_def codec_simps)
  ultimately have len: "unat (get_le (window ?b 0 8) :: u64) = ?n" by simp
  have "window ?b 16 (length (scm_Data m)) = scm_Data m"
    by (simp add: cmsg_bytes_def codec_simps)
  moreover have "get_le (window ?b 8 4) = scm_Level m" "get_le (window ?b 12 4) = scm_Type m"
    by (simp_all add: cmsg_bytes_def codec_simps)
  moreover have "drop (cmsgAlignOf ?n) ?b = rest" by simp
  moreover have "?n \<le> length ?b" using cmsgAlignOf_ge [of ?n] by simp
  ultimately show ?thesis
    by (subst parseSocketControlMessage.simps) (simp add: len sizeofCmsghdr_def Let_def split: sum.split)
qed

lemma parse_nil: "parseSocketControlMessage [] = Inr []"
  by (simp add: parseSocketControlMessage.simps sizeofCmsghdr_def)

lemma parse_messages:
  "(\<And>m. m \<in> set ms \<Longrightarrow> length (scm_Data m) < 2 ^ 32) \<Longrightarrow>
     parseSocketControlMessage (concat (map cmsg_bytes ms)) = Inr ms"
proof (induction ms)
  case Nil
  then show ?case by (simp add: parse_nil)
next
  case (Cons m ms)
  then show ?case using parse_cmsg_bytes [of m] by simp
qed

text \<open>Messages without descriptors do not touch the result of the loop.\<close>

lemma control_loop_skip:
  "(\<And>m. m \<in> set ms \<Longrightarrow> \<not> (scm_Level m = SOL_SOCKET \<and> scm_Type m = SCM_RIGHTS)) \<Longrightarrow>
     control_loop (ms @ ms') fd = control_loop ms' fd"
  by (induction ms) auto

lemma parse_fds_one:
  assumes "- (2 ^ 31) \<le> fd" "fd < 2 ^ 31"
  shows "parse_fds (put_le 4 (word_of_int fd :: u32)) = Some [fd]"
proof -
  let ?bs = "put_le 4 (word_of_int fd :: u32)"
  have "length ?bs = 4" by simp
  then obtain a b c d where bs: "?bs = [a, b, c, d]"
    by (auto simp: length_Suc_conv numeral_eq_Suc)
  have "get_le [a, b, c, d] = (word_of_int fd :: u32)" unfolding bs [symmetric] by simp
  moreover have "sint (word_of_int fd :: u32) = fd"
    using assms by (simp add: signed_take_bit_int_eq_self signed_of_int)
  ultimately show ?thesis by (simp add: bs)
qed

lemma parseControlMsg_fd:
  assumes pre: "\<And>m. m \<in> set ms \<Longrightarrow> \<not> (scm_Level m = SOL_SOCKET \<and> scm_Type m = SCM_RIGHTS)"
    and post: "\<And>m. m \<in> set ms' \<Longrightarrow> \<not> (scm_Level m = SOL_SOCKET \<and> scm_Type m = SCM_RIGHTS)"
    and len: "\<And>m. m \<in> set (ms @ ms') \<Longrightarrow> length (scm_Data m) < 2 ^ 32"
    and fd: "0 \<le> fd" "fd < 2 ^ 31"
    and c: "window control 0 n = concat (map cmsg_bytes ms) @ unixRights fd @ concat (map cmsg_bytes ms')"
    and n: "n \<le> length control"
  shows "parseControlMsg control (int n) = Some (Inr fd)"
proof -
  define r where "r = \<lparr> scm_Level = SOL_SOCKET, scm_Type = SCM_RIGHTS,
    scm_Data = put_le 4 (word_of_int fd :: u32) \<rparr>"
  have "parseSocketControlMessage (window control 0 n) =
      parseSocketControlMessage (concat (map cmsg_bytes (ms @ r # ms')))"
    by (simp add: c unixRights_bytes r_def)
  also have "\<dots> = Inr (ms @ r # ms')"
    using len by (intro parse_messages) (auto simp: r_def)
  finally have p: "parseSocketControlMessage (window control 0 n) = Inr (ms @ r # ms')" .
  have "control_loop (ms @ r # ms') (- 1) = control_loop (ms' @ []) fd"
    using parse_fds_one [of fd] fd pre
    by (simp add: control_loop_skip r_def parseUnixRights_def)
  also have "\<dots> = Some (Inr fd)" using post by (subst control_loop_skip) auto
  finally show ?thesis
    using p n fd by (cases ms) (simp_all add: parseControlMsg_def go_range_def)
qed

end
