(* ===== verification/Control.thy ===== *)
theory Control
  imports Mem_Region Cmsg
begin

text \<open>
  The control channel (\<^verbatim>\<open>src/control_msg.go\<close>, lines 100 to 851), the connection life cycle of a
  port (\<open>connect\<close>, \<open>disconnect\<close>, \<open>Disconnect\<close>, \<open>Delete\<close>, \<open>RequestConnection\<close> of
  \<^verbatim>\<open>src/port.go\<close>) and the parts of the socket they use (\<open>addEvent\<close>, \<open>delEvent\<close> of
  \<^verbatim>\<open>src/socket.go\<close>).

  The objects the code shares by pointer (ports and control channels refer to each other and to
  the socket) live in two stores of the socket, \<open>s_ports\<close> and \<open>s_ccs\<close>, under numbers; a pointer is
  a number, \<open>nil\<close> is \<open>None\<close>, and following \<open>nil\<close> panics. The element lists of the code
  (\<open>container/list\<close>) are lists of numbers. An operation returns \<open>None\<close> when the code panics,
  otherwise its error (\<open>None\<close> is the \<open>nil\<close> error) and the socket afterwards; the system calls
  made are recorded in \<open>s_trace\<close>.
\<close>

section \<open>State\<close>

record controlMsg =
  cm_Buffer :: "byte list"
  cm_Fd :: int

record controlChannel =
  cc_port :: "nat option"
  cc_fd :: int
  cc_data :: "byte list"
  cc_control :: "byte list"
  cc_controlLen :: int
  cc_msgQueue :: "controlMsg list"
  cc_isConnected :: bool

text \<open>\<open>s_listener\<close> is the descriptor of the listener's event; \<open>s_stopPollChan\<close> is \<open>None\<close> for
  \<open>nil\<close>, otherwise whether the channel is closed; \<open>s_ErrChan\<close> is what was sent to the channel,
  oldest first.\<close>

record socket =
  s_appName :: string
  s_filename :: string
  s_listener :: "int option"
  s_portList :: "nat list"
  s_ccList :: "nat list"
  s_epfd :: int
  s_wakeFd :: int
  s_stopPollChan :: "bool option"
  s_ErrChan :: "error list"
  s_ports :: "nat \<rightharpoonup> port"
  s_ccs :: "nat \<rightharpoonup> controlChannel"
  s_next :: nat
  s_trace :: trace

type_synonym result = "(error option \<times> socket) option"

section \<open>Sequencing\<close>

text \<open>\<open>r ;; f\<close> of the code's idiom \<open>err = r; if err != nil { return err }; f\<close>, and the same
  with a text put before the error.\<close>

definition and_then :: "result \<Rightarrow> (socket \<Rightarrow> result) \<Rightarrow> result" where
  "and_then r f = do {
     (err, s) \<leftarrow> r;
     (case err of None \<Rightarrow> f s | Some e \<Rightarrow> Some (Some e, s)) }"

definition wrap_err :: "string \<Rightarrow> result \<Rightarrow> result" where
  "wrap_err msg r = map_option (\<lambda>(err, s). (map_option ((@) msg) err, s)) r"

definition int32 :: "int \<Rightarrow> int" where
  "int32 i = sint (word_of_int i :: u32)"

definition put_port :: "nat \<Rightarrow> port \<Rightarrow> socket \<Rightarrow> socket" where
  "put_port i p s = s\<lparr>s_ports := (s_ports s)(i \<mapsto> p)\<rparr>"

definition put_cc :: "nat \<Rightarrow> controlChannel \<Rightarrow> socket \<Rightarrow> socket" where
  "put_cc c cc s = s\<lparr>s_ccs := (s_ccs s)(c \<mapsto> cc)\<rparr>"

definition log_sys :: "sysevent \<Rightarrow> socket \<Rightarrow> socket" where
  "log_sys ev s = s\<lparr>s_trace := ev # s_trace s\<rparr>"

text \<open>\<open>cc.port\<close> followed: a panic when it is \<open>nil\<close>.\<close>

definition port_of :: "nat \<Rightarrow> socket \<Rightarrow> (nat \<times> port) option" where
  "port_of c s = do {
     cc \<leftarrow> s_ccs s c;
     i \<leftarrow> cc_port cc;
     p \<leftarrow> s_ports s i;
     Some (i, p) }"

section \<open>Events and messages\<close>

definition addEvent :: "env \<Rightarrow> int \<Rightarrow> socket \<Rightarrow> result" where
  "addEvent env fd s =
     Some (map_option ((@) ''EpollCtl: '') (epoll_add env (s_trace s) (s_epfd s) fd),
           log_sys (SysEpollAdd (s_epfd s) fd) s)"

definition delEvent :: "env \<Rightarrow> int \<Rightarrow> socket \<Rightarrow> result" where
  "delEvent env fd s =
     Some (map_option ((@) ''EpollCtl: '') (epoll_del env (s_trace s) (s_epfd s) fd),
           log_sys (SysEpollDel (s_epfd s) fd) s)"

text \<open>The \<open>msgSize\<close> bytes from the start of the buffer: the memory behind a shorter buffer is
  sent as well.\<close>

definition frame_bytes :: "env \<Rightarrow> trace \<Rightarrow> byte list \<Rightarrow> byte list" where
  "frame_bytes env tr buf = take msgSize (buf @ map (sendmsg_tail env tr) [0..<msgSize - length buf])"

definition sendMsg :: "env \<Rightarrow> nat \<Rightarrow> socket \<Rightarrow> result" where
  "sendMsg env c s = do {
     cc \<leftarrow> s_ccs s c;
     (case cc_msgQueue cc of
        [] \<Rightarrow> Some (None, s)
      | msg # rest \<Rightarrow>
          if cm_Buffer msg = [] then None
          else
            let s1 = put_cc c (cc\<lparr>cc_msgQueue := rest\<rparr>) s;
                bs = frame_bytes env (s_trace s) (cm_Buffer msg);
                ctl = (if 0 < cm_Fd msg then unixRights (cm_Fd msg) else [])
            in Some (map_option ((@) ''SYS_SENDMSG: '') (sendmsg env (s_trace s) (cc_fd cc) bs ctl),
                     log_sys (SysSendmsg (cc_fd cc) bs ctl) s1)) }"

definition msg_enq :: "nat \<Rightarrow> byte list \<Rightarrow> int \<Rightarrow> socket \<Rightarrow> result" where
  "msg_enq c buf fd s = do {
     cc \<leftarrow> s_ccs s c;
     Some (None, put_cc c (cc\<lparr>cc_msgQueue := cc_msgQueue cc @ [\<lparr>cm_Buffer = buf, cm_Fd = fd\<rparr>]\<rparr>) s) }"

definition msgEnqAck :: "nat \<Rightarrow> socket \<Rightarrow> result" where
  "msgEnqAck c s = msg_enq c (put_le 2 msgTypeAck) (- 1) s"

definition hello_msg :: "string \<Rightarrow> MsgHello" where
  "hello_msg appName =
     \<lparr> hello_Name = fixed_field 32 appName, hello_VersionMin = Version, hello_VersionMax = Version,
       hello_MaxRegion = 255, hello_MaxRingM2S = 255, hello_MaxRingS2M = 255,
       hello_MaxLog2RingSize = 14 \<rparr>"

definition msgEnqHello :: "nat \<Rightarrow> socket \<Rightarrow> result" where
  "msgEnqHello c s = msg_enq c (put_le 2 msgTypeHello @ enc_Hello (hello_msg (s_appName s))) (- 1) s"

definition min16 :: "u16 \<Rightarrow> u16 \<Rightarrow> u16" where
  "min16 a b = (if a < b then a else b)"

definition min8 :: "byte \<Rightarrow> byte \<Rightarrow> byte" where
  "min8 a b = (if a < b then a else b)"

text \<open>The two assignments to \<open>NumQueuePairs\<close> of the code, in order.\<close>

definition hello_run :: "MemoryConfig \<Rightarrow> MsgHello \<Rightarrow> MemoryConfig" where
  "hello_run cfg hello =
     (let r1 = cfg\<lparr>NumQueuePairs := min16 (NumQueuePairs cfg) (hello_MaxRingS2M hello)\<rparr>;
          r2 = r1\<lparr>NumQueuePairs := min16 (NumQueuePairs cfg) (hello_MaxRingM2S hello)\<rparr>
      in r2\<lparr>Log2RingSize := min8 (Log2RingSize cfg) (hello_MaxLog2RingSize hello)\<rparr>)"

definition parseHello :: "nat \<Rightarrow> socket \<Rightarrow> result" where
  "parseHello c s = do {
     cc \<leftarrow> s_ccs s c;
     (case dec_Hello (drop msgTypeSize (cc_data cc)) of
        Inl e \<Rightarrow> Some (Some e, s)
      | Inr hello \<Rightarrow>
          if hello_VersionMin hello > Version \<or> hello_VersionMax hello < Version
          then Some (Some ''incompatible memif version'', s)
          else do {
            (i, p) \<leftarrow> port_of c s;
            Some (None, put_port i (p\<lparr>p_run := hello_run (cfg_MemoryConfig (p_cfg p)) hello,
                                     p_remoteName := string_of_bytes (hello_Name hello)\<rparr>) s) }) }"

definition init_msg :: "string \<Rightarrow> u32 \<Rightarrow> MsgInit" where
  "init_msg appName ident =
     \<lparr> init_Version = Version, init_Id = ident, init_Mode = portModeEthernet,
       init_Secret = replicate 24 0, init_Name = fixed_field 32 appName \<rparr>"

definition msgEnqInit :: "nat \<Rightarrow> socket \<Rightarrow> result" where
  "msgEnqInit c s = do {
     (i, p) \<leftarrow> port_of c s;
     msg_enq c (put_le 2 msgTypeInit @ enc_Init (init_msg (s_appName s) (cfg_Id (p_cfg p)))) (- 1) s }"

text \<open>The search for the port a client asks for.\<close>

fun find_peer :: "(nat \<rightharpoonup> port) \<Rightarrow> nat list \<Rightarrow> u32 \<Rightarrow> (nat \<times> port) option" where
  "find_peer ports [] ident = None"
| "find_peer ports (i # is) ident =
     (case ports i of
        Some p \<Rightarrow>
          if cfg_Id (p_cfg p) = ident \<and> cfg_IsServer (p_cfg p) \<and> p_cc p = None then Some (i, p)
          else find_peer ports is ident
      | None \<Rightarrow> find_peer ports is ident)"

definition parseInit :: "nat \<Rightarrow> socket \<Rightarrow> result" where
  "parseInit c s = do {
     cc \<leftarrow> s_ccs s c;
     (case dec_Init (drop msgTypeSize (cc_data cc)) of
        Inl e \<Rightarrow> Some (Some e, s)
      | Inr init \<Rightarrow>
          if init_Version init \<noteq> Version then Some (Some ''incompatible memif driver version'', s)
          else
            (case find_peer (s_ports s) (s_portList s) (init_Id init) of
               None \<Rightarrow> Some (Some ''invalid interface id'', s)
             | Some (i, p) \<Rightarrow>
                 if cfg_Secret (p_cfg p) \<noteq> init_Secret init then Some (Some ''invalid secret'', s)
                 else Some (None,
                   put_cc c (cc\<lparr>cc_port := Some i\<rparr>)
                     (put_port i (p\<lparr>p_cc := Some c, p_run := cfg_MemoryConfig (p_cfg p),
                                    p_remoteName := string_of_bytes (init_Name init)\<rparr>) s)))) }"

definition msgEnqAddRegion :: "nat \<Rightarrow> u16 \<Rightarrow> socket \<Rightarrow> result" where
  "msgEnqAddRegion c regionIndex s = do {
     (i, p) \<leftarrow> port_of c s;
     (if length (p_regions p) \<le> unat regionIndex then Some (Some ''invalid region index'', s)
      else
        let r = p_regions p ! unat regionIndex
        in msg_enq c (put_le 2 msgTypeAddRegion @
             enc_AddRegion \<lparr> areg_Index = regionIndex, areg_Size = mr_size r \<rparr>) (mr_fd r) s) }"

definition parseAddRegion :: "nat \<Rightarrow> socket \<Rightarrow> result" where
  "parseAddRegion c s = do {
     cc \<leftarrow> s_ccs s c;
     (case dec_AddRegion (drop msgTypeSize (cc_data cc)) of
        Inl e \<Rightarrow> Some (Some e, s)
      | Inr m \<Rightarrow> do {
          r \<leftarrow> parseControlMsg (cc_control cc) (cc_controlLen cc);
          (case r of
             Inl e \<Rightarrow> Some (Some (''parseControlMsg: '' @ e), s)
           | Inr fd \<Rightarrow>
               if areg_Index m > 255 then Some (Some ''invalid memory region index'', s)
               else do {
                 (i, p) \<leftarrow> port_of c s;
                 Some (None, put_port i (p\<lparr>p_regions := p_regions p @
                   [\<lparr> mr_data = None, mr_size = areg_Size m, mr_fd = fd, mr_packetBufferOffset = 0 \<rparr>]\<rparr>) s) }) }) }"

definition add_ring_msg :: "ringType \<Rightarrow> u16 \<Rightarrow> queue \<Rightarrow> MsgAddRing" where
  "add_ring_msg rt ringIndex q =
     \<lparr> aring_Flags = (if rt = ringTypeS2M then msgAddRingFlagS2M else 0), aring_Index = ringIndex,
       aring_Region = word_of_int (ring_region (q_ring q)),
       aring_Offset = word_of_int (ring_offset (q_ring q)),
       aring_RingSizeLog2 = word_of_int (ring_log2Size (q_ring q)), aring_PrivateHdrSize = 0 \<rparr>"

definition msgEnqAddRing :: "nat \<Rightarrow> ringType \<Rightarrow> u16 \<Rightarrow> socket \<Rightarrow> result" where
  "msgEnqAddRing c rt ringIndex s = do {
     (i, p) \<leftarrow> port_of c s;
     q \<leftarrow> go_nth (if rt = ringTypeS2M then p_txQueues p else p_rxQueues p) (uint ringIndex);
     msg_enq c (put_le 2 msgTypeAddRing @ enc_AddRing (add_ring_msg rt ringIndex q)) (q_interruptFd q) s }"

definition parseAddRing :: "nat \<Rightarrow> socket \<Rightarrow> result" where
  "parseAddRing c s = do {
     cc \<leftarrow> s_ccs s c;
     (case dec_AddRing (drop msgTypeSize (cc_data cc)) of
        Inl e \<Rightarrow> Some (Some e, s)
      | Inr m \<Rightarrow> do {
          r \<leftarrow> parseControlMsg (cc_control cc) (cc_controlLen cc);
          (case r of
             Inl e \<Rightarrow> Some (Some e, s)
           | Inr fd \<Rightarrow> do {
               (i, p) \<leftarrow> port_of c s;
               (if aring_Index m \<ge> NumQueuePairs (p_run p) then Some (Some ''invalid ring index'', s)
                else if aring_Flags m AND msgAddRingFlagS2M = msgAddRingFlagS2M then do {
                  r \<leftarrow> newRing (uint (aring_Region m)) ringTypeS2M (uint (aring_Offset m)) (uint (aring_RingSizeLog2 m));
                  Some (None, put_port i (p\<lparr>p_rxQueues := p_rxQueues p @
                    [\<lparr> q_ring = r, q_lastHead = 0, q_lastTail = 0, q_interruptFd = fd \<rparr>]\<rparr>) s) }
                else do {
                  r \<leftarrow> newRing (uint (aring_Region m)) ringTypeM2S (uint (aring_Offset m)) (uint (aring_RingSizeLog2 m));
                  Some (None, put_port i (p\<lparr>p_txQueues := p_txQueues p @
                    [\<lparr> q_ring = r, q_lastHead = 0, q_lastTail = 0, q_interruptFd = fd \<rparr>]\<rparr>) s) }) }) }) }"

definition msgEnqConnect :: "nat \<Rightarrow> socket \<Rightarrow> result" where
  "msgEnqConnect c s = do {
     (i, p) \<leftarrow> port_of c s;
     msg_enq c (put_le 2 msgTypeConnect @
       enc_Connect \<lparr> connect_Name = fixed_field 32 (cfg_Name (p_cfg p)) \<rparr>) (- 1) s }"

definition msgEnqConnected :: "nat \<Rightarrow> socket \<Rightarrow> result" where
  "msgEnqConnected c s = do {
     (i, p) \<leftarrow> port_of c s;
     msg_enq c (put_le 2 msgTypeConnected @
       enc_Connected \<lparr> connected_Name = fixed_field 32 (cfg_Name (p_cfg p)) \<rparr>) (- 1) s }"

definition msgEnqDisconnect :: "nat \<Rightarrow> string \<Rightarrow> socket \<Rightarrow> result" where
  "msgEnqDisconnect c str s =
     msg_enq c (put_le 2 msgTypeDisconnect @
       enc_Disconnect \<lparr> dc_Code = 0, dc_String = fixed_field 96 str \<rparr>) (- 1) s"

section \<open>Connecting and disconnecting a port\<close>

text \<open>\<open>defaultDisconnectedFunc\<close>: closing a closed channel panics. Its wait for the application's
  goroutines is taken to return.\<close>

definition defaultDisconnectedFunc :: "nat \<Rightarrow> socket \<Rightarrow> result" where
  "defaultDisconnectedFunc i s = do {
     p \<leftarrow> s_ports s i;
     (if p_QuitChan p \<or> p_ErrChan p then None
      else Some (None, put_port i (p\<lparr>p_QuitChan := True, p_ErrChan := True\<rparr>) s)) }"

definition call_ConnectedFunc :: "env \<Rightarrow> nat \<Rightarrow> socket \<Rightarrow> result" where
  "call_ConnectedFunc env i s = do {
     p \<leftarrow> s_ports s i;
     (case cfg_ConnectedFunc (p_cfg p) of
        NilFunc \<Rightarrow> None
      | UserFunc \<Rightarrow> Some (connectedFunc env (s_trace s) i, log_sys (CallConnected i) s)
      | DefaultFunc \<Rightarrow> defaultDisconnectedFunc i s) }"

definition call_DisconnectedFunc :: "env \<Rightarrow> nat \<Rightarrow> socket \<Rightarrow> result" where
  "call_DisconnectedFunc env i s = do {
     p \<leftarrow> s_ports s i;
     (case cfg_DisconnectedFunc (p_cfg p) of
        NilFunc \<Rightarrow> None
      | UserFunc \<Rightarrow> Some (disconnectedFunc env (s_trace s) i, log_sys (CallDisconnected i) s)
      | DefaultFunc \<Rightarrow> defaultDisconnectedFunc i s) }"

text \<open>The loops of \<open>connect\<close>: map the regions that are not mapped; refresh the ring headers from
  shared memory and check their cookies. The code resets \<open>lastHead\<close> and \<open>lastTail\<close> of the loop
  variable, a copy of the queue; the queues of the port keep theirs. The ring is shared through
  its pointer, so the refreshed header is kept.\<close>

fun map_regions :: "env \<Rightarrow> memoryRegion list \<Rightarrow> trace \<Rightarrow> error option \<times> memoryRegion list \<times> trace" where
  "map_regions env [] tr = (None, [], tr)"
| "map_regions env (r # rs) tr =
     (case mr_data r of
        Some d \<Rightarrow>
          (case map_regions env rs tr of (err, rs', tr') \<Rightarrow> (err, r # rs', tr'))
      | None \<Rightarrow>
          (case mmap env tr (mr_fd r) (sint (mr_size r)) of
             Inl e \<Rightarrow> (Some (''mmap: '' @ e), r # rs, SysMmap (mr_fd r) (sint (mr_size r)) # tr)
           | Inr d \<Rightarrow>
               (case map_regions env rs (SysMmap (mr_fd r) (sint (mr_size r)) # tr) of
                  (err, rs', tr') \<Rightarrow> (err, r\<lparr>mr_data := Some d\<rparr> # rs', tr'))))"

fun check_rings :: "port \<Rightarrow> queue list \<Rightarrow> (error option \<times> queue list) option" where
  "check_rings p [] = Some (None, [])"
| "check_rings p (q # qs) = do {
     q' \<leftarrow> updateRing p q;
     ck \<leftarrow> ring_getCookie (q_ring q');
     (if ck \<noteq> cookie then Some (Some ''wrong cookie'', q' # qs)
      else do {
        (err, qs') \<leftarrow> check_rings p qs;
        Some (err, q' # qs') }) }"

definition port_connect :: "env \<Rightarrow> nat \<Rightarrow> socket \<Rightarrow> result" where
  "port_connect env i s = do {
     p \<leftarrow> s_ports s i;
     (case map_regions env (p_regions p) (s_trace s) of
        (Some e, rs, tr) \<Rightarrow> Some (Some e, (put_port i (p\<lparr>p_regions := rs\<rparr>) s)\<lparr>s_trace := tr\<rparr>)
      | (None, rs, tr) \<Rightarrow> do {
          let p1 = p\<lparr>p_regions := rs\<rparr>;
          let s1 = s\<lparr>s_trace := tr\<rparr>;
          (err, txs) \<leftarrow> check_rings p1 (p_txQueues p1);
          let p2 = p1\<lparr>p_txQueues := txs\<rparr>;
          (case err of
             Some e \<Rightarrow> Some (Some e, put_port i p2 s1)
           | None \<Rightarrow> do {
               (err', rxs) \<leftarrow> check_rings p2 (p_rxQueues p2);
               let p3 = p2\<lparr>p_rxQueues := rxs\<rparr>;
               (case err' of
                  Some e \<Rightarrow> Some (Some e, put_port i p3 s1)
                | None \<Rightarrow> call_ConnectedFunc env i (put_port i p3 s1)) }) }) }"

fun close_queues :: "env \<Rightarrow> queue list \<Rightarrow> trace \<Rightarrow> trace" where
  "close_queues env [] tr = tr"
| "close_queues env (q # qs) tr = close_queues env qs (queue_close env q tr)"

fun unmap_regions :: "env \<Rightarrow> memoryRegion list \<Rightarrow> trace \<Rightarrow> error option \<times> trace" where
  "unmap_regions env [] tr = (None, tr)"
| "unmap_regions env (r # rs) tr =
     (case munmap env tr (mr_data r) of
        Some e \<Rightarrow> (Some e, SysMunmap (mr_data r) # tr)
      | None \<Rightarrow>
          (let tr1 = SysMunmap (mr_data r) # tr in
           case close_fd env tr1 (mr_fd r) of
             Some e \<Rightarrow> (Some e, SysClose (mr_fd r) # tr1)
           | None \<Rightarrow> unmap_regions env rs (SysClose (mr_fd r) # tr1)))"

definition port_disconnect :: "env \<Rightarrow> nat \<Rightarrow> socket \<Rightarrow> result" where
  "port_disconnect env i s = do {
     p \<leftarrow> s_ports s i;
     (if p_cc p = None then Some (None, s)
      else and_then (wrap_err ''disconnectedFunc: '' (call_DisconnectedFunc env i s)) (\<lambda>s1. do {
        p1 \<leftarrow> s_ports s1 i;
        let tr1 = close_queues env (p_rxQueues p1) (close_queues env (p_txQueues p1) (s_trace s1));
        let p2 = p1\<lparr>p_txQueues := [], p_rxQueues := []\<rparr>;
        (case unmap_regions env (p_regions p2) tr1 of
           (Some e, tr2) \<Rightarrow> Some (Some e, (put_port i p2 s1)\<lparr>s_trace := tr2\<rparr>)
         | (None, tr2) \<Rightarrow>
             Some (None, (put_port i (p2\<lparr>p_regions := [], p_cc := None, p_peerName := [],
                                         p_remoteName := []\<rparr>) s1)\<lparr>s_trace := tr2\<rparr>)) })) }"

section \<open>Closing, listening and accepting\<close>

text \<open>The end of \<open>close\<close>: the channel leaves the socket's list and its port is disconnected.\<close>

definition cc_detach :: "env \<Rightarrow> nat \<Rightarrow> socket \<Rightarrow> result" where
  "cc_detach env c s = do {
     cc \<leftarrow> s_ccs s c;
     let s1 = s\<lparr>s_ccList := remove1 c (s_ccList s)\<rparr>;
     (case cc_port cc of
        None \<Rightarrow> Some (None, s1)
      | Some i \<Rightarrow> wrap_err ''port Disconnect: '' (port_disconnect env i s1)) }"

definition cc_close :: "env \<Rightarrow> nat \<Rightarrow> bool \<Rightarrow> string \<Rightarrow> socket \<Rightarrow> result" where
  "cc_close env c sendMsg' str s = do {
     cc \<leftarrow> s_ccs s c;
     and_then
       (if sendMsg'
        then and_then (msgEnqDisconnect c str (put_cc c (cc\<lparr>cc_msgQueue := []\<rparr>) s)) (sendMsg env c)
        else Some (None, s))
       (\<lambda>s1. and_then (wrap_err ''failed to del event: '' (delEvent env (cc_fd cc) s1)) (cc_detach env c)) }"

definition listener_close :: "env \<Rightarrow> int \<Rightarrow> socket \<Rightarrow> result" where
  "listener_close env lfd s =
     and_then (wrap_err ''failed to del event: '' (delEvent env lfd s))
       (\<lambda>s1. Some (map_option ((@) ''failed to close socket: '') (close_fd env (s_trace s1) lfd),
                   log_sys (SysClose lfd) s1))"

definition AddListener :: "env \<Rightarrow> int \<Rightarrow> socket \<Rightarrow> result" where
  "AddListener env fd s =
     and_then (wrap_err ''failed to add event: '' (addEvent env (int32 fd) s))
       (\<lambda>s1. Some (None, s1\<lparr>s_listener := Some (int32 fd)\<rparr>))"

definition sys_step :: "string \<Rightarrow> error option \<Rightarrow> sysevent \<Rightarrow> socket \<Rightarrow> result" where
  "sys_step msg err ev s = Some (map_option ((@) msg) err, log_sys ev s)"

definition addListener :: "env \<Rightarrow> socket \<Rightarrow> result" where
  "addListener env s =
     (case socket_create env (s_trace s) of
        Inl e \<Rightarrow> Some (Some ''failed to create UNIX domain socket'', log_sys SysSocket s)
      | Inr fd \<Rightarrow>
          let s1 = log_sys SysSocket s; name = s_filename s in
          and_then (sys_step (''failed to set socket option '' @ name @ '' : '')
            (setsockopt env (s_trace s1) fd) (SysSetsockopt fd) s1) (\<lambda>s2.
          and_then (sys_step (''failed to bind socket '' @ name @ '' : '')
            (bind_fd env (s_trace s2) fd name) (SysBind fd name) s2) (\<lambda>s3.
          and_then (sys_step (''failed to listen on socket '' @ name @ '' : '')
            (listen_fd env (s_trace s3) fd) (SysListen fd) s3) (AddListener env fd))))"

definition new_cc :: "int \<Rightarrow> nat option \<Rightarrow> controlChannel" where
  "new_cc fd po = \<lparr> cc_port = po, cc_fd = int32 fd, cc_data = replicate msgSize 0,
     cc_control = replicate maxControlLen 0, cc_controlLen = 0, cc_msgQueue = [], cc_isConnected = False \<rparr>"

text \<open>The channel is allocated at the next free number; it enters the store when the code keeps a
  reference to it.\<close>

definition addControlChannel :: "env \<Rightarrow> int \<Rightarrow> nat option \<Rightarrow> socket \<Rightarrow> ((error + nat) \<times> socket) option" where
  "addControlChannel env fd po s = do {
     (err, s1) \<leftarrow> wrap_err ''failed to add event: '' (addEvent env (int32 fd) s);
     (case err of
        Some e \<Rightarrow> Some (Inl e, s1)
      | None \<Rightarrow>
          Some (Inr (s_next s1), (put_cc (s_next s1) (new_cc fd po) s1)
            \<lparr>s_ccList := s_ccList s1 @ [s_next s1], s_next := Suc (s_next s1)\<rparr>)) }"

definition EPOLLIN :: u32 where "EPOLLIN = 1"
definition EPOLLERR :: u32 where "EPOLLERR = 8"
definition EPOLLHUP :: u32 where "EPOLLHUP = 16"

definition listener_handleEvent :: "env \<Rightarrow> int \<Rightarrow> u32 \<Rightarrow> socket \<Rightarrow> result" where
  "listener_handleEvent env lfd events s =
     (if events AND EPOLLHUP = EPOLLHUP then
        and_then (wrap_err ''failed to close listener after hang up event: '' (listener_close env lfd s))
          (\<lambda>s1. Some (Some (''hang up: '' @ s_filename s1), s1))
      else if events AND EPOLLERR = EPOLLERR then
        and_then (wrap_err ''failed to close listener after receiving an error event: '' (listener_close env lfd s))
          (\<lambda>s1. Some (Some (''reeceived error event on listener '' @ s_filename s1), s1))
      else if events AND EPOLLIN = EPOLLIN then
        (case accept_fd env (s_trace s) lfd of
           Inl e \<Rightarrow> Some (Some (''accept: '' @ e), log_sys (SysAccept lfd) s)
         | Inr newFd \<Rightarrow> do {
             (r, s1) \<leftarrow> addControlChannel env newFd None (log_sys (SysAccept lfd) s);
             (case r of
                Inl e \<Rightarrow> Some (Some (''failed to add control channel: '' @ e), s1)
              | Inr c \<Rightarrow> and_then (wrap_err ''msgEnqHello: '' (msgEnqHello c s1)) (sendMsg env c)) })
      else Some (Some (''unexpected event: '' @ itoa (uint events)), s))"

section \<open>The handshake\<close>

definition parseConnect :: "env \<Rightarrow> nat \<Rightarrow> socket \<Rightarrow> result" where
  "parseConnect env c s = do {
     cc \<leftarrow> s_ccs s c;
     (case dec_Connect (drop msgTypeSize (cc_data cc)) of
        Inl e \<Rightarrow> Some (Some e, s)
      | Inr m \<Rightarrow> do {
          (i, p) \<leftarrow> port_of c s;
          and_then (port_connect env i (put_port i (p\<lparr>p_peerName := string_of_bytes (connect_Name m)\<rparr>) s))
            (\<lambda>s1. do {
               cc1 \<leftarrow> s_ccs s1 c;
               Some (None, put_cc c (cc1\<lparr>cc_isConnected := True\<rparr>) s1) }) }) }"

definition parseConnected :: "env \<Rightarrow> nat \<Rightarrow> socket \<Rightarrow> result" where
  "parseConnected env c s = do {
     cc \<leftarrow> s_ccs s c;
     (case dec_Connected (drop msgTypeSize (cc_data cc)) of
        Inl e \<Rightarrow> Some (Some e, s)
      | Inr m \<Rightarrow> do {
          (i, p) \<leftarrow> port_of c s;
          and_then (port_connect env i (put_port i (p\<lparr>p_peerName := string_of_bytes (connected_Name m)\<rparr>) s))
            (\<lambda>s1. do {
               cc1 \<leftarrow> s_ccs s1 c;
               Some (None, put_cc c (cc1\<lparr>cc_isConnected := True\<rparr>) s1) }) }) }"

definition parseDisconnect :: "env \<Rightarrow> nat \<Rightarrow> socket \<Rightarrow> result" where
  "parseDisconnect env c s = do {
     cc \<leftarrow> s_ccs s c;
     (case dec_Disconnect (drop msgTypeSize (cc_data cc)) of
        Inl e \<Rightarrow> Some (Some e, s)
      | Inr m \<Rightarrow> wrap_err ''failed to disconnect control channel: ''
                   (cc_close env c False (string_of_bytes (dc_String m)) s)) }"

text \<open>\<open>cc.port.initializeRegions()\<close> and \<open>cc.port.initializeQueues()\<close>.\<close>

definition cc_initializeRegions :: "env \<Rightarrow> nat \<Rightarrow> socket \<Rightarrow> result" where
  "cc_initializeRegions env c s = do {
     (i, p) \<leftarrow> port_of c s;
     let (err, p', tr') = initializeRegions env p (s_trace s);
     Some (err, (put_port i p' s)\<lparr>s_trace := tr'\<rparr>) }"

definition cc_initializeQueues :: "env \<Rightarrow> nat \<Rightarrow> socket \<Rightarrow> result" where
  "cc_initializeQueues env c s = do {
     (i, p) \<leftarrow> port_of c s;
     (err, p', tr') \<leftarrow> initializeQueues env p (s_trace s);
     Some (err, (put_port i p' s)\<lparr>s_trace := tr'\<rparr>) }"

text \<open>The loops of \<open>parseMsg\<close>: \<open>n\<close> more iterations from index \<open>i\<close>.\<close>

fun enq_regions :: "nat \<Rightarrow> nat \<Rightarrow> nat \<Rightarrow> socket \<Rightarrow> result" where
  "enq_regions 0 i c s = Some (None, s)"
| "enq_regions (Suc n) i c s = and_then (msgEnqAddRegion c (of_nat i) s) (enq_regions n (Suc i) c)"

fun enq_rings :: "nat \<Rightarrow> nat \<Rightarrow> ringType \<Rightarrow> nat \<Rightarrow> socket \<Rightarrow> result" where
  "enq_rings 0 i rt c s = Some (None, s)"
| "enq_rings (Suc n) i rt c s = and_then (msgEnqAddRing c rt (of_nat i) s) (enq_rings n (Suc i) rt c)"

text \<open>The client's answer to a greeting.\<close>

definition on_hello :: "env \<Rightarrow> nat \<Rightarrow> socket \<Rightarrow> result" where
  "on_hello env c s =
     and_then (parseHello c s) (\<lambda>s1.
     and_then (cc_initializeRegions env c s1) (\<lambda>s2.
     and_then (cc_initializeQueues env c s2) (\<lambda>s3.
     and_then (msgEnqInit c s3) (\<lambda>s4. do {
       (_, p) \<leftarrow> port_of c s4;
       and_then (enq_regions (length (p_regions p)) 0 c s4) (\<lambda>s5. do {
         (_, p') \<leftarrow> port_of c s5;
         and_then (enq_rings (unat (NumQueuePairs (p_run p'))) 0 ringTypeS2M c s5) (\<lambda>s6.
         and_then (enq_rings (unat (NumQueuePairs (p_run p'))) 0 ringTypeM2S c s6) (\<lambda>s7.
         msgEnqConnect c s7)) }) }))))"

definition dispatch :: "env \<Rightarrow> nat \<Rightarrow> u16 \<Rightarrow> socket \<Rightarrow> result" where
  "dispatch env c t s =
     (if t = msgTypeHello then on_hello env c s
      else if t = msgTypeInit then and_then (parseInit c s) (msgEnqAck c)
      else if t = msgTypeAddRegion then and_then (parseAddRegion c s) (msgEnqAck c)
      else if t = msgTypeAddRing then and_then (parseAddRing c s) (msgEnqAck c)
      else if t = msgTypeConnect then and_then (parseConnect env c s) (msgEnqConnected c)
      else if t = msgTypeConnected then parseConnected env c s
      else if t = msgTypeDisconnect then parseDisconnect env c s
      else Some (Some (''unknown message '' @ itoa (uint t)), s))"

text \<open>The error path closes the channel. When that fails too, the code formats the first error
  with two surplus arguments.\<close>

definition parseMsg :: "env \<Rightarrow> nat \<Rightarrow> socket \<Rightarrow> result" where
  "parseMsg env c s = do {
     cc \<leftarrow> s_ccs s c;
     let t = (get_le (window (cc_data cc) 0 2) :: u16);
     (if t = msgTypeAck then Some (None, s)
      else do {
        (err, s1) \<leftarrow> dispatch env c t s;
        (case err of
           None \<Rightarrow> Some (None, s1)
         | Some e \<Rightarrow> do {
             (err1, s2) \<leftarrow> cc_close env c True e s1;
             (case err1 of
                None \<Rightarrow> Some (Some e, s2)
              | Some e1 \<Rightarrow>
                  Some (Some (e @ ''%!(EXTRA string=: Failed to close control channel: , *errors.errorString=''
                              @ e1 @ '')''), s2)) }) }) }"

text \<open>The buffers of a channel after a successful \<open>Recvmsg\<close> of \<open>dt\<close> with control data \<open>ctl\<close>.\<close>

definition cc_received :: "byte list \<Rightarrow> byte list \<Rightarrow> controlChannel \<Rightarrow> controlChannel" where
  "cc_received dt ctl cc =
     cc\<lparr>cc_data := overlay (cc_data cc) 0 (take msgSize dt),
        cc_control := overlay (cc_control cc) 0 (take maxControlLen ctl),
        cc_controlLen := int (length (take maxControlLen ctl))\<rparr>"

definition cc_handleEvent :: "env \<Rightarrow> nat \<Rightarrow> u32 \<Rightarrow> socket \<Rightarrow> result" where
  "cc_handleEvent env c events s =
     (if events AND EPOLLHUP = EPOLLHUP then
        and_then (wrap_err ''failed to close control channel after hang up event: '' (cc_close env c False [] s))
          (\<lambda>s1. do { (_, p) \<leftarrow> port_of c s1; Some (Some (''hang up: '' @ cfg_Name (p_cfg p)), s1) })
      else if events AND EPOLLERR = EPOLLERR then
        and_then (wrap_err ''failed to close control channel after receiving an error event: '' (cc_close env c False [] s))
          (\<lambda>s1. do { (_, p) \<leftarrow> port_of c s1; Some (Some (''received error event on control channel '' @ cfg_Name (p_cfg p)), s1) })
      else if events AND EPOLLIN = EPOLLIN then do {
        cc \<leftarrow> s_ccs s c;
        (case recvmsg env (s_trace s) (cc_fd cc) of
           Inl e \<Rightarrow> Some (Some (''recvmsg: '' @ e),
                      log_sys (SysRecvmsg (cc_fd cc)) (put_cc c (cc\<lparr>cc_controlLen := 0\<rparr>) s))
         | Inr (dt, ctl) \<Rightarrow>
             let s1 = log_sys (SysRecvmsg (cc_fd cc)) (put_cc c (cc_received dt ctl cc) s);
                 size = length (take msgSize dt)
             in if size \<noteq> msgSize
                then Some (Some (''invalid message size '' @ itoa (int size)), s1)
                else and_then (parseMsg env c s1) (sendMsg env c)) }
      else Some (Some (''unexpected event: '' @ itoa (uint events)), s))"

section \<open>The port's own operations\<close>

definition port_Disconnect :: "env \<Rightarrow> nat \<Rightarrow> socket \<Rightarrow> result" where
  "port_Disconnect env i s = do {
     p \<leftarrow> s_ports s i;
     (case p_cc p of
        Some c \<Rightarrow> cc_close env c True ''Port disconnected'' s
      | None \<Rightarrow> Some (None, s)) }"

definition port_Delete :: "env \<Rightarrow> nat \<Rightarrow> socket \<Rightarrow> result" where
  "port_Delete env i s = do {
     (_, s1) \<leftarrow> port_Disconnect env i s;
     Some (None, s1\<lparr>s_portList := remove1 i (s_portList s1)\<rparr>) }"

definition RequestConnection :: "env \<Rightarrow> nat \<Rightarrow> socket \<Rightarrow> result" where
  "RequestConnection env i s = do {
     p \<leftarrow> s_ports s i;
     (if cfg_IsServer (p_cfg p) then Some (Some ''only client can request connection'', s)
      else
        (case socket_create env (s_trace s) of
           Inl e \<Rightarrow> Some (Some (''failed to create UNIX domain socket: '' @ e), log_sys SysSocket s)
         | Inr fd \<Rightarrow>
             let s1 = log_sys SysSocket s; name = s_filename s in
             and_then (sys_step (''failed to connect socket '' @ name @ '' : '')
               (connect_fd env (s_trace s1) fd name) (SysConnect fd name) s1) (\<lambda>s2. do {
               (r, s3) \<leftarrow> addControlChannel env fd (Some i) s2;
               (case r of
                  Inl e \<Rightarrow> Some (Some (''failed to create control channel: '' @ e),
                             put_port i (p\<lparr>p_cc := None\<rparr>) s3)
                | Inr c \<Rightarrow> Some (None, put_port i (p\<lparr>p_cc := Some c\<rparr>) s3)) }))) }"

end
