(* ===== verification/Safety.thy ===== *)
theory Safety
  imports Control
begin

text \<open>
  The invariant of a socket with its ports and control channels, and that every operation of
  theory \<open>Control\<close> keeps it. \<open>sock_ok\<close> says that every pointer leads to an object, that the
  receive buffers have their sizes, that every queued message can be sent, and that no two ports of
  the socket have the same id and role. \<open>keeps s s'\<close> says what no operation on an existing socket
  changes. \<open>safe\<close> combines both for an operation; it is closed under the ways the code composes
  operations, so each operation needs a lemma of a line or two.
\<close>

section \<open>Invariant and frame\<close>

definition cc_ok :: "socket \<Rightarrow> controlChannel \<Rightarrow> bool" where
  "cc_ok s cc \<longleftrightarrow> length (cc_data cc) = msgSize \<and> length (cc_control cc) = maxControlLen \<and>
     0 \<le> cc_controlLen cc \<and> cc_controlLen cc \<le> int maxControlLen \<and>
     (\<forall>i. cc_port cc = Some i \<longrightarrow> s_ports s i \<noteq> None) \<and>
     (\<forall>m\<in>set (cc_msgQueue cc). 2 \<le> length (cm_Buffer m) \<and> length (cm_Buffer m) \<le> msgSize)"

definition port_ok :: "socket \<Rightarrow> port \<Rightarrow> bool" where
  "port_ok s p \<longleftrightarrow> (\<forall>c. p_cc p = Some c \<longrightarrow> s_ccs s c \<noteq> None) \<and> cfg_DisconnectedFunc (p_cfg p) \<noteq> NilFunc"

definition role_of :: "socket \<Rightarrow> nat \<Rightarrow> (u32 \<times> bool) option" where
  "role_of s i = map_option (\<lambda>p. (cfg_Id (p_cfg p), cfg_IsServer (p_cfg p))) (s_ports s i)"

definition sock_ok :: "socket \<Rightarrow> bool" where
  "sock_ok s \<longleftrightarrow>
     (\<forall>i. s_next s \<le> i \<longrightarrow> s_ports s i = None \<and> s_ccs s i = None) \<and>
     distinct (s_portList s) \<and> distinct (s_ccList s) \<and>
     (\<forall>i\<in>set (s_portList s). s_ports s i \<noteq> None) \<and> (\<forall>c\<in>set (s_ccList s). s_ccs s c \<noteq> None) \<and>
     (\<forall>c cc. s_ccs s c = Some cc \<longrightarrow> cc_ok s cc) \<and>
     (\<forall>i p. s_ports s i = Some p \<longrightarrow> port_ok s p) \<and>
     inj_on (role_of s) (set (s_portList s))"

text \<open>A Go channel that is closed stays closed.\<close>

definition still_closed :: "port \<Rightarrow> port \<Rightarrow> bool" where
  "still_closed p p' \<longleftrightarrow> (p_QuitChan p \<longrightarrow> p_QuitChan p') \<and> (p_ErrChan p \<longrightarrow> p_ErrChan p')"

lemma still_closed_same [simp]: "p_QuitChan p' = p_QuitChan p \<Longrightarrow> p_ErrChan p' = p_ErrChan p \<Longrightarrow> still_closed p p'"
  by (simp add: still_closed_def)

lemma still_closed_trans: "still_closed p q \<Longrightarrow> still_closed q r \<Longrightarrow> still_closed p r"
  by (simp add: still_closed_def)

definition keeps :: "socket \<Rightarrow> socket \<Rightarrow> bool" where
  "keeps s s' \<longleftrightarrow>
     s_appName s' = s_appName s \<and> s_filename s' = s_filename s \<and> s_epfd s' = s_epfd s \<and>
     s_wakeFd s' = s_wakeFd s \<and> set (s_portList s') \<subseteq> set (s_portList s) \<and>
     (\<forall>i. map_option p_cfg (s_ports s' i) = map_option p_cfg (s_ports s i)) \<and>
     (\<forall>i p p'. s_ports s i = Some p \<longrightarrow> s_ports s' i = Some p' \<longrightarrow> still_closed p p') \<and>
     (\<forall>c. s_ccs s c \<noteq> None \<longrightarrow> s_ccs s' c \<noteq> None)"

lemma keeps_refl [simp]: "keeps s s"
  by (simp add: keeps_def)

lemma keeps_closed: "keeps s s' \<Longrightarrow> s_ports s i = Some p \<Longrightarrow> s_ports s' i = Some p' \<Longrightarrow> still_closed p p'"
  by (simp add: keeps_def)

lemma keeps_port:
  assumes "keeps s s'" and "s_ports s i = Some p"
  obtains p' where "s_ports s' i = Some p'" "p_cfg p' = p_cfg p"
proof -
  have "map_option p_cfg (s_ports s' i) = Some (p_cfg p)" using assms by (simp add: keeps_def)
  then show thesis using that by auto
qed

lemma keeps_trans:
  assumes "keeps s s1" and "keeps s1 s2"
  shows "keeps s s2"
proof -
  have "still_closed p p2" if p: "s_ports s i = Some p" "s_ports s2 i = Some p2" for i p p2
  proof -
    obtain p1 where "s_ports s1 i = Some p1" using keeps_port [OF assms(1) p(1)] by blast
    then show ?thesis
      using keeps_closed [OF assms(1) p(1)] keeps_closed [OF assms(2) _ p(2)] still_closed_trans by blast
  qed
  then show ?thesis using assms by (simp add: keeps_def) blast
qed

lemma keeps_role: "keeps s s' \<Longrightarrow> role_of s' = role_of s"
proof
  fix i assume "keeps s s'"
  then have "map_option p_cfg (s_ports s' i) = map_option p_cfg (s_ports s i)" by (simp add: keeps_def)
  then show "role_of s' i = role_of s i" by (cases "s_ports s i"; cases "s_ports s' i") (auto simp: role_of_def)
qed

section \<open>Safe operations\<close>

definition outcome :: "socket \<Rightarrow> result \<Rightarrow> bool" where
  "outcome s r \<longleftrightarrow> (\<forall>err s'. r = Some (err, s') \<longrightarrow> sock_ok s' \<and> keeps s s')"

definition safe :: "(socket \<Rightarrow> result) \<Rightarrow> bool" where
  "safe f \<longleftrightarrow> (\<forall>s. sock_ok s \<longrightarrow> outcome s (f s))"

lemma safeI: "(\<And>s. sock_ok s \<Longrightarrow> outcome s (f s)) \<Longrightarrow> safe f"
  by (simp add: safe_def)

lemma safeD: "safe f \<Longrightarrow> sock_ok s \<Longrightarrow> outcome s (f s)"
  by (simp add: safe_def)

lemma outcome_None [simp]: "outcome s None"
  by (simp add: outcome_def)

lemma outcome_Some [simp]: "outcome s (Some (err, s')) \<longleftrightarrow> sock_ok s' \<and> keeps s s'"
  by (auto simp: outcome_def)

lemma outcome_wrap [simp]: "outcome s (wrap_err msg r) \<longleftrightarrow> outcome s r"
  by (auto simp: outcome_def wrap_err_def)

lemma outcome_from: "outcome s1 r \<Longrightarrow> keeps s s1 \<Longrightarrow> outcome s r"
  by (auto simp: outcome_def intro: keeps_trans)

lemma outcome_and_then:
  assumes "outcome s r" and "\<And>s1. sock_ok s1 \<Longrightarrow> keeps s s1 \<Longrightarrow> outcome s (f s1)"
  shows "outcome s (and_then r f)"
  using assms by (cases r) (auto simp: and_then_def split: option.splits)

lemma outcome_and_then_safe: "outcome s r \<Longrightarrow> safe f \<Longrightarrow> outcome s (and_then r f)"
  by (intro outcome_and_then) (auto dest: safeD intro: outcome_from)

lemma outcome_bind:
  assumes "\<And>x. r = Some x \<Longrightarrow> outcome s (f x)"
  shows "outcome s (Option.bind r f)"
  using assms by (cases r) auto

section \<open>Elementary updates\<close>

lemma sock_ok_sys [simp]:
  "sock_ok (log_sys ev s) \<longleftrightarrow> sock_ok s" "keeps s (log_sys ev s1) \<longleftrightarrow> keeps s s1"
  "sock_ok (s\<lparr>s_trace := tr\<rparr>) \<longleftrightarrow> sock_ok s" "keeps s (s1\<lparr>s_trace := tr\<rparr>) \<longleftrightarrow> keeps s s1"
  "sock_ok (s\<lparr>s_listener := l\<rparr>) \<longleftrightarrow> sock_ok s" "keeps s (s1\<lparr>s_listener := l\<rparr>) \<longleftrightarrow> keeps s s1"
  "sock_ok (s\<lparr>s_ErrChan := es\<rparr>) \<longleftrightarrow> sock_ok s" "keeps s (s1\<lparr>s_ErrChan := es\<rparr>) \<longleftrightarrow> keeps s s1"
  "sock_ok (s\<lparr>s_stopPollChan := b\<rparr>) \<longleftrightarrow> sock_ok s"
  "keeps s (s1\<lparr>s_stopPollChan := b\<rparr>) \<longleftrightarrow> keeps s s1" "keeps (log_sys ev s) s1 \<longleftrightarrow> keeps s s1"
  "keeps (s\<lparr>s_ErrChan := es\<rparr>) s1 \<longleftrightarrow> keeps s s1"
  by (simp_all add: sock_ok_def log_sys_def cc_ok_def port_ok_def role_of_def [abs_def] keeps_def)

lemma log_sys_sel [simp]:
  "s_ports (log_sys ev s) = s_ports s" "s_ccs (log_sys ev s) = s_ccs s"
  "s_portList (log_sys ev s) = s_portList s" "s_ccList (log_sys ev s) = s_ccList s"
  "s_next (log_sys ev s) = s_next s" "s_filename (log_sys ev s) = s_filename s"
  "s_appName (log_sys ev s) = s_appName s" "s_listener (log_sys ev s) = s_listener s"
  "s_epfd (log_sys ev s) = s_epfd s" "s_wakeFd (log_sys ev s) = s_wakeFd s"
  "s_trace (log_sys ev s) = ev # s_trace s"
  by (simp_all add: log_sys_def)

lemma put_port_sel [simp]:
  "s_ports (put_port i p s) = (s_ports s)(i \<mapsto> p)" "s_ccs (put_port i p s) = s_ccs s"
  "s_portList (put_port i p s) = s_portList s" "s_ccList (put_port i p s) = s_ccList s"
  "s_next (put_port i p s) = s_next s" "s_filename (put_port i p s) = s_filename s"
  "s_appName (put_port i p s) = s_appName s" "s_listener (put_port i p s) = s_listener s"
  "s_epfd (put_port i p s) = s_epfd s" "s_wakeFd (put_port i p s) = s_wakeFd s"
  "s_trace (put_port i p s) = s_trace s"
  by (simp_all add: put_port_def)

lemma put_cc_sel [simp]:
  "s_ports (put_cc c cc s) = s_ports s" "s_ccs (put_cc c cc s) = (s_ccs s)(c \<mapsto> cc)"
  "s_portList (put_cc c cc s) = s_portList s" "s_ccList (put_cc c cc s) = s_ccList s"
  "s_next (put_cc c cc s) = s_next s" "s_filename (put_cc c cc s) = s_filename s"
  "s_appName (put_cc c cc s) = s_appName s" "s_listener (put_cc c cc s) = s_listener s"
  "s_epfd (put_cc c cc s) = s_epfd s" "s_wakeFd (put_cc c cc s) = s_wakeFd s"
  "s_trace (put_cc c cc s) = s_trace s"
  by (simp_all add: put_cc_def)

lemma sock_ok_port: "sock_ok s \<Longrightarrow> s_ports s i = Some p \<Longrightarrow> port_ok s p"
  by (simp add: sock_ok_def)

lemma sock_ok_cc: "sock_ok s \<Longrightarrow> s_ccs s c = Some cc \<Longrightarrow> cc_ok s cc"
  by (simp add: sock_ok_def)

text \<open>A port or a channel may be replaced by one that keeps its configuration and is well formed.\<close>

lemma put_port_keeps:
  assumes "s_ports s i = Some p" and "p_cfg p' = p_cfg p" and "still_closed p p'"
  shows "keeps s (put_port i p' s)"
  using assms by (simp add: keeps_def)

lemma put_port_ok:
  assumes "sock_ok s" and p: "s_ports s i = Some p" "p_cfg p' = p_cfg p" "still_closed p p'" and ok: "port_ok s p'"
  shows "sock_ok (put_port i p' s)"
proof -
  have r: "role_of (put_port i p' s) = role_of s" by (rule keeps_role [OF put_port_keeps [OF p]])
  have "cc_ok (put_port i p' s) cc" if "cc_ok s cc" for cc using that by (simp add: cc_ok_def)
  moreover have "port_ok (put_port i p' s) q = port_ok s q" for q by (simp add: port_ok_def)
  moreover have "\<not> s_next s \<le> i" using assms(1) p(1) by (auto simp: sock_ok_def)
  ultimately show ?thesis using assms(1) ok unfolding sock_ok_def r by auto
qed

lemma put_cc_keeps: "keeps s (put_cc c cc s)"
  by (simp add: keeps_def)

lemma put_cc_ok:
  assumes "sock_ok s" and c: "s_ccs s c \<noteq> None" and ok: "cc_ok s cc"
  shows "sock_ok (put_cc c cc s)"
proof -
  have r: "role_of (put_cc c cc s) = role_of s" by (rule keeps_role [OF put_cc_keeps])
  have "cc_ok (put_cc c cc s) x = cc_ok s x" for x by (simp add: cc_ok_def)
  moreover have "port_ok (put_cc c cc s) q" if "port_ok s q" for q using that by (simp add: port_ok_def)
  moreover have "\<not> s_next s \<le> c" using assms(1) c by (auto simp: sock_ok_def)
  ultimately show ?thesis using assms(1) ok unfolding sock_ok_def r by auto
qed

lemma outcome_put_port:
  "sock_ok s \<Longrightarrow> s_ports s i = Some p \<Longrightarrow> p_cfg p' = p_cfg p \<Longrightarrow> still_closed p p' \<Longrightarrow> port_ok s p' \<Longrightarrow>
     outcome s (Some (err, put_port i p' s))"
  by (simp add: put_port_ok put_port_keeps)

lemma outcome_put_cc:
  "sock_ok s \<Longrightarrow> s_ccs s c \<noteq> None \<Longrightarrow> cc_ok s cc \<Longrightarrow> outcome s (Some (err, put_cc c cc s))"
  by (simp add: put_cc_ok put_cc_keeps)

lemma port_ok_same: "port_ok s p \<Longrightarrow> p_cfg p' = p_cfg p \<Longrightarrow> p_cc p' = p_cc p \<or> p_cc p' = None \<Longrightarrow> port_ok s p'"
  by (auto simp: port_ok_def)

lemma port_ofD:
  "port_of c s = Some (i, p) \<Longrightarrow> \<exists>cc. s_ccs s c = Some cc \<and> cc_port cc = Some i \<and> s_ports s i = Some p"
  by (auto simp: port_of_def bind_eq_Some_conv)

lemma port_of_ports: "port_of c s = Some (i, p) \<Longrightarrow> s_ports s i = Some p"
  using port_ofD by blast

text \<open>The update of a channel's port that keeps the configuration and the channel.\<close>

lemma outcome_update_port:
  "sock_ok s \<Longrightarrow> s_ports s i \<noteq> None \<Longrightarrow> p_cfg p' = p_cfg (the (s_ports s i)) \<Longrightarrow>
     p_cc p' = p_cc (the (s_ports s i)) \<or> p_cc p' = None \<Longrightarrow> still_closed (the (s_ports s i)) p' \<Longrightarrow>
     outcome s (Some (err, put_port i p' s))"
  by (rule outcome_put_port [where p = "the (s_ports s i)"]) (auto intro: port_ok_same sock_ok_port)

lemma outcome_same: "sock_ok s \<Longrightarrow> outcome s (Some (err, s))"
  by simp

lemma outcome_trace:
  "outcome s (Some (err, s1\<lparr>s_trace := tr\<rparr>)) \<longleftrightarrow> outcome s (Some (err, s1))"
  "outcome s (Some (err, log_sys ev s1)) \<longleftrightarrow> outcome s (Some (err, s1))"
  by simp_all

lemmas outcome_intros = outcome_bind outcome_update_port outcome_same

section \<open>The operations\<close>

named_theorems safe_ops \<open>the operations that keep the invariant\<close>

lemma safe_delEvent [safe_ops]: "safe (delEvent env fd)"
  and safe_addEvent [safe_ops]: "safe (addEvent env fd)"
  by (simp_all add: safe_def delEvent_def addEvent_def)

lemma safe_sendMsg [safe_ops]: "safe (sendMsg env c)"
proof (rule safeI)
  fix s assume s: "sock_ok s"
  have "outcome s (Some (err, put_cc c (cc\<lparr>cc_msgQueue := ms\<rparr>) s))"
    if "s_ccs s c = Some cc" "cc_msgQueue cc = m # ms" for err cc m ms
    using that s sock_ok_cc [OF s that(1)] by (intro outcome_put_cc) (auto simp: cc_ok_def)
  then show "outcome s (sendMsg env c s)"
    unfolding sendMsg_def by (intro outcome_bind) (auto simp: Let_def s split: list.splits)
qed

lemma safe_msg_enq:
  assumes "2 \<le> length buf" "length buf \<le> msgSize"
  shows "safe (msg_enq c buf fd)"
proof (rule safeI)
  fix s assume s: "sock_ok s"
  have "outcome s (Some (None, put_cc c (cc\<lparr>cc_msgQueue := cc_msgQueue cc @ [\<lparr>cm_Buffer = buf, cm_Fd = fd\<rparr>]\<rparr>) s))"
    if "s_ccs s c = Some cc" for cc
    using that s assms sock_ok_cc [OF s that] by (intro outcome_put_cc) (auto simp: cc_ok_def)
  then show "outcome s (msg_enq c buf fd s)" unfolding msg_enq_def by (intro outcome_bind)
qed

lemmas wire_lengths = hello.enc_length initm.enc_length aregion.enc_length aring.enc_length
  conn.enc_length connd.enc_length disc.enc_length

lemma safe_msgEnq [safe_ops]:
  "safe (msgEnqAck c)" "safe (msgEnqHello c)" "safe (msgEnqInit c)" "safe (msgEnqAddRegion c i)"
  "safe (msgEnqAddRing c rt i)" "safe (msgEnqConnect c)" "safe (msgEnqConnected c)"
  "safe (msgEnqDisconnect c str)"
  by (rule safeI; auto simp: msgEnqAck_def msgEnqHello_def msgEnqInit_def msgEnqAddRegion_def msgEnqAddRing_def
      msgEnqConnect_def msgEnqConnected_def msgEnqDisconnect_def wire_lengths hello_msg_def init_msg_def
      msgSize_def Let_def intro!: outcome_bind safeD [OF safe_msg_enq])+

lemma find_peer_ports: "find_peer ports is ident = Some (i, p) \<Longrightarrow>
    i \<in> set is \<and> ports i = Some p \<and> cfg_Id (p_cfg p) = ident \<and> cfg_IsServer (p_cfg p) \<and> p_cc p = None"
  by (induction "is") (auto split: option.splits if_splits)

lemma safe_parseHello [safe_ops]: "safe (parseHello c)"
  by (rule safeI) (auto simp: parseHello_def dest!: port_of_ports split: sum.splits
      intro!: outcome_intros simp del: outcome_Some)

lemma safe_parseAddRegion [safe_ops]: "safe (parseAddRegion c)"
  by (rule safeI) (auto simp: parseAddRegion_def dest!: port_of_ports split: sum.splits
      intro!: outcome_intros simp del: outcome_Some)

lemma safe_parseAddRing [safe_ops]: "safe (parseAddRing c)"
  by (rule safeI) (auto simp: parseAddRing_def dest!: port_of_ports split: sum.splits
      intro!: outcome_intros simp del: outcome_Some)

lemma safe_parseInit [safe_ops]: "safe (parseInit c)"
proof (rule safeI)
  fix s assume s: "sock_ok s"
  have "outcome s (Some (None, put_cc c (cc\<lparr>cc_port := Some i\<rparr>)
      (put_port i (p\<lparr>p_cc := Some c, p_run := run, p_remoteName := nm\<rparr>) s)))" (is "outcome s (Some (None, put_cc c ?cc ?s1))")
    if "s_ccs s c = Some cc" "s_ports s i = Some p" for cc i p run nm
  proof -
    have "outcome s (Some (None, ?s1))"
      using s that sock_ok_port [OF s that(2)] by (intro outcome_put_port) (auto simp: port_ok_def)
    moreover have "cc_ok ?s1 ?cc"
      using sock_ok_cc [OF s that(1)] by (simp add: cc_ok_def)
    ultimately show ?thesis
      using that(1) outcome_put_cc [of ?s1 c ?cc None] by (auto intro: keeps_trans)
  qed
  then show "outcome s (parseInit c s)"
    using s by (auto simp: parseInit_def dest!: find_peer_ports split: sum.splits option.splits
        intro!: outcome_bind outcome_same simp del: outcome_Some)
qed

section \<open>The client's shared memory\<close>

text \<open>Setting up regions and queues leaves the configuration and the channel of the port alone.\<close>

definition frame_same :: "port \<Rightarrow> port \<Rightarrow> bool" where
  "frame_same p p' \<longleftrightarrow> p_cfg p' = p_cfg p \<and> p_cc p' = p_cc p \<and> p_QuitChan p' = p_QuitChan p \<and> p_ErrChan p' = p_ErrChan p"

lemma frame_same_refl [simp]: "frame_same p p"
  by (simp add: frame_same_def)

lemma frame_same_trans: "frame_same p q \<Longrightarrow> frame_same q r \<Longrightarrow> frame_same p r"
  by (simp add: frame_same_def)

lemma frame_sameD: "frame_same p p' \<Longrightarrow> p_cfg p' = p_cfg p \<and> p_cc p' = p_cc p \<and> still_closed p p'"
  by (simp add: frame_same_def)

lemma addRegion_frame:
  "addRegion env b1 b2 p tr = (err, p', tr') \<Longrightarrow> frame_same p p'"
  by (auto simp: addRegion_def frame_same_def Let_def split: prod.splits sum.splits option.splits)

lemma initializeRegions_frame:
  "initializeRegions env p tr = (err, p', tr') \<Longrightarrow> frame_same p p'"
  by (auto simp: initializeRegions_def dest: addRegion_frame split: prod.splits option.splits)

lemma putDescBuf_frame: "putDescBuf p q slot db = Some p' \<Longrightarrow> frame_same p p'"
  by (auto simp: putDescBuf_def frame_same_def bind_eq_Some_conv)

lemma putRing_frame: "putRing p q = Some p' \<Longrightarrow> frame_same p p'"
  by (auto simp: putRing_def frame_same_def bind_eq_Some_conv)

lemma init_descs_frame:
  "init_descs n qid j p q desc = Some (desc', p') \<Longrightarrow> frame_same p p'"
proof (induction n arbitrary: j p desc)
  case (Suc n)
  then obtain d1 p1 where "putDescBuf p q (qid * ring_size (q_ring q) + j) d1 = Some p1"
    "init_descs n qid (j + 1) p1 q d1 = Some (desc', p')"
    by (auto simp: bind_eq_Some_conv Let_def)
  then show ?case using Suc.IH putDescBuf_frame frame_same_trans by metis
qed simp

lemma append_queue_frame [simp]: "frame_same (append_queue rt q p) p' \<longleftrightarrow> frame_same p p'"
  by (cases rt) (simp_all add: append_queue_def frame_same_def)

lemma init_queue_frame:
  "init_queue env rt qid desc p tr = Some (err, desc', p', tr') \<Longrightarrow> frame_same p p'"
  by (cases "eventFd env tr"; cases "fst (eventFd env tr)")
    (auto simp: init_queue_def bind_eq_Some_conv Let_def dest!: init_descs_frame putRing_frame
      intro: frame_same_trans)

lemma init_loop_frame:
  "init_loop n env rt qid desc p tr = Some (err, desc', p', tr') \<Longrightarrow> frame_same p p'"
  by (induction n arbitrary: qid desc p tr)
    (fastforce simp: bind_eq_Some_conv dest: init_queue_frame intro: frame_same_trans split: option.splits)+

lemma initializeQueues_frame:
  "initializeQueues env p tr = Some (err, p', tr') \<Longrightarrow> frame_same p p'"
  by (fastforce simp: initializeQueues_def bind_eq_Some_conv dest!: init_loop_frame intro: frame_same_trans split: option.splits)

lemma safe_cc_initializeRegions [safe_ops]: "safe (cc_initializeRegions env c)"
  by (rule safeI) (auto simp: cc_initializeRegions_def outcome_trace dest!: port_of_ports initializeRegions_frame frame_sameD
      split: prod.splits intro!: outcome_intros simp del: outcome_Some)

lemma safe_cc_initializeQueues [safe_ops]: "safe (cc_initializeQueues env c)"
  by (rule safeI) (auto simp: cc_initializeQueues_def outcome_trace dest!: port_of_ports initializeQueues_frame frame_sameD
      split: prod.splits intro!: outcome_intros simp del: outcome_Some)

section \<open>Connecting, closing and the handlers\<close>

lemma safe_defaultDisconnectedFunc [safe_ops]: "safe (defaultDisconnectedFunc i)"
  by (rule safeI) (auto simp: defaultDisconnectedFunc_def still_closed_def intro!: outcome_intros simp del: outcome_Some)

lemma safe_callbacks [safe_ops]: "safe (call_ConnectedFunc env i)" "safe (call_DisconnectedFunc env i)"
  by (rule safeI; auto simp: call_ConnectedFunc_def call_DisconnectedFunc_def outcome_trace
      split: callback.split intro!: outcome_intros safeD [OF safe_defaultDisconnectedFunc] simp del: outcome_Some)+

lemma safe_port_connect [safe_ops]: "safe (port_connect env i)"
proof (rule safeI)
  fix s assume s: "sock_ok s"
  have upd: "outcome s (Some (err, put_port i p' (s\<lparr>s_trace := tr\<rparr>)))"
    if "s_ports s i = Some p" "p_cfg p' = p_cfg p" "p_cc p' = p_cc p" "still_closed p p'" for p p' tr err
  proof -
    have "put_port i p' (s\<lparr>s_trace := tr\<rparr>) = (put_port i p' s)\<lparr>s_trace := tr\<rparr>" by (simp add: put_port_def)
    then show ?thesis using that s outcome_update_port [OF s, of i p' err] by simp
  qed
  moreover have "outcome s (call_ConnectedFunc env i (put_port i p' (s\<lparr>s_trace := tr\<rparr>)))"
    if "s_ports s i = Some p" "p_cfg p' = p_cfg p" "p_cc p' = p_cc p" "still_closed p p'" for p p' tr
    using upd [OF that, of None tr] by (intro outcome_from [OF safeD [OF safe_callbacks(1)]]) simp_all
  moreover have "outcome s (Some (err, (put_port i (p\<lparr>p_regions := rs\<rparr>) s)\<lparr>s_trace := tr\<rparr>))"
    if "s_ports s i = Some p" for p rs tr err
    using that s outcome_update_port [OF s, of i "p\<lparr>p_regions := rs\<rparr>" err] by simp
  ultimately show "outcome s (port_connect env i s)"
    by (auto simp: port_connect_def Let_def split: prod.splits option.splits
        intro!: outcome_bind simp del: outcome_Some)
qed

lemma safe_port_disconnect [safe_ops]: "safe (port_disconnect env i)"
proof (rule safeI)
  fix s assume s: "sock_ok s"
  have "outcome s1 (do {
        p1 \<leftarrow> s_ports s1 i;
        let tr1 = close_queues env (p_rxQueues p1) (close_queues env (p_txQueues p1) (s_trace s1));
        let p2 = p1\<lparr>p_txQueues := [], p_rxQueues := []\<rparr>;
        (case unmap_regions env (p_regions p2) tr1 of
           (Some e, tr2) \<Rightarrow> Some (Some e, (put_port i p2 s1)\<lparr>s_trace := tr2\<rparr>)
         | (None, tr2) \<Rightarrow>
             Some (None, (put_port i (p2\<lparr>p_regions := [], p_cc := None, p_peerName := [],
                                         p_remoteName := []\<rparr>) s1)\<lparr>s_trace := tr2\<rparr>)) })"
    if "sock_ok s1" for s1
    using that by (auto simp: outcome_trace Let_def split: prod.splits option.splits
        intro!: outcome_intros simp del: outcome_Some)
  then show "outcome s (port_disconnect env i s)"
    unfolding port_disconnect_def
    by (intro outcome_bind) (auto simp: s intro!: outcome_and_then safeD [OF safe_callbacks(2) s] intro: outcome_from)
qed

lemma sock_ok_remove:
  "sock_ok s \<Longrightarrow> sock_ok (s\<lparr>s_ccList := remove1 c (s_ccList s)\<rparr>)"
  "sock_ok s \<Longrightarrow> sock_ok (s\<lparr>s_portList := remove1 i (s_portList s)\<rparr>)"
  by (auto simp: sock_ok_def cc_ok_def port_ok_def role_of_def [abs_def] dest: notin_set_remove1 intro: inj_on_subset)

lemma keeps_remove:
  "keeps s (s1\<lparr>s_ccList := xs\<rparr>) \<longleftrightarrow> keeps s s1"
  "keeps s s1 \<Longrightarrow> keeps s (s1\<lparr>s_portList := remove1 i (s_portList s1)\<rparr>)"
  by (auto simp: keeps_def dest: notin_set_remove1)

lemma outcome_comp: "sock_ok s1 \<Longrightarrow> keeps s s1 \<Longrightarrow> safe f \<Longrightarrow> outcome s (f s1)"
  by (rule outcome_from [OF safeD])

lemma safe_and_then: "safe f \<Longrightarrow> safe g \<Longrightarrow> safe (\<lambda>s. and_then (f s) g)"
  by (rule safeI) (rule outcome_and_then_safe [OF safeD])

lemma safe_wrap: "safe f \<Longrightarrow> safe (\<lambda>s. wrap_err msg (f s))"
  by (simp add: safe_def)

lemma safe_cc_detach [safe_ops]: "safe (cc_detach env c)"
  by (rule safeI) (auto simp: cc_detach_def Let_def sock_ok_remove keeps_remove split: option.split
      intro!: outcome_bind outcome_comp [OF _ _ safe_port_disconnect])

lemma safe_cc_close [safe_ops]: "safe (cc_close env c b str)"
proof (rule safeI)
  fix s assume s: "sock_ok s"
  have send: "outcome s (and_then (msgEnqDisconnect c str (put_cc c (cc\<lparr>cc_msgQueue := []\<rparr>) s)) (sendMsg env c))"
    if "s_ccs s c = Some cc" for cc
  proof -
    have "outcome s (Some (None, put_cc c (cc\<lparr>cc_msgQueue := []\<rparr>) s))"
      using that s sock_ok_cc [OF s that] by (intro outcome_put_cc) (auto simp: cc_ok_def)
    then show ?thesis by (auto intro!: outcome_and_then_safe safe_ops outcome_comp)
  qed
  have "safe (\<lambda>s1. and_then (wrap_err ''failed to del event: '' (delEvent env fd s1)) (cc_detach env c))" for fd
    by (intro safe_and_then safe_wrap safe_ops)
  then show "outcome s (cc_close env c b str s)"
    unfolding cc_close_def
    by (intro outcome_bind outcome_and_then_safe) (auto simp: s intro!: send)
qed

lemma safe_sys_step [safe_ops]: "safe (\<lambda>s. sys_step msg (err s) ev s)"
  by (simp add: safe_def sys_step_def)

lemma safe_listener_close [safe_ops]: "safe (listener_close env lfd)"
  unfolding listener_close_def [abs_def]
  by (intro safe_and_then safe_wrap safe_ops) (simp add: safe_def)

lemma safe_AddListener [safe_ops]: "safe (AddListener env fd)"
  unfolding AddListener_def [abs_def]
  by (intro safe_and_then safe_wrap safe_ops) (simp add: safe_def)

lemma safe_addListener [safe_ops]: "safe (addListener env)"
proof (rule safeI)
  fix s assume "sock_ok s"
  then show "outcome s (addListener env s)"
    by (cases "socket_create env (s_trace s)")
      (auto simp: addListener_def Let_def sys_step_def intro!: outcome_and_then outcome_comp [OF _ _ safe_AddListener])
qed

text \<open>A new channel enters the store and the list together.\<close>

definition add_cc :: "int \<Rightarrow> nat option \<Rightarrow> socket \<Rightarrow> socket" where
  "add_cc fd po s = (put_cc (s_next s) (new_cc fd po) s)
     \<lparr>s_ccList := s_ccList s @ [s_next s], s_next := Suc (s_next s)\<rparr>"

lemma add_cc_ok:
  assumes s: "sock_ok s" and po: "\<And>i. po = Some i \<Longrightarrow> s_ports s i \<noteq> None"
  shows "sock_ok (add_cc fd po s)" "keeps s (add_cc fd po s)"
proof -
  show k: "keeps s (add_cc fd po s)" by (simp add: keeps_def add_cc_def)
  have r: "role_of (add_cc fd po s) = role_of s" by (rule keeps_role [OF k])
  have new: "cc_ok s (new_cc fd po)" using po by (simp add: cc_ok_def new_cc_def maxControlLen_def)
  have cc: "cc_ok (add_cc fd po s) x = cc_ok s x" for x by (simp add: cc_ok_def add_cc_def)
  have p: "port_ok (add_cc fd po s) q" if "port_ok s q" for q using that by (simp add: port_ok_def add_cc_def)
  show "sock_ok (add_cc fd po s)"
    unfolding sock_ok_def r cc using s new p by (auto simp: sock_ok_def add_cc_def)
qed

lemma addControlChannel_cases:
  obtains e where "addControlChannel env fd po s = Some (Inl e, log_sys (SysEpollAdd (s_epfd s) (int32 fd)) s)"
  | "addControlChannel env fd po s = Some (Inr (s_next s), add_cc fd po (log_sys (SysEpollAdd (s_epfd s) (int32 fd)) s))"
  by (cases "epoll_add env (s_trace s) (s_epfd s) (int32 fd)")
    (simp_all add: addControlChannel_def addEvent_def wrap_err_def add_cc_def)

lemma safe_listener_handleEvent [safe_ops]: "safe (listener_handleEvent env lfd ev)"
proof (rule safeI)
  fix s assume s: "sock_ok s"
  let ?s = "log_sys (SysAccept lfd) s"
  have "outcome s (do {
      (r, s1) \<leftarrow> addControlChannel env fd None ?s;
      (case r of
         Inl e \<Rightarrow> Some (Some (''failed to add control channel: '' @ e), s1)
       | Inr c \<Rightarrow> and_then (wrap_err ''msgEnqHello: '' (msgEnqHello c s1)) (sendMsg env c)) })" for fd
    using add_cc_ok [of "log_sys (SysEpollAdd (s_epfd s) (int32 fd)) ?s" None fd] s
    by (rule_tac addControlChannel_cases [of env fd None ?s])
      (auto intro!: outcome_and_then_safe safe_ops outcome_comp safe_wrap)
  then show "outcome s (listener_handleEvent env lfd ev s)"
    using s by (auto simp: listener_handleEvent_def split: sum.split
        intro!: outcome_and_then safeD [OF safe_listener_close])
qed

lemma safe_parseConnect [safe_ops]: "safe (parseConnect env c)" "safe (parseConnected env c)"
proof -
  have fin: "safe (\<lambda>s1. do { cc1 \<leftarrow> s_ccs s1 c; Some (None, put_cc c (cc1\<lparr>cc_isConnected := True\<rparr>) s1) })"
  proof (rule safeI, rule outcome_bind)
    fix s cc assume "sock_ok s" "s_ccs s c = Some cc"
    then show "outcome s (Some (None, put_cc c (cc\<lparr>cc_isConnected := True\<rparr>) s))"
      using sock_ok_cc [of s c cc] by (intro outcome_put_cc) (simp_all add: cc_ok_def)
  qed
  have conn: "outcome s (and_then (port_connect env i (put_port i (p\<lparr>p_peerName := nm\<rparr>) s))
      (\<lambda>s1. do { cc1 \<leftarrow> s_ccs s1 c; Some (None, put_cc c (cc1\<lparr>cc_isConnected := True\<rparr>) s1) }))"
    if "sock_ok s" "port_of c s = Some (i, p)" for s i p nm
    using outcome_update_port [OF that(1), of i "p\<lparr>p_peerName := nm\<rparr>" None] port_of_ports [OF that(2)]
    by (intro outcome_and_then_safe fin outcome_comp safe_ops) simp_all
  show "safe (parseConnect env c)" "safe (parseConnected env c)"
    by (rule safeI; auto simp: parseConnect_def parseConnected_def split: sum.split
        intro!: outcome_bind conn)+
qed

lemma safe_parseDisconnect [safe_ops]: "safe (parseDisconnect env c)"
  by (rule safeI) (auto simp: parseDisconnect_def split: sum.split intro!: outcome_bind safeD [OF safe_cc_close])

lemma safe_enq_loops [safe_ops]: "safe (enq_regions n i c)" "safe (enq_rings n i rt c)"
proof -
  show "safe (enq_regions n i c)"
  proof (induction n arbitrary: i)
    case (Suc n)
    show ?case unfolding enq_regions.simps by (intro safe_and_then safe_ops Suc.IH)
  qed (simp add: safe_def)
  show "safe (enq_rings n i rt c)"
  proof (induction n arbitrary: i)
    case (Suc n)
    show ?case unfolding enq_rings.simps by (intro safe_and_then safe_ops Suc.IH)
  qed (simp add: safe_def)
qed

lemma safe_with_port: "(\<And>i p. safe (f i p)) \<Longrightarrow> safe (\<lambda>s. do { (i, p) \<leftarrow> port_of c s; f i p s })"
  by (rule safeI) (auto intro!: outcome_bind dest: safeD)

lemma safe_on_hello [safe_ops]: "safe (on_hello env c)"
  unfolding on_hello_def [abs_def]
  by (intro safe_and_then safe_with_port safe_ops)

lemma safe_if: "safe f \<Longrightarrow> safe g \<Longrightarrow> safe (\<lambda>s. if b then f s else g s)"
  by (cases b) (simp_all add: safe_def)

lemma safe_dispatch [safe_ops]: "safe (dispatch env c t)"
  unfolding dispatch_def [abs_def]
  by (intro safe_if safe_and_then safe_ops) (simp add: safe_def)

lemma safe_parseMsg [safe_ops]: "safe (parseMsg env c)"
proof (rule safeI)
  fix s assume s: "sock_ok s"
  have close: "outcome s (do {
      (err1, s2) \<leftarrow> cc_close env c True e s1;
      (case err1 of None \<Rightarrow> Some (Some e, s2) | Some e1 \<Rightarrow> Some (Some (f e1), s2)) })"
    if "sock_ok s1" "keeps s s1" for s1 e f
    using outcome_comp [OF that safe_cc_close, of env c True e]
    by (cases "cc_close env c True e s1") (auto split: option.split)
  show "outcome s (parseMsg env c s)"
  proof (cases "s_ccs s c")
    case (Some cc)
    let ?t = "get_le (window (cc_data cc) 0 2) :: u16"
    show ?thesis
      using safeD [OF safe_dispatch s, of env c ?t] s Some close
      by (cases "dispatch env c ?t s") (auto simp: parseMsg_def Let_def split: option.split)
  qed (simp add: parseMsg_def)
qed

lemma received_ok:
  "cc_ok s cc \<Longrightarrow> cc_ok s (cc_received dt ctl cc)" "cc_ok s cc \<Longrightarrow> cc_ok s (cc\<lparr>cc_controlLen := 0\<rparr>)"
  by (auto simp: cc_ok_def cc_received_def)

lemma safe_cc_handleEvent [safe_ops]: "safe (cc_handleEvent env c ev)"
proof (rule safeI)
  fix s assume s: "sock_ok s"
  have recv: "sock_ok (put_cc c cc' s) \<and> keeps s (put_cc c cc' s)" if "s_ccs s c = Some cc" "cc_ok s cc'" for cc cc'
    using that s by (simp add: put_cc_ok put_cc_keeps)
  have hup: "outcome s (and_then (wrap_err msg (cc_close env c False [] s))
      (\<lambda>s1. do { (_, p) \<leftarrow> port_of c s1; Some (Some (f p), s1) }))" for msg f
    by (intro outcome_and_then) (auto simp: outcome_bind s intro!: safeD [OF safe_cc_close] outcome_bind)
  show "outcome s (cc_handleEvent env c ev s)"
    unfolding cc_handleEvent_def using s
    by (auto simp: Let_def recv received_ok sock_ok_cc split: sum.split
        intro!: hup outcome_bind outcome_and_then_safe outcome_comp [OF _ _ safe_parseMsg] safe_ops)
qed

lemma safe_port_Disconnect [safe_ops]: "safe (port_Disconnect env i)"
  by (rule safeI) (auto simp: port_Disconnect_def split: option.split intro!: outcome_bind safeD [OF safe_cc_close])

lemma safe_port_Delete [safe_ops]: "safe (port_Delete env i)"
proof (rule safeI)
  fix s assume "sock_ok s"
  from safeD [OF safe_port_Disconnect this, of env i] show "outcome s (port_Delete env i s)"
    by (cases "port_Disconnect env i s") (auto simp: port_Delete_def sock_ok_remove keeps_remove)
qed

lemma safe_RequestConnection [safe_ops]: "safe (RequestConnection env i)"
proof (rule safeI)
  fix s assume s: "sock_ok s"
  have "outcome s (do {
      (r, s3) \<leftarrow> addControlChannel env fd (Some i) s2;
      (case r of
         Inl e \<Rightarrow> Some (Some (''failed to create control channel: '' @ e), put_port i (p\<lparr>p_cc := None\<rparr>) s3)
       | Inr c \<Rightarrow> Some (None, put_port i (p\<lparr>p_cc := Some c\<rparr>) s3)) })"
    if p: "s_ports s i = Some p" and s2: "s2 = log_sys e1 (log_sys e2 s)" for fd p s2 e1 e2
  proof (rule addControlChannel_cases [of env fd "Some i" s2])
    let ?s3 = "log_sys (SysEpollAdd (s_epfd s2) (int32 fd)) s2"
    fix e assume "addControlChannel env fd (Some i) s2 = Some (Inl e, ?s3)"
    then show ?thesis
      using outcome_update_port [of ?s3 i "p\<lparr>p_cc := None\<rparr>"] s p by (simp add: s2)
  next
    let ?s3 = "add_cc fd (Some i) (log_sys (SysEpollAdd (s_epfd s2) (int32 fd)) s2)"
    assume a: "addControlChannel env fd (Some i) s2 = Some (Inr (s_next s2), ?s3)"
    have ok: "sock_ok ?s3" "keeps s ?s3"
      using add_cc_ok [of "log_sys (SysEpollAdd (s_epfd s2) (int32 fd)) s2" "Some i" fd] s p by (simp_all add: s2)
    have "port_ok ?s3 (p\<lparr>p_cc := Some (s_next s2)\<rparr>)"
      using sock_ok_port [OF s p] by (simp add: port_ok_def add_cc_def)
    moreover have "s_ports ?s3 i = Some p" using p by (simp add: add_cc_def s2)
    ultimately have "outcome ?s3 (Some (None, put_port i (p\<lparr>p_cc := Some (s_next s2)\<rparr>) ?s3))"
      using ok(1) by (intro outcome_put_port [where p = p]) simp_all
    then show ?thesis using a ok(2) by (auto intro: keeps_trans)
  qed
  then show "outcome s (RequestConnection env i s)"
    using s by (auto simp: RequestConnection_def Let_def sys_step_def and_then_def split: sum.split option.split
        intro!: outcome_bind)
qed

end
