(* ===== verification/Port.thy ===== *)
theory Port
  imports Safety
begin

text \<open>
  The public accessors of a port (\<^verbatim>\<open>src/port.go\<close>, lines 43 to 123 and 250 to 268). The
  connection life cycle is in theory \<open>Control\<close>.
\<close>

section \<open>Model\<close>

definition IsServer :: "port \<Rightarrow> bool" where "IsServer p = cfg_IsServer (p_cfg p)"
definition GetRemoteName :: "port \<Rightarrow> string" where "GetRemoteName p = p_remoteName p"
definition GetPeerName :: "port \<Rightarrow> string" where "GetPeerName p = p_peerName p"
definition GetName :: "port \<Rightarrow> string" where "GetName p = cfg_Name (p_cfg p)"
definition GetMemoryConfig :: "port \<Rightarrow> MemoryConfig" where "GetMemoryConfig p = p_run p"
definition GetExtendData :: "port \<Rightarrow> nat option" where "GetExtendData p = cfg_ExtendData (p_cfg p)"
definition GetId :: "port \<Rightarrow> u32" where "GetId p = cfg_Id (p_cfg p)"

definition RoleToString :: "bool \<Rightarrow> string" where
  "RoleToString isServer = (if isServer then ''Server'' else ''Client'')"

text \<open>The queue an index names; the code checks the upper bound only.\<close>

definition get_queue :: "queue list \<Rightarrow> int \<Rightarrow> (error + queue) option" where
  "get_queue qs qid =
     (if qid \<ge> int (length qs) then Some (Inl ''invalid Queue index'')
      else map_option Inr (go_nth qs qid))"

definition GetRxQueue :: "port \<Rightarrow> int \<Rightarrow> (error + queue) option" where
  "GetRxQueue p qid = get_queue (p_rxQueues p) qid"

definition GetTxQueue :: "port \<Rightarrow> int \<Rightarrow> (error + queue) option" where
  "GetTxQueue p qid = get_queue (p_txQueues p) qid"

definition IsConnecting :: "port \<Rightarrow> bool" where
  "IsConnecting p = (p_cc p \<noteq> None)"

definition IsConnected :: "socket \<Rightarrow> port \<Rightarrow> bool option" where
  "IsConnected s p =
     (case p_cc p of
        None \<Rightarrow> Some False
      | Some c \<Rightarrow> map_option cc_isConnected (s_ccs s c))"

definition newline :: string where "newline = [CHR 0x0A]"
definition tab :: string where "tab = [CHR 0x09]"

definition port_String :: "socket \<Rightarrow> port \<Rightarrow> string option" where
  "port_String s p = do {
     up \<leftarrow> IsConnected s p;
     let r1 = GetName p @ '':'' @ newline @ tab @ ''role: '' @ RoleToString (IsServer p) @ newline @
              tab @ ''id: '' @ itoa (uint (GetId p)) @ newline;
     let link = (if up then ''up'' else ''down'');
     let r2 = r1 @ tab @ ''link:'' @ link @ newline @ tab @ ''remote: '' @ GetRemoteName p @ newline @
              tab @ ''peer: '' @ GetPeerName p @ newline;
     let mc = GetMemoryConfig p;
     Some (if up
           then r2 @ ''queue pairs: '' @ itoa (uint (NumQueuePairs mc)) @ newline @
                ''ring size: '' @ itoa (shl1 (unat (Log2RingSize mc))) @ newline @
                ''buffer size: '' @ itoa (uint (PacketBufferSize mc)) @ newline
           else r2) }"

section \<open>Queue access\<close>

lemma get_queue_iff:
  "get_queue qs qid = (if qid < 0 then None else if nat qid < length qs then Some (Inr (qs ! nat qid))
     else Some (Inl ''invalid Queue index''))"
  by (auto simp: get_queue_def go_nth_def)

text \<open>In a socket that satisfies the invariant the connection status can always be asked for.\<close>

lemma IsConnected_total:
  assumes "sock_ok s" and "s_ports s i = Some p"
  shows "\<exists>b. IsConnected s p = Some b \<and> (b \<longrightarrow> IsConnecting p)"
  using sock_ok_port [OF assms] by (auto simp: port_ok_def IsConnected_def IsConnecting_def split: option.split)

end
