(* ===== verification/Socket.thy ===== *)
theory Socket
  imports Port
begin

text \<open>
  The socket (\<^verbatim>\<open>src/socket.go\<close>, and \<open>NewSocket\<close>, \<open>NewPort\<close> of \<^verbatim>\<open>src/main.go\<close>): creating
  sockets and ports, dispatching epoll events to the listener and the control channels, the body of
  the polling goroutine, and deletion. The second half is the transition system of a socket: its
  steps are the events of the polling goroutine and the public operations, in any order; every
  reachable state satisfies the invariant of theory \<open>Safety\<close>.
\<close>

section \<open>Creating a socket\<close>

definition fd_or_minus1 :: "error + int \<Rightarrow> int" where
  "fd_or_minus1 r = (case r of Inl _ \<Rightarrow> - 1 | Inr fd \<Rightarrow> fd)"

definition NewSocket :: "env \<Rightarrow> trace \<Rightarrow> string \<Rightarrow> string \<Rightarrow> ((error + socket) \<times> trace) option" where
  "NewSocket env tr appName filename = do {
     let epfd = fd_or_minus1 (epoll_create env tr);
     let (efd, tr1) = eventFd env (SysEpollCreate # tr);
     let s = \<lparr> s_appName = appName,
               s_filename = (if filename = [] then DefaultSocketFilename else filename),
               s_listener = None, s_portList = [], s_ccList = [], s_epfd = epfd,
               s_wakeFd = int32 (fd_or_minus1 efd), s_stopPollChan = None, s_ErrChan = [],
               s_ports = (\<lambda>_. None), s_ccs = (\<lambda>_. None), s_next = 0, s_trace = tr1 \<rparr>;
     (err, s1) \<leftarrow> addEvent env (s_wakeFd s) s;
     Some (case err of
             Some e \<Rightarrow> Inl (''failed to add event: '' @ e)
           | None \<Rightarrow> Inr s1, s_trace s1) }"

section \<open>Creating a port\<close>

definition id_taken :: "socket \<Rightarrow> PortCfg \<Rightarrow> nat \<Rightarrow> bool" where
  "id_taken s cfg i =
     (case s_ports s i of
        Some p \<Rightarrow> cfg_Id (p_cfg p) = cfg_Id cfg \<and> cfg_IsServer (p_cfg p) = cfg_IsServer cfg
      | None \<Rightarrow> False)"

definition default_memory :: "MemoryConfig \<Rightarrow> MemoryConfig" where
  "default_memory mc =
     \<lparr> NumQueuePairs = (if NumQueuePairs mc = 0 then DefaultNumQueuePairs else NumQueuePairs mc),
       Log2RingSize = (if Log2RingSize mc = 0 then DefaultLog2RingSize else Log2RingSize mc),
       PacketBufferSize = (if PacketBufferSize mc = 0 then DefaultPacketBufferSize else PacketBufferSize mc) \<rparr>"

definition default_cfg :: "PortCfg \<Rightarrow> PortCfg" where
  "default_cfg cfg = cfg\<lparr>cfg_MemoryConfig := default_memory (cfg_MemoryConfig cfg),
     cfg_DisconnectedFunc :=
       (if cfg_DisconnectedFunc cfg = NilFunc then DefaultFunc else cfg_DisconnectedFunc cfg)\<rparr>"

definition new_port :: "PortCfg \<Rightarrow> port" where
  "new_port cfg = \<lparr> p_cfg = default_cfg cfg,
     p_run = \<lparr> NumQueuePairs = 0, Log2RingSize = 0, PacketBufferSize = 0 \<rparr>,
     p_ExtendData = cfg_ExtendData cfg, p_cc = None, p_remoteName = [], p_peerName = [],
     p_regions = [], p_txQueues = [], p_rxQueues = [], p_ErrChan = False, p_QuitChan = False \<rparr>"

text \<open>The port with its defaults, appended to the socket's list.\<close>

definition add_port :: "PortCfg \<Rightarrow> socket \<Rightarrow> socket" where
  "add_port cfg s = (put_port (s_next s) (new_port cfg) s)
     \<lparr>s_portList := s_portList s @ [s_next s], s_next := Suc (s_next s)\<rparr>"

definition socket_NewPort :: "env \<Rightarrow> PortCfg \<Rightarrow> socket \<Rightarrow> ((error + nat) \<times> socket) option" where
  "socket_NewPort env cfg s =
     (if list_ex (id_taken s cfg) (s_portList s)
      then Some (Inl (''port with id '' @ itoa (uint (cfg_Id cfg)) @ '' role '' @
                      RoleToString (cfg_IsServer cfg) @ '' already exists on this socket''), s)
      else
        let i = s_next s; s1 = add_port cfg s in
        if cfg_IsServer cfg \<and> s_listener s1 = None then do {
          (err, s2) \<leftarrow> addListener env s1;
          Some (case err of
                  Some e \<Rightarrow> Inl (''failed to create listener channel: '' @ e)
                | None \<Rightarrow> Inr i, s2) }
        else Some (Inr i, s1))"

text \<open>The loop of \<open>NewPort\<close> that asks for a connection until the port has a channel; \<open>None\<close> also
  stands for a loop that does not end.\<close>

partial_function (option) connect_loop :: "env \<Rightarrow> nat \<Rightarrow> socket \<Rightarrow> result" where
  "connect_loop env i s = do {
     p \<leftarrow> s_ports s i;
     (if IsConnecting p then Some (None, s)
      else do {
        (err, s1) \<leftarrow> RequestConnection env i s;
        (case err of
           Some e \<Rightarrow> Some (Some (''faild to connect: '' @ e), s1)
         | None \<Rightarrow> connect_loop env i s1) }) }"

definition NewPort :: "env \<Rightarrow> PortCfg \<Rightarrow> socket \<Rightarrow> ((error + nat) \<times> socket) option" where
  "NewPort env cfg s = do {
     (r, s1) \<leftarrow> socket_NewPort env cfg s;
     (case r of
        Inl e \<Rightarrow> Some (Inl (''failed to create interface on socket '' @ s_filename s1 @ '': '' @ e), s1)
      | Inr i \<Rightarrow> do {
          p \<leftarrow> s_ports s1 i;
          (if IsServer p then Some (Inr i, s1)
           else do {
             (err, s2) \<leftarrow> connect_loop env i s1;
             Some (case err of Some e \<Rightarrow> Inl e | None \<Rightarrow> Inr i, s2) }) }) }"

section \<open>Events\<close>

fun find_cc :: "(nat \<rightharpoonup> controlChannel) \<Rightarrow> nat list \<Rightarrow> int \<Rightarrow> nat option" where
  "find_cc ccs [] fd = None"
| "find_cc ccs (c # cs) fd =
     (case ccs c of
        Some cc \<Rightarrow> if cc_fd cc = fd then Some c else find_cc ccs cs fd
      | None \<Rightarrow> find_cc ccs cs fd)"

definition socket_handleEvent :: "env \<Rightarrow> u32 \<times> int \<Rightarrow> socket \<Rightarrow> result" where
  "socket_handleEvent env ev s =
     (case ev of (events, fd) \<Rightarrow>
        if s_listener s = Some fd then listener_handleEvent env fd events s
        else
          (case find_cc (s_ccs s) (s_ccList s) fd of
             Some c \<Rightarrow> cc_handleEvent env c events s
           | None \<Rightarrow> Some (Some errorFdNotFound, s)))"

definition GetFilename :: "socket \<Rightarrow> string" where "GetFilename s = s_filename s"

definition StopPolling :: "env \<Rightarrow> socket \<Rightarrow> result" where
  "StopPolling env s =
     (case s_stopPollChan s of
        None \<Rightarrow> Some (None, s)
      | Some True \<Rightarrow> None
      | Some False \<Rightarrow>
          let s1 = s\<lparr>s_stopPollChan := Some True\<rparr>;
              s2 = log_sys (SysWrite (s_wakeFd s) uvarint_one) s1
          in (case write_fd env (s_trace s) (s_wakeFd s) uvarint_one of
                Inl e \<Rightarrow> Some (Some e, s2)
              | Inr n \<Rightarrow> if n \<noteq> 8 then Some (Some ''faild to write to eventfd'', s2) else Some (None, s2)))"

text \<open>\<open>StartPolling\<close> creates the stop channel; the goroutine then repeats \<open>poll_step\<close>. The first
  component of \<open>poll_step\<close> says whether the goroutine goes on. The code handles the first event of
  the array once for each event received; the array has room for \<open>maxEpollEvents\<close> events.\<close>

definition StartPolling :: "socket \<Rightarrow> socket" where
  "StartPolling s = s\<lparr>s_stopPollChan := Some False\<rparr>"

fun poll_events :: "nat \<Rightarrow> env \<Rightarrow> u32 \<times> int \<Rightarrow> socket \<Rightarrow> socket option" where
  "poll_events 0 env ev s = Some s"
| "poll_events (Suc n) env ev s =
     (if snd ev = s_wakeFd s then poll_events n env ev s
      else do {
        (err, s1) \<leftarrow> socket_handleEvent env ev s;
        poll_events n env ev
          (case err of
             Some e \<Rightarrow> s1\<lparr>s_ErrChan := s_ErrChan s1 @ [''handleEvent: '' @ e]\<rparr>
           | None \<Rightarrow> s1) })"

definition poll_step :: "env \<Rightarrow> socket \<Rightarrow> (bool \<times> socket) option" where
  "poll_step env s =
     (if s_stopPollChan s = Some True then Some (False, s)
      else
        let s1 = log_sys (SysEpollWait (s_epfd s)) s in
        case epoll_wait env (s_trace s) (s_epfd s) of
          Inl e \<Rightarrow> Some (False, s1\<lparr>s_ErrChan := s_ErrChan s1 @ [''epollWait: '' @ e]\<rparr>)
        | Inr evs \<Rightarrow>
            (case take maxEpollEvents evs of
               [] \<Rightarrow> Some (True, s1)
             | ev # rest \<Rightarrow> map_option (Pair True) (poll_events (Suc (length rest)) env ev s1)))"

section \<open>Deleting a socket\<close>

text \<open>\<open>elt.Next()\<close> of an element that is no longer in the list is \<open>nil\<close>.\<close>

fun list_next :: "nat list \<Rightarrow> nat \<Rightarrow> nat option" where
  "list_next [] x = None"
| "list_next (y # ys) x =
     (if x = y then (case ys of [] \<Rightarrow> None | z # _ \<Rightarrow> Some z) else list_next ys x)"

definition list_front :: "nat list \<Rightarrow> nat option" where
  "list_front xs = (case xs of [] \<Rightarrow> None | x # _ \<Rightarrow> Some x)"

partial_function (option) delete_ccs :: "env \<Rightarrow> nat option \<Rightarrow> socket \<Rightarrow> result" where
  "delete_ccs env elt s =
     (case elt of
        None \<Rightarrow> Some (None, s)
      | Some c \<Rightarrow> do {
          (err, s1) \<leftarrow> cc_close env c True ''Socket deleted'' s;
          (case err of
             Some e \<Rightarrow> Some (Some e, s1)
           | None \<Rightarrow> delete_ccs env (list_next (s_ccList s1) c) s1) })"

partial_function (option) delete_ports :: "env \<Rightarrow> nat option \<Rightarrow> socket \<Rightarrow> result" where
  "delete_ports env elt s =
     (case elt of
        None \<Rightarrow> Some (None, s)
      | Some i \<Rightarrow> do {
          (err, s1) \<leftarrow> port_Delete env i s;
          (case err of
             Some e \<Rightarrow> Some (Some e, s1)
           | None \<Rightarrow> delete_ports env (list_next (s_portList s1) i) s1) })"

definition delete_wake :: "env \<Rightarrow> socket \<Rightarrow> result" where
  "delete_wake env s =
     and_then (wrap_err ''failed to delete event: '' (delEvent env (s_wakeFd s) s))
       (\<lambda>s1. Some (None, log_sys (SysClose (s_epfd s1)) s1))"

text \<open>An error of the loop over the channels, or of removing the file, ends the deletion with a
  \<open>nil\<close> error.\<close>

definition socket_Delete :: "env \<Rightarrow> socket \<Rightarrow> result" where
  "socket_Delete env s = do {
     (err, s1) \<leftarrow> delete_ccs env (list_front (s_ccList s)) s;
     (case err of
        Some _ \<Rightarrow> Some (None, s1)
      | None \<Rightarrow>
          and_then (delete_ports env (list_front (s_portList s1)) s1) (\<lambda>s2.
            case s_listener s2 of
              None \<Rightarrow> delete_wake env s2
            | Some lfd \<Rightarrow>
                and_then (listener_close env lfd s2) (\<lambda>s3.
                  let s4 = log_sys (SysRemove (s_filename s3)) s3 in
                  case remove_file env (s_trace s3) (s_filename s3) of
                    Some _ \<Rightarrow> Some (None, s4)
                  | None \<Rightarrow> delete_wake env s4))) }"

section \<open>New ports\<close>

lemma sock_ok_new:
  assumes "NewSocket env tr a f = Some (Inr s, tr')"
  shows "sock_ok s"
  using assms
  by (auto simp: NewSocket_def addEvent_def sock_ok_def Let_def split: prod.splits option.splits)

lemma new_port_ok: "port_ok s (new_port cfg)"
  by (simp add: port_ok_def new_port_def default_cfg_def)

lemma role_add_port:
  "role_of (add_port cfg s) i = (if i = s_next s then Some (cfg_Id cfg, cfg_IsServer cfg) else role_of s i)"
  by (simp add: role_of_def add_port_def new_port_def default_cfg_def)

lemma id_taken_role: "id_taken s cfg i \<longleftrightarrow> role_of s i = Some (cfg_Id cfg, cfg_IsServer cfg)"
  by (auto simp: id_taken_def role_of_def split: option.split)

lemma add_port_ok:
  assumes s: "sock_ok s" and free: "\<not> list_ex (id_taken s cfg) (s_portList s)"
  shows "sock_ok (add_port cfg s)"
proof -
  let ?s = "add_port cfg s"
  have n: "s_next s \<notin> set (s_portList s)" using s by (auto simp: sock_ok_def)
  have "inj_on (role_of ?s) (set (s_portList s))"
    using s n by (auto simp: sock_ok_def inj_on_def role_add_port)
  moreover have "role_of ?s i \<noteq> role_of ?s (s_next s)" if "i \<in> set (s_portList s)" for i
    using that free n by (auto simp: list_ex_iff id_taken_role role_add_port)
  ultimately have inj: "inj_on (role_of ?s) (set (s_portList ?s))"
    by (auto simp: add_port_def inj_on_def) metis+
  have "cc_ok ?s cc" if "cc_ok s cc" for cc using that by (simp add: cc_ok_def add_port_def)
  moreover have "port_ok ?s p = port_ok s p" for p by (simp add: port_ok_def add_port_def)
  ultimately show ?thesis
    unfolding sock_ok_def [of ?s] using s n inj by (auto simp: sock_ok_def add_port_def new_port_ok)
qed

lemma socket_NewPort_ok:
  assumes s: "sock_ok s" and r: "socket_NewPort env cfg s = Some (r, s')"
  shows "sock_ok s'"
proof (cases "list_ex (id_taken s cfg) (s_portList s)")
  case True
  then show ?thesis using r s by (simp add: socket_NewPort_def)
next
  case False
  note ok = add_port_ok [OF s False]
  from r False consider "s' = add_port cfg s" | err where "addListener env (add_port cfg s) = Some (err, s')"
    by (auto simp: socket_NewPort_def Let_def bind_eq_Some_conv split: if_splits)
  then show ?thesis
    using ok safeD [OF safe_addListener ok, of env] by cases auto
qed

text \<open>Creating a listener never panics, so creating a port does not either.\<close>

lemma addListener_total: "\<exists>err s'. addListener env s = Some (err, s')"
  by (auto simp: addListener_def AddListener_def addEvent_def sys_step_def and_then_def wrap_err_def Let_def
      split: sum.split option.split)

lemma socket_NewPort_total: "\<exists>r s'. socket_NewPort env cfg s = Some (r, s')"
  using addListener_total [of env "add_port cfg s"] by (auto simp: socket_NewPort_def Let_def)

lemma socket_NewPort_port:
  assumes "sock_ok s" and "socket_NewPort env cfg s = Some (Inr i, s')"
  shows "i = s_next s" "\<exists>p. s_ports s' i = Some p \<and> p_cfg p = default_cfg cfg" "role_of s' i = Some (cfg_Id cfg, cfg_IsServer cfg)"
proof -
  have free: "\<not> list_ex (id_taken s cfg) (s_portList s)"
    using assms(2) by (auto simp: socket_NewPort_def)
  note ok = add_port_ok [OF assms(1) free]
  from assms(2) free have i: "i = s_next s" and "s' = add_port cfg s \<or> (\<exists>err. addListener env (add_port cfg s) = Some (err, s'))"
    by (auto simp: socket_NewPort_def Let_def bind_eq_Some_conv split: if_splits option.splits)
  then have k: "keeps (add_port cfg s) s'"
    using safeD [OF safe_addListener ok, of env] by (auto simp: outcome_def)
  show "i = s_next s" by (rule i)
  have "s_ports (add_port cfg s) i = Some (new_port cfg)" by (simp add: add_port_def i)
  then show "\<exists>p. s_ports s' i = Some p \<and> p_cfg p = default_cfg cfg"
    using keeps_port [OF k] by (metis new_port_def port.select_convs(1))
  show "role_of s' i = Some (cfg_Id cfg, cfg_IsServer cfg)"
    unfolding keeps_role [OF k] by (simp add: role_add_port i)
qed

text \<open>One request settles the connection loop.\<close>

lemma RequestConnection_total:
  assumes "s_ports s i = Some p" and "\<not> cfg_IsServer (p_cfg p)"
  shows "(\<exists>e s'. RequestConnection env i s = Some (Some e, s')) \<or>
    (\<exists>c s' p'. RequestConnection env i s = Some (None, s') \<and> s_ports s' i = Some p' \<and> p_cc p' = Some c)"
proof (cases "socket_create env (s_trace s)")
  case (Inl e)
  then show ?thesis using assms by (simp add: RequestConnection_def)
next
  case (Inr fd)
  let ?s1 = "log_sys SysSocket s"
  let ?s2 = "log_sys (SysConnect fd (s_filename s)) ?s1"
  show ?thesis
  proof (cases "connect_fd env (s_trace ?s1) fd (s_filename s)")
    case None
    show ?thesis
      by (rule addControlChannel_cases [of env fd "Some i" ?s2])
        (use assms Inr None in \<open>simp_all add: RequestConnection_def sys_step_def and_then_def Let_def\<close>)
  next
    case (Some e)
    then show ?thesis using assms Inr by (simp add: RequestConnection_def sys_step_def and_then_def Let_def)
  qed
qed

lemma connect_loop_unfold:
  assumes "s_ports s i = Some p" and "\<not> cfg_IsServer (p_cfg p)"
  shows "connect_loop env i s =
    (if IsConnecting p then Some (None, s)
     else wrap_err ''faild to connect: '' (RequestConnection env i s))"
proof (cases "IsConnecting p")
  case True
  then show ?thesis using assms(1) by (subst connect_loop.simps) simp
next
  case False
  from RequestConnection_total [OF assms, of env] show ?thesis
  proof (elim disjE exE conjE)
    fix e s' assume "RequestConnection env i s = Some (Some e, s')"
    then show ?thesis using assms(1) False by (subst connect_loop.simps) (simp add: wrap_err_def)
  next
    fix c s' p' assume a: "RequestConnection env i s = Some (None, s')" "s_ports s' i = Some p'" "p_cc p' = Some c"
    then have "connect_loop env i s' = Some (None, s')"
      by (subst connect_loop.simps) (simp add: IsConnecting_def)
    then show ?thesis using assms(1) a(1) False by (subst connect_loop.simps) (simp add: wrap_err_def)
  qed
qed

lemma connect_loop_total:
  assumes "s_ports s i = Some p" and "\<not> cfg_IsServer (p_cfg p)"
  shows "\<exists>err s'. connect_loop env i s = Some (err, s')"
  using RequestConnection_total [OF assms, of env] connect_loop_unfold [OF assms, of env]
  by (auto simp: wrap_err_def)

lemma connect_loop_outcome:
  assumes "sock_ok s" and "s_ports s i = Some p" and "\<not> cfg_IsServer (p_cfg p)"
  shows "outcome s (connect_loop env i s)"
  using assms safeD [OF safe_RequestConnection assms(1), of env i]
  by (simp add: connect_loop_unfold)

lemma NewPort_cases:
  assumes s: "sock_ok s" and e: "socket_NewPort env cfg s = Some (r, s1)"
  obtains e where "r = Inl e"
    "NewPort env cfg s = Some (Inl (''failed to create interface on socket '' @ s_filename s1 @ '': '' @ e), s1)"
  | i p where "r = Inr i" "s_ports s1 i = Some p" "p_cfg p = default_cfg cfg" "cfg_IsServer cfg"
    "NewPort env cfg s = Some (Inr i, s1)"
  | i p err s2 where "r = Inr i" "s_ports s1 i = Some p" "p_cfg p = default_cfg cfg" "\<not> cfg_IsServer cfg"
    "connect_loop env i s1 = Some (err, s2)"
    "NewPort env cfg s = Some (case err of Some e \<Rightarrow> Inl e | None \<Rightarrow> Inr i, s2)"
proof (cases r)
  case (Inl e)
  then show thesis using that(1) e by (simp add: NewPort_def)
next
  case (Inr i)
  from socket_NewPort_port [OF s e [unfolded Inr]] obtain p where p: "s_ports s1 i = Some p" "p_cfg p = default_cfg cfg"
    by blast
  have srv: "IsServer p = cfg_IsServer cfg" by (simp add: IsServer_def p(2) default_cfg_def)
  show thesis
  proof (cases "cfg_IsServer cfg")
    case True
    then show thesis using that(2) Inr p srv e by (simp add: NewPort_def)
  next
    case False
    then have "\<not> cfg_IsServer (p_cfg p)" by (simp add: p(2) default_cfg_def)
    then obtain err s2 where "connect_loop env i s1 = Some (err, s2)" using connect_loop_total [OF p(1)] by blast
    then show thesis using that(3) Inr p srv e False by (simp add: NewPort_def)
  qed
qed

lemma NewPort_total:
  assumes "sock_ok s"
  shows "\<exists>r s'. NewPort env cfg s = Some (r, s') \<and> sock_ok s'"
proof -
  obtain r s1 where e: "socket_NewPort env cfg s = Some (r, s1)" using socket_NewPort_total by blast
  note ok = socket_NewPort_ok [OF assms e]
  show ?thesis
  proof (rule NewPort_cases [OF assms e])
    fix i p err s2 assume a: "r = Inr i" "s_ports s1 i = Some p" "p_cfg p = default_cfg cfg" "\<not> cfg_IsServer cfg"
      "connect_loop env i s1 = Some (err, s2)"
      "NewPort env cfg s = Some (case err of Some e \<Rightarrow> Inl e | None \<Rightarrow> Inr i, s2)"
    then have "\<not> cfg_IsServer (p_cfg p)" by (simp add: default_cfg_def)
    then have "sock_ok s2" using connect_loop_outcome [OF ok a(2), of env] a(5) by simp
    then show ?thesis using a(6) by simp
  qed (use ok in simp_all)
qed

section \<open>The lists under the operations\<close>

text \<open>Which operations change the lists of ports and channels and the listener.\<close>

definition lists :: "socket \<Rightarrow> nat list \<times> nat list \<times> int option" where
  "lists s = (s_portList s, s_ccList s, s_listener s)"

lemma lists_sel [simp]:
  "lists (log_sys ev s) = lists s" "lists (put_port i p s) = lists s" "lists (put_cc c cc s) = lists s"
  "lists (s\<lparr>s_trace := tr\<rparr>) = lists s"
  by (simp_all add: lists_def)

lemma and_then_SomeE:
  assumes "and_then r f = Some (err, s')"
  obtains e where "r = Some (Some e, s')" "err = Some e" | s1 where "r = Some (None, s1)" "f s1 = Some (err, s')"
  using assms by (cases r; cases "fst (the r)") (auto simp: and_then_def)

lemma wrap_err_Some: "wrap_err msg r = Some (err, s') \<longleftrightarrow> (\<exists>e. r = Some (e, s') \<and> err = map_option ((@) msg) e)"
  by (auto simp: wrap_err_def)

lemma lists_disconnect: "port_disconnect env i s = Some (err, s') \<Longrightarrow> lists s' = lists s"
  by (auto simp: port_disconnect_def call_DisconnectedFunc_def defaultDisconnectedFunc_def wrap_err_Some
      bind_eq_Some_conv Let_def elim!: and_then_SomeE split: if_splits callback.splits prod.splits option.splits)

lemma lists_sendMsg: "sendMsg env c s = Some (err, s') \<Longrightarrow> lists s' = lists s"
  by (cases "s_ccs s c"; cases "cc_msgQueue (the (s_ccs s c))")
    (auto simp: sendMsg_def Let_def split: if_splits)

lemma lists_delEvent: "delEvent env fd s = Some (err, s') \<Longrightarrow> lists s' = lists s"
  by (auto simp: delEvent_def)

lemma addListener_portList: "addListener env s = Some (err, s') \<Longrightarrow> s_portList s' = s_portList s"
  by (auto simp: addListener_def AddListener_def addEvent_def sys_step_def wrap_err_Some Let_def
      elim!: and_then_SomeE split: sum.splits)

lemma RequestConnection_portList:
  assumes "RequestConnection env i s = Some (err, s')"
  shows "s_portList s' = s_portList s"
proof -
  obtain p where p: "s_ports s i = Some p" using assms by (auto simp: RequestConnection_def bind_eq_Some_conv)
  show ?thesis
  proof (cases "cfg_IsServer (p_cfg p)")
    case False
    show ?thesis
    proof (cases "socket_create env (s_trace s)")
      case (Inr fd)
      let ?s2 = "log_sys (SysConnect fd (s_filename s)) (log_sys SysSocket s)"
      show ?thesis
        by (rule addControlChannel_cases [of env fd "Some i" ?s2])
          (use assms p False Inr in \<open>auto simp: RequestConnection_def sys_step_def and_then_def Let_def add_cc_def split: option.splits\<close>)
    qed (use assms p False in \<open>auto simp: RequestConnection_def\<close>)
  qed (use assms p in \<open>auto simp: RequestConnection_def\<close>)
qed

lemma NewPort_extends:
  assumes ok: "sock_ok s" and new: "NewPort env cfg s = Some (Inr i, s')"
  shows "sock_ok s'" "s_portList s' = s_portList s @ [i]" "map_option p_cfg (s_ports s' i) = Some (default_cfg cfg)"
    "j \<in> set (s_portList s) \<Longrightarrow> map_option p_cfg (s_ports s' j) = map_option p_cfg (s_ports s j)"
proof -
  show "sock_ok s'" using NewPort_total [OF ok, of env cfg] new by auto
  obtain r s1 where e: "socket_NewPort env cfg s = Some (r, s1)" using socket_NewPort_total by blast
  have "r = Inr i" and free: "\<not> list_ex (id_taken s cfg) (s_portList s)"
    using new e by (auto simp: NewPort_def socket_NewPort_def bind_eq_Some_conv Let_def split: sum.splits if_splits option.splits)
  note e = e [unfolded this(1)]
  have i: "i = s_next s" and p: "\<exists>p. s_ports s1 i = Some p \<and> p_cfg p = default_cfg cfg" using socket_NewPort_port [OF ok e] by blast+
  have k: "keeps (add_port cfg s) s1 \<and> s_portList s1 = s_portList s @ [i]"
    using e free i safeD [OF safe_addListener add_port_ok [OF ok free], of env]
    by (auto simp: socket_NewPort_def Let_def bind_eq_Some_conv add_port_def dest: addListener_portList split: if_splits option.splits)
  have k2: "keeps s1 s' \<and> s_portList s' = s_portList s1"
  proof (rule NewPort_cases [OF ok e])
    fix i2 p err s2 assume a: "Inr i = Inr i2" "s_ports s1 i2 = Some p" "p_cfg p = default_cfg cfg" "\<not> cfg_IsServer cfg"
      "connect_loop env i2 s1 = Some (err, s2)" "NewPort env cfg s = Some (case err of Some e \<Rightarrow> Inl e | None \<Rightarrow> Inr i2, s2)"
    have cl: "\<not> cfg_IsServer (p_cfg p)" using a(3,4) by (simp add: default_cfg_def)
    have "s' = s2" using a(6) new by simp
    moreover have "keeps s1 s2" using connect_loop_outcome [OF socket_NewPort_ok [OF ok e] a(2) cl, of env] a(5) by simp
    moreover have "s_portList s2 = s_portList s1"
      using a(5) connect_loop_unfold [OF a(2) cl, of env]
      by (auto simp: wrap_err_Some dest: RequestConnection_portList split: if_splits)
    ultimately show ?thesis by simp
  qed (use new in auto)
  show "s_portList s' = s_portList s @ [i]" using k k2 by simp
  show "map_option p_cfg (s_ports s' i) = Some (default_cfg cfg)" using p k2 by (auto simp: keeps_def)
  show "map_option p_cfg (s_ports s' j) = map_option p_cfg (s_ports s j)" if "j \<in> set (s_portList s)"
  proof -
    have "j \<noteq> s_next s" using ok that by (auto simp: sock_ok_def)
    then show ?thesis using k k2 by (simp add: keeps_def add_port_def)
  qed
qed

lemma lists_cc_close:
  assumes "cc_close env c b str s = Some (err, s')"
  shows "s_portList s' = s_portList s" "s_listener s' = s_listener s"
    "s_ccList s' = s_ccList s \<or> s_ccList s' = remove1 c (s_ccList s)"
    "err = None \<Longrightarrow> s_ccList s' = remove1 c (s_ccList s)"
proof -
  have d: "lists s' = (s_portList s, remove1 c (s_ccList s), s_listener s)"
    if "cc_detach env c s = Some (err, s')" for s
    using that by (auto simp: cc_detach_def bind_eq_Some_conv Let_def wrap_err_Some lists_def
        dest!: lists_disconnect split: option.splits)
  have "lists s' = lists s \<and> err \<noteq> None \<or> lists s' = (s_portList s, remove1 c (s_ccList s), s_listener s)"
    using assms
    by (auto simp: cc_close_def bind_eq_Some_conv msgEnqDisconnect_def msg_enq_def wrap_err_Some
        dest!: d lists_sendMsg lists_delEvent elim!: and_then_SomeE split: if_splits)
      (auto simp: lists_def)
  then show "s_portList s' = s_portList s" "s_listener s' = s_listener s"
    "s_ccList s' = s_ccList s \<or> s_ccList s' = remove1 c (s_ccList s)"
    "err = None \<Longrightarrow> s_ccList s' = remove1 c (s_ccList s)"
    by (auto simp: lists_def)
qed

section \<open>Deletion\<close>

lemma list_next_removed: "x \<notin> set xs \<Longrightarrow> list_next xs x = None"
  by (induction xs) auto

text \<open>Removing the element the loop stands on ends the loop: only the first channel and the first
  port are deleted.\<close>

lemma delete_ccs_first:
  assumes "sock_ok s"
  shows "delete_ccs env (list_front (s_ccList s)) s =
    (case s_ccList s of [] \<Rightarrow> Some (None, s) | c # _ \<Rightarrow> cc_close env c True ''Socket deleted'' s)"
proof (cases "s_ccList s")
  case Nil
  then show ?thesis by (subst delete_ccs.simps) (simp add: list_front_def)
next
  case (Cons c cs)
  have "delete_ccs env (list_next (s_ccList s1) c) s1 = Some (None, s1)"
    if "cc_close env c True ''Socket deleted'' s = Some (None, s1)" for s1
  proof -
    have "c \<notin> set (s_ccList s1)"
      using lists_cc_close(4) [OF that] assms by (simp add: sock_ok_def Cons)
    then show ?thesis by (subst delete_ccs.simps) (simp add: list_next_removed)
  qed
  then show ?thesis
    by (subst delete_ccs.simps; cases "cc_close env c True ''Socket deleted'' s")
      (auto simp: list_front_def Cons split: option.split)
qed

lemma port_Delete_list:
  assumes "port_Delete env i s = Some (err, s')"
  shows "err = None" "s_portList s' = remove1 i (s_portList s)"
proof -
  from assms obtain e s1 where "port_Disconnect env i s = Some (e, s1)"
    and *: "err = None" "s' = s1\<lparr>s_portList := remove1 i (s_portList s1)\<rparr>"
    by (auto simp: port_Delete_def bind_eq_Some_conv)
  then have "s_portList s1 = s_portList s"
    by (auto simp: port_Disconnect_def bind_eq_Some_conv dest: lists_cc_close(1) split: option.splits)
  with * show "err = None" "s_portList s' = remove1 i (s_portList s)" by simp_all
qed

lemma delete_ports_first:
  assumes "sock_ok s"
  shows "delete_ports env (list_front (s_portList s)) s =
    (case s_portList s of [] \<Rightarrow> Some (None, s) | i # _ \<Rightarrow> port_Delete env i s)"
proof (cases "s_portList s")
  case Nil
  then show ?thesis by (subst delete_ports.simps) (simp add: list_front_def)
next
  case (Cons i js)
  have "delete_ports env (list_next (s_portList s1) i) s1 = Some (None, s1)"
    if "port_Delete env i s = Some (err, s1)" for err s1
  proof -
    have "i \<notin> set (s_portList s1)"
      using port_Delete_list(2) [OF that] assms by (simp add: sock_ok_def Cons)
    then show ?thesis by (subst delete_ports.simps) (simp add: list_next_removed)
  qed
  then show ?thesis
    by (subst delete_ports.simps; cases "port_Delete env i s")
      (auto simp: list_front_def Cons dest: port_Delete_list(1))
qed

lemma safe_delete_ccs: "safe (\<lambda>s. delete_ccs env (list_front (s_ccList s)) s)"
  by (rule safeI) (auto simp: delete_ccs_first split: list.split intro!: safeD [OF safe_cc_close])

lemma safe_delete_ports: "safe (\<lambda>s. delete_ports env (list_front (s_portList s)) s)"
  by (rule safeI) (auto simp: delete_ports_first split: list.split intro!: safeD [OF safe_port_Delete])

lemma safe_delete_wake: "safe (delete_wake env)"
  by (rule safeI) (auto simp: delete_wake_def intro!: outcome_and_then safeD [OF safe_delEvent])

lemma safe_socket_Delete [safe_ops]: "safe (socket_Delete env)"
proof (rule safeI)
  fix s assume s: "sock_ok s"
  have lsn: "safe (\<lambda>s2. case s_listener s2 of
      None \<Rightarrow> delete_wake env s2
    | Some lfd \<Rightarrow>
        and_then (listener_close env lfd s2) (\<lambda>s3.
          let s4 = log_sys (SysRemove (s_filename s3)) s3 in
          case remove_file env (s_trace s3) (s_filename s3) of
            Some _ \<Rightarrow> Some (None, s4)
          | None \<Rightarrow> delete_wake env s4))"
    by (rule safeI) (auto simp: Let_def split: option.split intro!: outcome_and_then safeD [OF safe_listener_close]
        safeD [OF safe_delete_wake] outcome_comp [OF _ _ safe_delete_wake])
  have rest: "outcome s (and_then (delete_ports env (list_front (s_portList s1)) s1) (\<lambda>s2. case s_listener s2 of
      None \<Rightarrow> delete_wake env s2
    | Some lfd \<Rightarrow>
        and_then (listener_close env lfd s2) (\<lambda>s3.
          let s4 = log_sys (SysRemove (s_filename s3)) s3 in
          case remove_file env (s_trace s3) (s_filename s3) of
            Some _ \<Rightarrow> Some (None, s4)
          | None \<Rightarrow> delete_wake env s4)))" if "sock_ok s1" "keeps s s1" for s1
    by (intro outcome_and_then_safe lsn outcome_comp [OF that safe_delete_ports])
  show "outcome s (socket_Delete env s)"
    using safeD [OF safe_delete_ccs s, of env] rest
    by (cases "delete_ccs env (list_front (s_ccList s)) s") (auto simp: socket_Delete_def split: option.split)
qed

section \<open>The transition system of a socket\<close>

lemma find_cc_Some: "find_cc ccs cs fd = Some c \<Longrightarrow> c \<in> set cs \<and> (\<exists>cc. ccs c = Some cc \<and> cc_fd cc = fd)"
  by (induction cs) (auto split: option.splits if_splits)

lemma find_cc_find: "find_cc ccs cs fd = find (\<lambda>c. map_option cc_fd (ccs c) = Some fd) cs"
  by (induction cs) (auto split: option.splits)

text \<open>Events are dispatched by file descriptor: to the listener, else to the first channel of the list with it.\<close>

lemma socket_handleEvent_find:
  "socket_handleEvent env (ev, fd) s =
     (if s_listener s = Some fd then listener_handleEvent env fd ev s
      else case find (\<lambda>c. map_option cc_fd (s_ccs s c) = Some fd) (s_ccList s) of
             Some c \<Rightarrow> cc_handleEvent env c ev s
           | None \<Rightarrow> Some (Some ''fd not found'', s))"
  by (simp add: socket_handleEvent_def find_cc_find errorFdNotFound_def split: option.split)

lemma safe_socket_handleEvent [safe_ops]: "safe (socket_handleEvent env ev)"
  by (rule safeI) (auto simp: socket_handleEvent_def split: prod.split option.split
      intro!: safeD [OF safe_listener_handleEvent] safeD [OF safe_cc_handleEvent])

lemma safe_StopPolling [safe_ops]: "safe (StopPolling env)"
  by (rule safeI) (auto simp: StopPolling_def Let_def split: option.split bool.split sum.split)

lemma poll_events_ok: "sock_ok s \<Longrightarrow> poll_events n env ev s = Some s' \<Longrightarrow> sock_ok s' \<and> keeps s s'"
proof (induction n arbitrary: s)
  case (Suc n)
  show ?case
  proof (cases "snd ev = s_wakeFd s")
    case False
    with Suc.prems(2) obtain err s1 where e: "socket_handleEvent env ev s = Some (err, s1)"
      and p: "poll_events n env ev (case err of
             Some e \<Rightarrow> s1\<lparr>s_ErrChan := s_ErrChan s1 @ [''handleEvent: '' @ e]\<rparr> | None \<Rightarrow> s1) = Some s'"
      by (auto simp: bind_eq_Some_conv)
    have ok: "sock_ok s1 \<and> keeps s s1"
      using safeD [OF safe_socket_handleEvent Suc.prems(1), of env ev] e by simp
    show ?thesis
    proof (cases err)
      case None
      with p ok Suc.IH [of s1] show ?thesis by (auto intro: keeps_trans)
    next
      case (Some e)
      let ?s = "s1\<lparr>s_ErrChan := s_ErrChan s1 @ [''handleEvent: '' @ e]\<rparr>"
      have "sock_ok ?s" "keeps s ?s" using ok by simp_all
      with p Some Suc.IH [of ?s] show ?thesis by (auto intro: keeps_trans)
    qed
  qed (use Suc in simp)
qed simp

lemma poll_step_ok: "sock_ok s \<Longrightarrow> poll_step env s = Some (b, s') \<Longrightarrow> sock_ok s' \<and> keeps s s'"
  by (auto simp: poll_step_def Let_def split: if_splits sum.splits list.splits
      dest!: poll_events_ok [rotated] simp del: poll_events.simps)

text \<open>The steps: an iteration of the polling goroutine and the public operations. The application
  drains the error channel.\<close>

inductive sock_step :: "env \<Rightarrow> socket \<Rightarrow> socket \<Rightarrow> bool" for env where
  Poll: "poll_step env s = Some (b, s') \<Longrightarrow> sock_step env s s'"
| Create: "NewPort env cfg s = Some (r, s') \<Longrightarrow> sock_step env s s'"
| AddPort: "socket_NewPort env cfg s = Some (r, s') \<Longrightarrow> sock_step env s s'"
| Request: "RequestConnection env i s = Some (err, s') \<Longrightarrow> sock_step env s s'"
| Disconnect: "port_Disconnect env i s = Some (err, s') \<Longrightarrow> sock_step env s s'"
| DeletePort: "port_Delete env i s = Some (err, s') \<Longrightarrow> sock_step env s s'"
| Listen: "AddListener env fd s = Some (err, s') \<Longrightarrow> sock_step env s s'"
| Start: "sock_step env s (StartPolling s)"
| Stop: "StopPolling env s = Some (err, s') \<Longrightarrow> sock_step env s s'"
| Drain: "sock_step env s (s\<lparr>s_ErrChan := tl (s_ErrChan s)\<rparr>)"
| Delete: "socket_Delete env s = Some (err, s') \<Longrightarrow> sock_step env s s'"

inductive reachable :: "env \<Rightarrow> socket \<Rightarrow> bool" for env where
  New: "NewSocket env tr a f = Some (Inr s, tr') \<Longrightarrow> reachable env s"
| Step: "reachable env s \<Longrightarrow> sock_step env s s' \<Longrightarrow> reachable env s'"

lemma sock_step_ok:
  assumes "sock_step env s s'" and "sock_ok s"
  shows "sock_ok s'"
  using assms
proof cases
  case (Poll b)
  then show ?thesis using poll_step_ok [OF assms(2)] by blast
next
  case (AddPort cfg r)
  then show ?thesis using socket_NewPort_ok [OF assms(2)] by blast
next
  case (Create cfg r)
  then show ?thesis using NewPort_total [OF assms(2), of env cfg] by auto
next
  case (Request i err)
  then show ?thesis using safeD [OF safe_RequestConnection assms(2), of env i] by simp
next
  case (Disconnect i err)
  then show ?thesis using safeD [OF safe_port_Disconnect assms(2), of env i] by simp
next
  case (DeletePort i err)
  then show ?thesis using safeD [OF safe_port_Delete assms(2), of env i] by simp
next
  case (Listen fd err)
  then show ?thesis using safeD [OF safe_AddListener assms(2), of env fd] by simp
next
  case (Stop err)
  then show ?thesis using safeD [OF safe_StopPolling assms(2), of env] by simp
next
  case (Delete err)
  then show ?thesis using safeD [OF safe_socket_Delete assms(2), of env] by simp
qed (simp_all add: assms(2) StartPolling_def)

lemma reachable_ok: "reachable env s \<Longrightarrow> sock_ok s"
  by (induction rule: reachable.induct) (auto intro: sock_ok_new sock_step_ok)

section \<open>What the operations leave of a port\<close>

text \<open>A port of a socket stays, with its configuration, and its closed channels stay closed.\<close>

definition port_stays :: "nat \<Rightarrow> socket \<Rightarrow> socket \<Rightarrow> bool" where
  "port_stays i s s' \<longleftrightarrow> (\<forall>p. s_ports s i = Some p \<longrightarrow>
     (\<exists>p'. s_ports s' i = Some p' \<and> p_cfg p' = p_cfg p \<and> still_closed p p'))"

lemma port_stays_refl [simp]: "port_stays i s s"
  by (simp add: port_stays_def)

lemma port_stays_trans: "port_stays i s s1 \<Longrightarrow> port_stays i s1 s2 \<Longrightarrow> port_stays i s s2"
  unfolding port_stays_def by (metis still_closed_trans)

lemma keeps_stays: "keeps s s' \<Longrightarrow> port_stays i s s'"
  unfolding port_stays_def using keeps_port keeps_closed by metis

lemma outcome_stays: "outcome s (Some (err, s')) \<Longrightarrow> port_stays i s s'"
  by (simp add: keeps_stays)

lemma socket_NewPort_stays:
  assumes "sock_ok s" and "socket_NewPort env cfg s = Some (r, s')"
  shows "port_stays i s s'"
proof (cases "list_ex (id_taken s cfg) (s_portList s)")
  case False
  note ok = add_port_ok [OF assms(1) False]
  have a: "port_stays i s (add_port cfg s)"
    using assms(1) by (auto simp: port_stays_def add_port_def sock_ok_def)
  from assms(2) False consider "s' = add_port cfg s" | err where "addListener env (add_port cfg s) = Some (err, s')"
    by (auto simp: socket_NewPort_def Let_def bind_eq_Some_conv split: if_splits)
  then show ?thesis
  proof cases
    case 2
    then show ?thesis using safeD [OF safe_addListener ok, of env] a by (auto intro: port_stays_trans keeps_stays)
  qed (use a in simp)
qed (use assms in \<open>simp add: socket_NewPort_def\<close>)

lemma NewPort_stays:
  assumes ok: "sock_ok s" and new: "NewPort env cfg s = Some (r, s')"
  shows "port_stays i s s'"
proof -
  obtain r1 s1 where e: "socket_NewPort env cfg s = Some (r1, s1)" using socket_NewPort_total by blast
  note s1 = socket_NewPort_ok [OF ok e] socket_NewPort_stays [OF ok e]
  show ?thesis
  proof (rule NewPort_cases [OF ok e])
    fix j p err s2 assume a: "r1 = Inr j" "s_ports s1 j = Some p" "p_cfg p = default_cfg cfg" "\<not> cfg_IsServer cfg"
      "connect_loop env j s1 = Some (err, s2)" "NewPort env cfg s = Some (case err of Some e \<Rightarrow> Inl e | None \<Rightarrow> Inr j, s2)"
    then have "keeps s1 s2" using connect_loop_outcome [OF s1(1) a(2), of env] by (simp add: default_cfg_def)
    then show ?thesis using s1(2) a(6) new by (auto intro: port_stays_trans keeps_stays)
  qed (use new s1 in auto)
qed

lemma sock_step_stays:
  assumes "sock_step env s s'" and "sock_ok s"
  shows "port_stays i s s'"
  using assms
proof cases
  case (Poll b)
  then show ?thesis using poll_step_ok [OF assms(2)] by (blast intro: keeps_stays)
next
  case (AddPort cfg r)
  then show ?thesis by (rule socket_NewPort_stays [OF assms(2)])
next
  case (Create cfg r)
  then show ?thesis by (rule NewPort_stays [OF assms(2)])
next
  case (Request j err)
  then show ?thesis using safeD [OF safe_RequestConnection assms(2), of env j] by (simp add: keeps_stays)
next
  case (Disconnect j err)
  then show ?thesis using safeD [OF safe_port_Disconnect assms(2), of env j] by (simp add: keeps_stays)
next
  case (DeletePort j err)
  then show ?thesis using safeD [OF safe_port_Delete assms(2), of env j] by (simp add: keeps_stays)
next
  case (Listen fd err)
  then show ?thesis using safeD [OF safe_AddListener assms(2), of env fd] by (simp add: keeps_stays)
next
  case (Stop err)
  then show ?thesis using safeD [OF safe_StopPolling assms(2), of env] by (simp add: keeps_stays)
next
  case (Delete err)
  then show ?thesis using safeD [OF safe_socket_Delete assms(2), of env] by (simp add: keeps_stays)
qed (simp_all add: StartPolling_def port_stays_def)

lemma sock_steps_stay:
  assumes "rtranclp (sock_step env) s s'" and "sock_ok s"
  shows "port_stays i s s'"
proof -
  have "sock_ok s' \<and> port_stays i s s'"
    using assms(1)
  proof (induction rule: rtranclp_induct)
    case (step s1 s2)
    then show ?case using sock_step_ok sock_step_stays by (blast intro: port_stays_trans)
  qed (simp add: assms(2))
  then show ?thesis ..
qed

text \<open>The default disconnect callback closes both Go channels of the port, and panics if one is closed.\<close>

lemma default_disconnect_closes:
  assumes "s_ports s i = Some p" and "cfg_DisconnectedFunc (p_cfg p) = DefaultFunc" and "p_cc p \<noteq> None"
    and "port_disconnect env i s = Some (err, s')"
  shows "\<not> p_QuitChan p \<and> \<not> p_ErrChan p \<and> (\<exists>p'. s_ports s' i = Some p' \<and> p_QuitChan p' \<and> p_ErrChan p')"
  using assms
  by (auto simp: port_disconnect_def call_DisconnectedFunc_def defaultDisconnectedFunc_def wrap_err_def and_then_def Let_def
      split: if_splits prod.splits option.splits)

end
