(* ===== verification/Handshake.thy ===== *)
theory Handshake
  imports Socket
begin

text \<open>
  The connection handshake (\<open>parseMsg\<close> of \<^verbatim>\<open>src/control_msg.go\<close> on both sides). First the
  client: on the server's greeting it sets up its shared memory and queues the messages that describe
  it. Then the server: receiving these messages, in this order, it builds the other end of both rings
  and reports the port connected. The results join the set-up lemmas of theory \<open>Mem_Region\<close> with
  the channels of theory \<open>Channel\<close>.
\<close>

section \<open>Frames\<close>

text \<open>A channel's receive buffer starts with the bytes \<open>buf\<close>.\<close>

definition holds_frame :: "controlChannel \<Rightarrow> byte list \<Rightarrow> bool" where
  "holds_frame cc buf \<longleftrightarrow> (\<exists>rest. cc_data cc = buf @ rest)"

lemma frame_bytes_split:
  assumes "length buf \<le> msgSize"
  shows "frame_bytes env tr buf = buf @ map (sendmsg_tail env tr) [0..<msgSize - length buf]"
    "length (frame_bytes env tr buf) = msgSize"
  using assms by (simp_all add: frame_bytes_def)

lemma received_frame:
  assumes "length buf \<le> msgSize" and "length (cc_data cc) = msgSize"
  shows "holds_frame (cc_received (frame_bytes env tr buf) ctl cc) buf"
  using assms frame_bytes_split [OF assms(1), of env tr]
  by (auto simp: holds_frame_def cc_received_def overlay_def)

lemma frame_type:
  "holds_frame cc (put_le 2 (t :: u16) @ body) \<Longrightarrow> get_le (window (cc_data cc) 0 2) = t"
  by (auto simp: holds_frame_def codec_simps)

text \<open>The receiver decodes the message the frame was made of.\<close>

lemma decode_frame:
  "holds_frame cc (put_le 2 t @ enc_Hello h) \<Longrightarrow> length (hello_Name h) = 32 \<Longrightarrow>
     dec_Hello (drop msgTypeSize (cc_data cc)) = Inr h"
  "holds_frame cc (put_le 2 t @ enc_Init m1) \<Longrightarrow> length (init_Secret m1) = 24 \<Longrightarrow> length (init_Name m1) = 32 \<Longrightarrow>
     dec_Init (drop msgTypeSize (cc_data cc)) = Inr m1"
  "holds_frame cc (put_le 2 t @ enc_AddRegion m2) \<Longrightarrow>
     dec_AddRegion (drop msgTypeSize (cc_data cc)) = Inr m2"
  "holds_frame cc (put_le 2 t @ enc_AddRing m3) \<Longrightarrow>
     dec_AddRing (drop msgTypeSize (cc_data cc)) = Inr m3"
  "holds_frame cc (put_le 2 t @ enc_Connect m4) \<Longrightarrow> length (connect_Name m4) = 32 \<Longrightarrow>
     dec_Connect (drop msgTypeSize (cc_data cc)) = Inr m4"
  "holds_frame cc (put_le 2 t @ enc_Connected m5) \<Longrightarrow> length (connected_Name m5) = 32 \<Longrightarrow>
     dec_Connected (drop msgTypeSize (cc_data cc)) = Inr m5"
  for t :: u16
  using hello.frame [where m = h and t = t] initm.frame [where m = m1 and t = t] aregion.frame [where m = m2 and t = t] aring.frame [where m = m3 and t = t]
    conn.frame [where m = m4 and t = t] connd.frame [where m = m5 and t = t]
  by (auto simp: holds_frame_def)

text \<open>The frames sent between two states of a socket, oldest first.\<close>

fun frame_of :: "sysevent \<Rightarrow> (byte list \<times> byte list) option" where
  "frame_of (SysSendmsg fd bs ctl) = Some (bs, ctl)"
| "frame_of _ = None"

definition sent :: "socket \<Rightarrow> socket \<Rightarrow> (byte list \<times> byte list) list" where
  "sent s s' = rev (List.map_filter frame_of (take (length (s_trace s') - length (s_trace s)) (s_trace s')))"

lemma sent_eq: "s_trace s' = evs @ s_trace s \<Longrightarrow> sent s s' = rev (List.map_filter frame_of evs)"
  by (simp add: sent_def)

text \<open>A socket that went from \<open>s\<close> to \<open>s'\<close> and made requests, but sent nothing.\<close>

definition quiet :: "socket \<Rightarrow> socket \<Rightarrow> bool" where
  "quiet s s' \<longleftrightarrow> (\<exists>evs. s_trace s' = evs @ s_trace s \<and> List.map_filter frame_of evs = [])"

lemma sent_quiet: "quiet s s' \<Longrightarrow> sent s s' = []"
  by (auto simp: quiet_def sent_eq)

lemma sent_after_quiet:
  assumes "quiet s s1" and "s_trace s' = SysSendmsg fd bs ctl # s_trace s1"
  shows "sent s s' = [(bs, ctl)]"
proof -
  obtain evs where "s_trace s1 = evs @ s_trace s" "List.map_filter frame_of evs = []" using assms(1) by (auto simp: quiet_def)
  then show ?thesis using sent_eq [of s' "SysSendmsg fd bs ctl # evs" s] assms(2) by (simp add: map_filter_simps)
qed

lemma quiet_simps [simp]:
  "quiet s (put_cc c cc s') = quiet s s'" "quiet s (put_port i p s') = quiet s s'" "quiet s s"
  "frame_of ev = None \<Longrightarrow> quiet s s' \<Longrightarrow> quiet s (log_sys ev s')"
  "frame_of ev = None \<Longrightarrow> s_trace s1 = ev # s_trace s \<Longrightarrow> quiet s s1"
  by (auto simp: quiet_def log_sys_def map_filter_simps)

lemma setup_quiet:
  "initializeRegions env p tr = (e, p', tr') \<Longrightarrow> \<exists>evs. tr' = evs @ tr \<and> List.map_filter frame_of evs = []"
  by (fastforce simp: initializeRegions_def addRegion_def memfdCreate_def Let_def map_filter_simps
      split: prod.splits sum.splits option.splits)

lemma eventFd_trace: "eventFd env tr = (r, tr') \<Longrightarrow> tr' = SysEventfd # tr"
  by (auto simp: eventFd_def split: sum.splits)

section \<open>The client's answer to a greeting\<close>

definition client_msgs :: "string \<Rightarrow> PortCfg \<Rightarrow> memoryRegion \<Rightarrow> queue \<Rightarrow> queue \<Rightarrow> controlMsg list" where
  "client_msgs app cfg r qt qr =
     [\<lparr> cm_Buffer = put_le 2 msgTypeInit @ enc_Init (init_msg app (cfg_Id cfg)), cm_Fd = - 1 \<rparr>,
      \<lparr> cm_Buffer = put_le 2 msgTypeAddRegion @ enc_AddRegion \<lparr> areg_Index = 0, areg_Size = mr_size r \<rparr>,
        cm_Fd = mr_fd r \<rparr>,
      \<lparr> cm_Buffer = put_le 2 msgTypeAddRing @ enc_AddRing (add_ring_msg ringTypeS2M 0 qt),
        cm_Fd = q_interruptFd qt \<rparr>,
      \<lparr> cm_Buffer = put_le 2 msgTypeAddRing @ enc_AddRing (add_ring_msg ringTypeM2S 0 qr),
        cm_Fd = q_interruptFd qr \<rparr>,
      \<lparr> cm_Buffer = put_le 2 msgTypeConnect @ enc_Connect \<lparr> connect_Name = fixed_field 32 (cfg_Name cfg) \<rparr>,
        cm_Fd = - 1 \<rparr>]"

text \<open>A socket in which channel \<open>c\<close> is \<open>cc\<close>, bound to port \<open>i\<close>, which is \<open>p\<close>.\<close>

definition view :: "socket \<Rightarrow> nat \<Rightarrow> controlChannel \<Rightarrow> nat \<Rightarrow> port \<Rightarrow> bool" where
  "view s c cc i p \<longleftrightarrow> s_ccs s c = Some cc \<and> cc_port cc = Some i \<and> s_ports s i = Some p"

lemma view_port_of: "view s c cc i p \<Longrightarrow> port_of c s = Some (i, p)"
  by (simp add: view_def port_of_def)

lemma view_upd:
  "view s c cc i p \<Longrightarrow> view (put_port i p' s) c cc i p'"
  "view s c cc i p \<Longrightarrow> cc_port cc' = Some i \<Longrightarrow> view (put_cc c cc' s) c cc' i p"
  "view (s\<lparr>s_trace := tr\<rparr>) c cc i p \<longleftrightarrow> view s c cc i p"
  "view (log_sys ev s) c cc i p \<longleftrightarrow> view s c cc i p"
  by (simp_all add: view_def)

definition enq :: "controlMsg \<Rightarrow> controlChannel \<Rightarrow> controlChannel" where
  "enq m cc = cc\<lparr>cc_msgQueue := cc_msgQueue cc @ [m]\<rparr>"

lemma msg_enq_view: "s_ccs s c = Some cc \<Longrightarrow>
    msg_enq c buf fd s = Some (None, put_cc c (enq \<lparr>cm_Buffer = buf, cm_Fd = fd\<rparr> cc) s)"
  by (simp add: msg_enq_def enq_def)

lemma view_enq: "view s c cc i p \<Longrightarrow> view (put_cc c (enq m cc) s) c (enq m cc) i p"
  by (simp add: view_def enq_def)

lemma and_then_Some [simp]:
  "and_then (Some (None, s)) f = f s" "and_then (Some (Some e, s)) f = Some (Some e, s)"
  by (simp_all add: and_then_def)

lemma client_enqueues:
  assumes v: "view s c cc i p" and q: "p_regions p = [r]" "p_txQueues p = [qt]" "p_rxQueues p = [qr]"
    and n: "NumQueuePairs (p_run p) = 1"
  shows "and_then (msgEnqInit c s) (\<lambda>s4. do {
       (_, p) \<leftarrow> port_of c s4;
       and_then (enq_regions (length (p_regions p)) 0 c s4) (\<lambda>s5. do {
         (_, p') \<leftarrow> port_of c s5;
         and_then (enq_rings (unat (NumQueuePairs (p_run p'))) 0 ringTypeS2M c s5) (\<lambda>s6.
         and_then (enq_rings (unat (NumQueuePairs (p_run p'))) 0 ringTypeM2S c s6) (\<lambda>s7.
         msgEnqConnect c s7)) }) }) =
    Some (None, put_cc c (cc\<lparr>cc_msgQueue := cc_msgQueue cc @ client_msgs (s_appName s) (p_cfg p) r qt qr\<rparr>) s)"
  using v q n
  by (simp add: view_def port_of_def msgEnqInit_def msgEnqAddRegion_def msgEnqAddRing_def msgEnqConnect_def
      msg_enq_def Let_def go_nth_def client_msgs_def put_cc_def)

text \<open>The port after \<open>parseHello\<close>.\<close>

definition greeted :: "MsgHello \<Rightarrow> port \<Rightarrow> port" where
  "greeted h p = p\<lparr>p_run := hello_run (cfg_MemoryConfig (p_cfg p)) h, p_remoteName := string_of_bytes (hello_Name h)\<rparr>"

lemma parseMsg_dispatch:
  assumes "s_ccs s c = Some cc" and "holds_frame cc (put_le 2 t @ body)" and "t \<noteq> msgTypeAck"
    and "dispatch env c t s = Some (None, s')"
  shows "parseMsg env c s = Some (None, s')"
  using assms frame_type [OF assms(2)] by (simp add: parseMsg_def Let_def)

lemma client_answers:
  assumes v: "view s c cc i p" and fr: "holds_frame cc (put_le 2 msgTypeHello @ enc_Hello h)"
    and h: "length (hello_Name h) = 32" "hello_VersionMin h \<le> Version" "Version \<le> hello_VersionMax h"
    and fresh: "p_regions p = []" "p_txQueues p = []" "p_rxQueues p = []"
    and cfg: "one_pair (hello_run (cfg_MemoryConfig (p_cfg p)) h) k"
    and os: "mmap_full env" "initializeRegions env (greeted h p) (s_trace s) = (None, p1, tr1)"
      "eventFd env tr1 = (Inr fd1, tr2)" "eventFd env tr2 = (Inr fd2, tr3)"
  defines "qt \<equiv> new_queue (p_run (greeted h p)) ringTypeS2M fd1"
    and "qr \<equiv> new_queue (p_run (greeted h p)) ringTypeM2S fd2"
  shows "\<exists>s' p2 d r. parseMsg env c s = Some (None, s') \<and>
    view s' c (cc\<lparr>cc_msgQueue := cc_msgQueue cc @ client_msgs (s_appName s) (p_cfg p) r qt qr\<rparr>) i p2 \<and>
    p_cfg p2 = p_cfg p \<and> p_run p2 = hello_run (cfg_MemoryConfig (p_cfg p)) h \<and>
    mr_size r = region_size (p_run p2) True True \<and> p_regions p1 = [r] \<and> client_ready p2 k d qt qr \<and>
    quiet s s' \<and> p_regions p2 = [r\<lparr>mr_data := Some d\<rparr>] \<and> p_QuitChan p2 = p_QuitChan p"
proof -
  let ?p0 = "greeted h p"
  have p0: "p_cfg ?p0 = p_cfg p" "p_run ?p0 = hello_run (cfg_MemoryConfig (p_cfg p)) h"
    "p_regions ?p0 = []" "p_txQueues ?p0 = []" "p_rxQueues ?p0 = []" "p_QuitChan ?p0 = p_QuitChan p"
    using fresh by (simp_all add: greeted_def)
  obtain d p2 r where set: "initializeQueues env p1 tr1 = Some (None, p2, tr3)" "p1 = ?p0\<lparr>p_regions := [r]\<rparr>"
    "p2 = ?p0\<lparr>p_regions := [r\<lparr>mr_data := Some d\<rparr>], p_txQueues := [qt], p_rxQueues := [qr]\<rparr>"
    "mr_size r = region_size (p_run ?p0) True True" "client_ready p2 k d qt qr"
    using client_setup [OF _ p0(3-5) os] cfg unfolding p0(2) qt_def qr_def by blast
  define s1 where "s1 = put_port i ?p0 s"
  define s2 where "s2 = (put_port i p1 s1)\<lparr>s_trace := tr1\<rparr>"
  define s3 where "s3 = (put_port i p2 s2)\<lparr>s_trace := tr3\<rparr>"
  have v1: "view s1 c cc i ?p0" using v by (simp add: s1_def view_upd)
  have v2: "view s2 c cc i p1" using v1 by (simp add: s2_def view_upd)
  have v3: "view s3 c cc i p2" using v2 by (simp add: s3_def view_upd)
  have e1: "parseHello c s = Some (None, s1)"
    using v h decode_frame(1) [OF fr h(1)] view_port_of [OF v]
    by (auto simp: parseHello_def view_def s1_def greeted_def not_less)
  have e2: "cc_initializeRegions env c s1 = Some (None, s2)"
    using os(2) view_port_of [OF v1] by (simp add: cc_initializeRegions_def s1_def s2_def)
  have e3: "cc_initializeQueues env c s2 = Some (None, s3)"
    using set(1) view_port_of [OF v2] by (simp add: cc_initializeQueues_def s3_def) (simp add: s2_def)
  have q: "p_regions p2 = [r\<lparr>mr_data := Some d\<rparr>]" "p_txQueues p2 = [qt]" "p_rxQueues p2 = [qr]"
    "NumQueuePairs (p_run p2) = 1" "p_cfg p2 = p_cfg p" "p_run p2 = p_run ?p0" "p_QuitChan p2 = p_QuitChan p"
    using cfg by (simp_all add: set(3) p0 one_pair_def)
  let ?cc = "cc\<lparr>cc_msgQueue := cc_msgQueue cc @ client_msgs (s_appName s) (p_cfg p) r qt qr\<rparr>"
  have "client_msgs app cf (r\<lparr>mr_data := Some d\<rparr>) qt qr = client_msgs app cf r qt qr" for app cf
    by (simp add: client_msgs_def)
  then have "on_hello env c s = Some (None, put_cc c ?cc s3)"
    using client_enqueues [OF v3 q(1-4)]
    by (simp add: on_hello_def e1 e2 e3 q(5)) (simp add: s3_def s2_def s1_def)
  then have "parseMsg env c s = Some (None, put_cc c ?cc s3)"
    using v by (intro parseMsg_dispatch [OF _ fr]) (simp_all add: view_def dispatch_def)
  moreover have "view (put_cc c ?cc s3) c ?cc i p2" using v3 by (intro view_upd(2) [OF v3]) (simp add: view_def)
  moreover have "quiet s (put_cc c ?cc s3)"
  proof -
    obtain evs where "tr1 = evs @ s_trace s" "List.map_filter frame_of evs = []" using setup_quiet [OF os(2)] by blast
    then show ?thesis
      using eventFd_trace [OF os(3)] eventFd_trace [OF os(4)]
      by (auto simp: quiet_def s3_def map_filter_simps intro!: exI [of _ "SysEventfd # SysEventfd # evs"])
  qed
  ultimately show ?thesis using q(1,5-7) set(2,4,5) p0(2) by fastforce
qed

section \<open>The server's side\<close>

text \<open>One incoming message, given by its data and its control data, is one event of the channel;
  \<open>serve\<close> handles a sequence of them.\<close>

definition receive :: "env \<Rightarrow> nat \<Rightarrow> byte list \<times> byte list \<Rightarrow> socket \<Rightarrow> result" where
  "receive env c m s = cc_handleEvent (env\<lparr>recvmsg := \<lambda>_ _. Inr m\<rparr>) c EPOLLIN s"

fun serve :: "env \<Rightarrow> nat \<Rightarrow> (byte list \<times> byte list) list \<Rightarrow> socket \<Rightarrow> result" where
  "serve env c [] s = Some (None, s)"
| "serve env c (m # ms) s = and_then (receive env c m s) (serve env c ms)"

lemma serve_step: "receive env c m s = Some (None, s') \<Longrightarrow> serve env c (m # ms) s = serve env c ms s'"
  by simp

text \<open>Control data that carries the descriptor \<open>fd\<close>.\<close>

definition gives_fd :: "byte list \<Rightarrow> int \<Rightarrow> bool" where
  "gives_fd ctl fd \<longleftrightarrow> length ctl \<le> maxControlLen \<and> parseControlMsg ctl (int (length ctl)) = Some (Inr fd)"

lemma unixRights_gives_fd: "0 \<le> fd \<Longrightarrow> fd < 2 ^ 31 \<Longrightarrow> gives_fd (unixRights fd) fd"
  using parseControlMsg_fd [of "[]" "[]" fd "unixRights fd" 24]
  by (simp add: gives_fd_def unixRights_def maxControlLen_def window_def)

lemma gives_fd_received:
  assumes "gives_fd ctl fd" and "length (cc_control cc) = maxControlLen"
  shows "parseControlMsg (cc_control (cc_received dt ctl cc)) (cc_controlLen (cc_received dt ctl cc)) = Some (Inr fd)"
proof -
  have "window (overlay (cc_control cc) 0 ctl) 0 (length ctl) = ctl"
    using assms by (intro window_overlay_same) (simp_all add: gives_fd_def)
  moreover have "window ctl 0 (length ctl) = ctl" by (simp add: window_def)
  ultimately have "go_range (overlay (cc_control cc) 0 ctl) 0 (int (length ctl)) = go_range ctl 0 (int (length ctl))"
    using assms by (simp add: go_range_def gives_fd_def)
  then show ?thesis using assms by (simp add: gives_fd_def cc_received_def parseControlMsg_def)
qed

text \<open>The server's channel between two messages: buffers of the right size, nothing queued.\<close>

definition idle :: "controlChannel \<Rightarrow> bool" where
  "idle cc \<longleftrightarrow> length (cc_data cc) = msgSize \<and> length (cc_control cc) = maxControlLen \<and> cc_msgQueue cc = []"

definition sends_ok :: "env \<Rightarrow> bool" where
  "sends_ok env \<longleftrightarrow> (\<forall>tr fd bs ctl. sendmsg env tr fd bs ctl = None)"

text \<open>A message whose handler queues exactly one reply and leaves the channel alone otherwise.\<close>

lemma recv_one:
  assumes cc: "s_ccs s c = Some cc" and idle: "idle cc" and sends: "sends_ok env"
    and dt: "length dt = msgSize" and body: "2 \<le> length reply" "length reply \<le> msgSize"
    and p: "parseMsg (env\<lparr>recvmsg := \<lambda>_ _. Inr (dt, ctl)\<rparr>) c
        (log_sys (SysRecvmsg (cc_fd cc)) (put_cc c (cc_received dt ctl cc) s)) = Some (None, s1)"
    and s1: "s_ccs s1 c = Some (enq \<lparr>cm_Buffer = reply, cm_Fd = - 1\<rparr> cc')" "idle cc'"
  shows "\<exists>e t. receive env c (dt, ctl) s =
    Some (None, log_sys (SysSendmsg (cc_fd cc') (frame_bytes e t reply) []) (put_cc c cc' s1))"
proof -
  let ?env = "env\<lparr>recvmsg := \<lambda>_ _. Inr (dt, ctl)\<rparr>"
  have q: "cc_msgQueue cc' = []" using s1(2) by (simp add: idle_def)
  then have e: "cc'\<lparr>cc_msgQueue := []\<rparr> = cc'" by simp
  have "reply \<noteq> []" using body(1) by auto
  then have "sendMsg ?env c s1 = Some (None, log_sys (SysSendmsg (cc_fd cc') (frame_bytes ?env (s_trace s1) reply) [])
      (put_cc c cc' s1))"
    using sends by (simp add: sendMsg_def s1(1) enq_def q e sends_ok_def)
  then show ?thesis
    using cc p dt by (auto simp: receive_def cc_handleEvent_def EPOLLHUP_def EPOLLERR_def EPOLLIN_def Let_def)
qed

lemma put_cc_same: "s_ccs s c = Some cc \<Longrightarrow> put_cc c cc (put_cc c x s) = s"
  by (simp add: put_cc_def map_upd_triv)

lemma idle_received: "idle cc \<Longrightarrow> idle (cc_received dt ctl cc)"
  by (simp add: idle_def cc_received_def)

text \<open>The reply is the only frame sent, and it is the message \<open>reply\<close>.\<close>

definition replied :: "socket \<Rightarrow> byte list \<Rightarrow> socket \<Rightarrow> bool" where
  "replied s reply s' \<longleftrightarrow> (\<exists>e t. sent s s' = [(frame_bytes e t reply, [])])"

lemma recv_replied:
  fixes s :: socket and ctl :: "byte list"
  assumes cc: "s_ccs s c = Some cc" "idle cc" and sends: "sends_ok env"
    and dt: "dt = frame_bytes e0 t0 (put_le 2 t @ body)" "2 + length body \<le> msgSize" "t \<noteq> msgTypeAck"
    and reply: "2 \<le> length reply" "length reply \<le> msgSize"
  defines "s0 \<equiv> log_sys (SysRecvmsg (cc_fd cc)) (put_cc c (cc_received dt ctl cc) s)"
  assumes d: "dispatch (env\<lparr>recvmsg := \<lambda>_ _. Inr (dt, ctl)\<rparr>) c t s0 =
      Some (None, put_cc c (enq \<lparr>cm_Buffer = reply, cm_Fd = - 1\<rparr> cc') s1)"
    and s1: "s_ccs s1 c = Some cc'" "idle cc'" "quiet s s1"
  shows "\<exists>ev. receive env c (dt, ctl) s = Some (None, log_sys ev s1) \<and> replied s reply (log_sys ev s1)"
proof -
  have len: "length dt = msgSize" using frame_bytes_split(2) dt(1,2) by simp
  have "holds_frame (cc_received dt ctl cc) (put_le 2 t @ body)"
    unfolding dt(1) using dt(2) cc(2) by (intro received_frame) (simp_all add: idle_def)
  then have p: "parseMsg (env\<lparr>recvmsg := \<lambda>_ _. Inr (dt, ctl)\<rparr>) c s0 =
      Some (None, put_cc c (enq \<lparr>cm_Buffer = reply, cm_Fd = - 1\<rparr> cc') s1)"
    using d dt(3) by (intro parseMsg_dispatch [where t = t]) (simp_all add: s0_def)
  obtain e t' where "receive env c (dt, ctl) s = Some (None, log_sys (SysSendmsg (cc_fd cc') (frame_bytes e t' reply) []) s1)"
    using recv_one [OF cc sends len reply p [unfolded s0_def] _ s1(2)] by (auto simp: put_cc_same [OF s1(1)])
  moreover have "replied s reply (log_sys (SysSendmsg (cc_fd cc') (frame_bytes e t' reply) []) s1)"
    using sent_after_quiet [OF s1(3)] by (auto simp: replied_def)
  ultimately show ?thesis by blast
qed

lemma msgEnqAck_view: "s_ccs s c = Some cc \<Longrightarrow>
    msgEnqAck c s = Some (None, put_cc c (enq \<lparr>cm_Buffer = put_le 2 msgTypeAck, cm_Fd = - 1\<rparr> cc) s)"
  by (simp add: msgEnqAck_def msg_enq_view)

text \<open>The introduction of the client binds the channel to the port it asks for.\<close>

definition bound :: "nat \<Rightarrow> string \<Rightarrow> port \<Rightarrow> port" where
  "bound c nm p = p\<lparr>p_cc := Some c, p_run := cfg_MemoryConfig (p_cfg p), p_remoteName := nm\<rparr>"

lemma recv_Init:
  assumes cc: "s_ccs s c = Some cc" "idle cc" and sends: "sends_ok env"
    and dt: "dt = frame_bytes e0 t0 (put_le 2 msgTypeInit @ enc_Init m)"
    and m: "length (init_Secret m) = 24" "length (init_Name m) = 32" "init_Version m = Version"
    and peer: "find_peer (s_ports s) (s_portList s) (init_Id m) = Some (i, p)" "cfg_Secret (p_cfg p) = init_Secret m"
  shows "\<exists>s' cc'. receive env c (dt, ctl) s = Some (None, s') \<and> replied s (put_le 2 msgTypeAck) s' \<and>
    view s' c cc' i (bound c (string_of_bytes (init_Name m)) p) \<and> idle cc'"
proof -
  let ?cc = "cc_received dt ctl cc"
  let ?cc' = "?cc\<lparr>cc_port := Some i\<rparr>"
  let ?s0 = "log_sys (SysRecvmsg (cc_fd cc)) (put_cc c ?cc s)"
  let ?s1 = "put_cc c ?cc' (put_port i (bound c (string_of_bytes (init_Name m)) p) ?s0)"
  have len: "2 + length (enc_Init m) \<le> msgSize" using m by (simp add: wire_lengths msgSize_def)
  then have "holds_frame ?cc (put_le 2 msgTypeInit @ enc_Init m)"
    unfolding dt using cc(2) by (intro received_frame) (simp_all add: idle_def)
  then have "parseInit c ?s0 = Some (None, ?s1)"
    using m peer by (simp add: parseInit_def decode_frame bound_def)
  then have d: "dispatch (env\<lparr>recvmsg := \<lambda>_ _. Inr (dt, ctl)\<rparr>) c msgTypeInit ?s0 =
      Some (None, put_cc c (enq \<lparr>cm_Buffer = put_le 2 msgTypeAck, cm_Fd = - 1\<rparr> ?cc') ?s1)"
    by (simp add: dispatch_def msgEnqAck_view)
  have i: "idle ?cc'" using idle_received [OF cc(2)] by (simp add: idle_def)
  obtain ev where "receive env c (dt, ctl) s = Some (None, log_sys ev ?s1)" "replied s (put_le 2 msgTypeAck) (log_sys ev ?s1)"
    using recv_replied [OF cc sends dt len _ _ _ d _ i] by (auto simp: msgSize_def)
  moreover have "view (log_sys ev ?s1) c ?cc' i (bound c (string_of_bytes (init_Name m)) p)"
    by (simp add: view_def)
  ultimately show ?thesis using i by blast
qed

lemma recv_AddRegion:
  assumes v: "view s c cc i p" and idle: "idle cc" and sends: "sends_ok env"
    and dt: "dt = frame_bytes e0 t0 (put_le 2 msgTypeAddRegion @ enc_AddRegion m)"
    and m: "areg_Index m \<le> 255" and fd: "gives_fd ctl fd"
  shows "\<exists>s' cc'. receive env c (dt, ctl) s = Some (None, s') \<and> replied s (put_le 2 msgTypeAck) s' \<and>
    view s' c cc' i (p\<lparr>p_regions := p_regions p @
      [\<lparr> mr_data = None, mr_size = areg_Size m, mr_fd = fd, mr_packetBufferOffset = 0 \<rparr>]\<rparr>) \<and> idle cc'"
proof -
  let ?cc = "cc_received dt ctl cc"
  let ?s0 = "log_sys (SysRecvmsg (cc_fd cc)) (put_cc c ?cc s)"
  let ?p = "p\<lparr>p_regions := p_regions p @
      [\<lparr> mr_data = None, mr_size = areg_Size m, mr_fd = fd, mr_packetBufferOffset = 0 \<rparr>]\<rparr>"
  let ?s1 = "put_port i ?p ?s0"
  have cc: "s_ccs s c = Some cc" using v by (simp add: view_def)
  have pt: "cc_port ?cc = Some i" using v by (simp add: view_def cc_received_def)
  then have v0: "view ?s0 c ?cc i p" using v by (simp add: view_def)
  have len: "2 + length (enc_AddRegion m) \<le> msgSize" by (simp add: wire_lengths msgSize_def)
  then have "holds_frame ?cc (put_le 2 msgTypeAddRegion @ enc_AddRegion m)"
    unfolding dt using idle by (intro received_frame) (simp_all add: idle_def)
  moreover have "parseControlMsg (cc_control ?cc) (cc_controlLen ?cc) = Some (Inr fd)"
    using idle by (intro gives_fd_received [OF fd]) (simp add: idle_def)
  ultimately have "parseAddRegion c ?s0 = Some (None, ?s1)"
    using m v0 view_port_of [OF v0] by (simp add: parseAddRegion_def decode_frame view_def)
  then have d: "dispatch (env\<lparr>recvmsg := \<lambda>_ _. Inr (dt, ctl)\<rparr>) c msgTypeAddRegion ?s0 =
      Some (None, put_cc c (enq \<lparr>cm_Buffer = put_le 2 msgTypeAck, cm_Fd = - 1\<rparr> ?cc) ?s1)"
    by (simp add: dispatch_def msgEnqAck_view)
  obtain ev where "receive env c (dt, ctl) s = Some (None, log_sys ev ?s1)" "replied s (put_le 2 msgTypeAck) (log_sys ev ?s1)"
    using recv_replied [OF cc idle sends dt len _ _ _ d _ idle_received [OF idle]] by (auto simp: msgSize_def)
  moreover have "view (log_sys ev ?s1) c ?cc i ?p" using pt by (simp add: view_def)
  ultimately show ?thesis using idle_received [OF idle] by blast
qed

text \<open>A ring announcement adds a queue: the client's transmit rings become receive queues.\<close>

definition srv_queue :: "ringType \<Rightarrow> MsgAddRing \<Rightarrow> int \<Rightarrow> queue" where
  "srv_queue rt m fd =
     \<lparr> q_ring = \<lparr> ring_ringType = rt, ring_size = shl1 (unat (aring_RingSizeLog2 m)),
         ring_log2Size = uint (aring_RingSizeLog2 m), ring_region = 0, ring_rb = replicate ringSize 0,
         ring_offset = uint (aring_Offset m) \<rparr>,
       q_lastHead = 0, q_lastTail = 0, q_interruptFd = fd \<rparr>"

definition srv_add_ring :: "MsgAddRing \<Rightarrow> int \<Rightarrow> port \<Rightarrow> port" where
  "srv_add_ring m fd p =
     (if aring_Flags m AND msgAddRingFlagS2M = msgAddRingFlagS2M
      then p\<lparr>p_rxQueues := p_rxQueues p @ [srv_queue ringTypeS2M m fd]\<rparr>
      else p\<lparr>p_txQueues := p_txQueues p @ [srv_queue ringTypeM2S m fd]\<rparr>)"

lemma recv_AddRing:
  assumes v: "view s c cc i p" and idle: "idle cc" and sends: "sends_ok env"
    and dt: "dt = frame_bytes e0 t0 (put_le 2 msgTypeAddRing @ enc_AddRing m)"
    and m: "aring_Index m < NumQueuePairs (p_run p)" and fd: "gives_fd ctl fd"
  shows "\<exists>s' cc'. receive env c (dt, ctl) s = Some (None, s') \<and> replied s (put_le 2 msgTypeAck) s' \<and>
    view s' c cc' i (srv_add_ring m fd p) \<and> idle cc'"
proof -
  let ?cc = "cc_received dt ctl cc"
  let ?s0 = "log_sys (SysRecvmsg (cc_fd cc)) (put_cc c ?cc s)"
  let ?s1 = "put_port i (srv_add_ring m fd p) ?s0"
  have cc: "s_ccs s c = Some cc" using v by (simp add: view_def)
  have pt: "cc_port ?cc = Some i" using v by (simp add: view_def cc_received_def)
  then have v0: "view ?s0 c ?cc i p" using v by (simp add: view_def)
  have len: "2 + length (enc_AddRing m) \<le> msgSize" by (simp add: wire_lengths msgSize_def)
  then have "holds_frame ?cc (put_le 2 msgTypeAddRing @ enc_AddRing m)"
    unfolding dt using idle by (intro received_frame) (simp_all add: idle_def)
  moreover have "parseControlMsg (cc_control ?cc) (cc_controlLen ?cc) = Some (Inr fd)"
    using idle by (intro gives_fd_received [OF fd]) (simp add: idle_def)
  ultimately have "parseAddRing c ?s0 = Some (None, ?s1)"
    using m v0 view_port_of [OF v0]
    by (auto simp: parseAddRing_def decode_frame view_def srv_add_ring_def srv_queue_def newRing_def not_le)
  then have d: "dispatch (env\<lparr>recvmsg := \<lambda>_ _. Inr (dt, ctl)\<rparr>) c msgTypeAddRing ?s0 =
      Some (None, put_cc c (enq \<lparr>cm_Buffer = put_le 2 msgTypeAck, cm_Fd = - 1\<rparr> ?cc) ?s1)"
    by (simp add: dispatch_def msgEnqAck_view)
  obtain ev where "receive env c (dt, ctl) s = Some (None, log_sys ev ?s1)" "replied s (put_le 2 msgTypeAck) (log_sys ev ?s1)"
    using recv_replied [OF cc idle sends dt len _ _ _ d _ idle_received [OF idle]] by (auto simp: msgSize_def)
  moreover have "view (log_sys ev ?s1) c ?cc i (srv_add_ring m fd p)" using pt by (simp add: view_def)
  ultimately show ?thesis using idle_received [OF idle] by blast
qed

text \<open>Connecting: the region is mapped and the cookies of both rings are checked.\<close>

definition refreshed :: "byte list \<Rightarrow> queue \<Rightarrow> queue" where
  "refreshed d q = q\<lparr>q_ring := (q_ring q)\<lparr>ring_rb := window d (nat (ring_offset (q_ring q))) ringSize\<rparr>\<rparr>"

lemma refreshed_at [simp]: "q_at (refreshed d q) k off \<longleftrightarrow> q_at q k off" "q_lastHead (refreshed d q) = q_lastHead q"
  "q_lastTail (refreshed d q) = q_lastTail q"
  by (simp_all add: refreshed_def q_at_def)

lemma check_ring_ok:
  assumes "region_data p 0 = Some d" and "q_at q k off" and "length (ring_rb (q_ring q)) = ringSize"
    and "off + ringSize \<le> length d" and "cookie_of d off = cookie"
  shows "check_rings p [q] = Some (None, [refreshed d q])"
proof -
  have q: "ring_region (q_ring q) = 0" "ring_offset (q_ring q) = int off" using assms(2) by (simp_all add: q_at_def)
  have "go_copy_from (ring_rb (q_ring q)) 0 (drop off d) = Some (int ringSize, window d off ringSize)"
    using assms(3,4) by (simp add: go_copy_from_def Let_def window_def overlay_def)
  then have u: "updateRing p q = Some (refreshed d q)"
    using assms(1,4) by (simp add: updateRing_def q go_from_def refreshed_def)
  have "window (window d off ringSize) 0 4 = window d off 4" by (simp add: window_def)
  then have "ring_getCookie (q_ring (refreshed d q)) = Some cookie"
    using assms(4,5) by (simp add: ring_getCookie_def le_get32_def le_get_def refreshed_def q cookie_of_def)
  with u show ?thesis by simp
qed

definition connected_port :: "byte list \<Rightarrow> string \<Rightarrow> port \<Rightarrow> port" where
  "connected_port d nm p = p\<lparr>p_peerName := nm, p_regions := map (\<lambda>r. r\<lparr>mr_data := Some d\<rparr>) (p_regions p),
     p_txQueues := map (refreshed d) (p_txQueues p), p_rxQueues := map (refreshed d) (p_rxQueues p)\<rparr>"

lemma port_connect_server:
  assumes p: "s_ports s i = Some p" "p_regions p = [r]" "mr_data r = None" "p_txQueues p = [qa]" "p_rxQueues p = [qb]"
    and mm: "\<And>tr. mmap env tr (mr_fd r) (sint (mr_size r)) = Inr d"
    and q: "q_at qa k offa" "q_at qb k offb" "length (ring_rb (q_ring qa)) = ringSize"
      "length (ring_rb (q_ring qb)) = ringSize" "offa + ringSize \<le> length d" "offb + ringSize \<le> length d"
      "cookie_of d offa = cookie" "cookie_of d offb = cookie"
    and cb: "cfg_ConnectedFunc (p_cfg p) = UserFunc" "\<And>tr. connectedFunc env tr i = None"
  shows "port_connect env i s = Some (None, log_sys (CallConnected i)
    (put_port i (connected_port d (p_peerName p) p) (log_sys (SysMmap (mr_fd r) (sint (mr_size r))) s)))"
proof -
  let ?r = "r\<lparr>mr_data := Some d\<rparr>" and ?tr = "SysMmap (mr_fd r) (sint (mr_size r)) # s_trace s"
  let ?p1 = "p\<lparr>p_regions := [?r]\<rparr>"
  have m: "map_regions env (p_regions p) (s_trace s) = (None, [?r], ?tr)" using p mm by simp
  have rd: "region_data (?p1\<lparr>p_txQueues := txs\<rparr>) 0 = Some d" "region_data ?p1 0 = Some d" for txs
    by (simp_all add: region_data_def go_nth_def bytes_of_def)
  note c1 = check_ring_ok [OF rd(2) q(1,3,5,7)] and c2 = check_ring_ok [OF rd(1) q(2,4,6,8)]
  let ?p3 = "?p1\<lparr>p_txQueues := [refreshed d qa], p_rxQueues := [refreshed d qb]\<rparr>"
  have "?p3 = connected_port d (p_peerName p) p" using p by (simp add: connected_port_def)
  then have "port_connect env i s = call_ConnectedFunc env i (put_port i (connected_port d (p_peerName p) p) (s\<lparr>s_trace := ?tr\<rparr>))"
    using p(1,4,5) m by (simp add: port_connect_def Let_def c1 c2 del: check_rings.simps)
  also have "\<dots> = Some (None, log_sys (CallConnected i) (put_port i (connected_port d (p_peerName p) p) (s\<lparr>s_trace := ?tr\<rparr>)))"
    using cb by (simp add: call_ConnectedFunc_def connected_port_def)
  finally show ?thesis by (simp add: log_sys_def)
qed

lemma recv_Connect:
  assumes v: "view s c cc i p" and idle: "idle cc" and sends: "sends_ok env"
    and dt: "dt = frame_bytes e0 t0 (put_le 2 msgTypeConnect @ enc_Connect m)" "length (connect_Name m) = 32"
    and p: "p_regions p = [r]" "mr_data r = None" "p_txQueues p = [qa]" "p_rxQueues p = [qb]"
    and mm: "\<And>tr. mmap env tr (mr_fd r) (sint (mr_size r)) = Inr d"
    and q: "q_at qa k offa" "q_at qb k offb" "length (ring_rb (q_ring qa)) = ringSize"
      "length (ring_rb (q_ring qb)) = ringSize" "offa + ringSize \<le> length d" "offb + ringSize \<le> length d"
      "cookie_of d offa = cookie" "cookie_of d offb = cookie"
    and cb: "cfg_ConnectedFunc (p_cfg p) = UserFunc" "\<And>tr. connectedFunc env tr i = None"
  shows "\<exists>s' cc'. receive env c (dt, ctl) s = Some (None, s') \<and>
    replied s (put_le 2 msgTypeConnected @ enc_Connected \<lparr> connected_Name = fixed_field 32 (cfg_Name (p_cfg p)) \<rparr>) s' \<and>
    view s' c cc' i (connected_port d (string_of_bytes (connect_Name m)) p) \<and> idle cc' \<and> cc_isConnected cc'"
proof -
  let ?env = "env\<lparr>recvmsg := \<lambda>_ _. Inr (dt, ctl)\<rparr>" and ?nm = "string_of_bytes (connect_Name m)"
  let ?cc = "cc_received dt ctl cc" and ?p = "p\<lparr>p_peerName := ?nm\<rparr>"
  let ?s0 = "log_sys (SysRecvmsg (cc_fd cc)) (put_cc c ?cc s)"
  let ?cc' = "?cc\<lparr>cc_isConnected := True\<rparr>" and ?p' = "connected_port d ?nm p"
  have cc: "s_ccs s c = Some cc" using v by (simp add: view_def)
  have pt: "cc_port ?cc = Some i" using v by (simp add: view_def cc_received_def)
  then have v0: "view ?s0 c ?cc i p" using v by (simp add: view_def)
  have len: "2 + length (enc_Connect m) \<le> msgSize" using dt(2) by (simp add: wire_lengths msgSize_def)
  then have fr: "holds_frame ?cc (put_le 2 msgTypeConnect @ enc_Connect m)"
    unfolding dt(1) using idle by (intro received_frame) (simp_all add: idle_def)
  let ?ev = "SysMmap (mr_fd r) (sint (mr_size r))"
  have "port_connect ?env i (put_port i ?p ?s0) = Some (None, log_sys (CallConnected i)
      (put_port i (connected_port d (p_peerName ?p) ?p) (log_sys ?ev (put_port i ?p ?s0))))"
    by (rule port_connect_server [where r = r and qa = qa and qb = qb and offa = offa and offb = offb])
      (use p mm q cb in simp_all)
  then have con: "port_connect ?env i (put_port i ?p ?s0) = Some (None, log_sys (CallConnected i)
      (put_port i ?p' (log_sys ?ev (put_port i ?p ?s0))))"
    by (simp add: connected_port_def)
  let ?s1 = "put_cc c ?cc' (log_sys (CallConnected i) (put_port i ?p' (log_sys ?ev (put_port i ?p ?s0))))"
  have "parseConnect ?env c ?s0 = Some (None, ?s1)"
    using v0 view_port_of [OF v0] con decode_frame(5) [OF fr dt(2)] by (simp add: parseConnect_def view_def)
  moreover have v1: "view ?s1 c ?cc' i ?p'" using pt by (simp add: view_def)
  ultimately have "dispatch ?env c msgTypeConnect ?s0 = Some (None, put_cc c (enq \<lparr>cm_Buffer =
      put_le 2 msgTypeConnected @ enc_Connected \<lparr> connected_Name = fixed_field 32 (cfg_Name (p_cfg ?p')) \<rparr>,
      cm_Fd = - 1\<rparr> ?cc') ?s1)"
    using view_port_of [OF v1] by (simp add: dispatch_def msgEnqConnected_def msg_enq_view)
  note d = this
  have i: "idle ?cc'" using idle_received [OF idle] by (simp add: idle_def)
  obtain ev' where "receive env c (dt, ctl) s = Some (None, log_sys ev' ?s1)"
    "replied s (put_le 2 msgTypeConnected @ enc_Connected \<lparr> connected_Name = fixed_field 32 (cfg_Name (p_cfg ?p')) \<rparr>)
      (log_sys ev' ?s1)"
    using recv_replied [OF cc idle sends dt(1) len _ _ _ d _ i] by (auto simp: wire_lengths msgSize_def)
  moreover have "view (log_sys ev' ?s1) c ?cc' i ?p'" using v1 by (simp only: view_upd)
  moreover have "cc_isConnected ?cc'" "p_cfg ?p' = p_cfg p" by (simp_all add: connected_port_def)
  ultimately show ?thesis using i by (simp only:) blast
qed

section \<open>Both ends of the rings\<close>

text \<open>The frames a peer receives for a list of queued messages: each was sent at some time, with
  some control data attached.\<close>

definition frames :: "env \<Rightarrow> controlMsg list \<Rightarrow> (trace \<times> byte list) list \<Rightarrow> (byte list \<times> byte list) list" where
  "frames e ms rx = map2 (\<lambda>m (tr, ctl). (frame_bytes e tr (cm_Buffer m), ctl)) ms rx"

lemma srv_queue_at:
  assumes run: "one_pair run k"
  shows "q_at (srv_queue rt (add_ring_msg rt' n (new_queue run ringTypeS2M f)) fd) k 0"
    "q_at (srv_queue rt (add_ring_msg rt' n (new_queue run ringTypeM2S f)) fd) k (ring_span k)"
    "length (ring_rb (q_ring (srv_queue rt m fd))) = ringSize" "q_lastHead (srv_queue rt m fd) = 0"
proof -
  have c: "NumQueuePairs run = 1" "unat (Log2RingSize run) = k" "k \<le> 10" using run by (auto simp: one_pair_def)
  have "q_at (new_queue run ringTypeS2M f) k 0" "q_at (new_queue run ringTypeM2S f) k (ring_span k)"
    using new_queue_at [OF c(1,2)] c(3) by simp_all
  moreover have "ring_log2Size (q_ring (new_queue run r f)) = uint (Log2RingSize run)" for r
    by (simp add: new_queue_def port_newRing_def Let_def)
  moreover have "(2::nat) ^ k \<le> 2 ^ 10" using c(3) by (rule power_increasing) simp
  then have "ring_span k < 2 ^ 32" by (simp add: ring_span_def)
  then have "uint (word_of_nat (ring_span k) :: u32) = int (ring_span k)"
    by (simp add: unsigned_of_nat take_bit_nat_eq_self)
  moreover have "shl1 k = 2 ^ k" using c(3) by (simp add: shl1_small)
  ultimately show "q_at (srv_queue rt (add_ring_msg rt' n (new_queue run ringTypeS2M f)) fd) k 0"
    "q_at (srv_queue rt (add_ring_msg rt' n (new_queue run ringTypeM2S f)) fd) k (ring_span k)"
    by (simp_all add: q_at_def srv_queue_def add_ring_msg_def c(2))
qed (simp_all add: srv_queue_def)

text \<open>What the server needs: an unbound idle channel, a port that waits for this client, and an
  application that accepts the connection.\<close>

definition server_waits :: "env \<Rightarrow> socket \<Rightarrow> nat \<Rightarrow> nat \<Rightarrow> port \<Rightarrow> u32 \<Rightarrow> bool" where
  "server_waits env s c j sp ident \<longleftrightarrow>
     (\<exists>cc. s_ccs s c = Some cc \<and> idle cc) \<and> sends_ok env \<and>
     find_peer (s_ports s) (s_portList s) ident = Some (j, sp) \<and> cfg_Secret (p_cfg sp) = replicate 24 0 \<and>
     p_regions sp = [] \<and> p_txQueues sp = [] \<and> p_rxQueues sp = [] \<and>
     0 < NumQueuePairs (cfg_MemoryConfig (p_cfg sp)) \<and> cfg_ConnectedFunc (p_cfg sp) = UserFunc \<and>
     (\<forall>tr. connectedFunc env tr j = None)"

text \<open>The server's port after the first four messages: bound, one region not yet mapped, one queue for
  each ring.\<close>

definition announced :: "nat \<Rightarrow> string \<Rightarrow> u64 \<Rightarrow> int \<Rightarrow> queue \<Rightarrow> queue \<Rightarrow> port \<Rightarrow> port" where
  "announced c nm sz rfd sqr sqt sp = (bound c nm sp)
     \<lparr>p_regions := [\<lparr> mr_data = None, mr_size = sz, mr_fd = rfd, mr_packetBufferOffset = 0 \<rparr>],
      p_rxQueues := [sqr], p_txQueues := [sqt]\<rparr>"

text \<open>The steps on the way there.\<close>

definition with_region :: "nat \<Rightarrow> string \<Rightarrow> u64 \<Rightarrow> int \<Rightarrow> port \<Rightarrow> port" where
  "with_region c nm sz rfd sp = (bound c nm sp)
     \<lparr>p_regions := [\<lparr> mr_data = None, mr_size = sz, mr_fd = rfd, mr_packetBufferOffset = 0 \<rparr>]\<rparr>"

lemma announcing:
  assumes "p_regions sp = []" "p_txQueues sp = []" "p_rxQueues sp = []" "0 < NumQueuePairs (cfg_MemoryConfig (p_cfg sp))"
    and "sqr = srv_queue ringTypeS2M (add_ring_msg ringTypeS2M 0 qt) tfd"
    and "sqt = srv_queue ringTypeM2S (add_ring_msg ringTypeM2S 0 qr) xfd"
  shows "(bound c nm sp)\<lparr>p_regions := p_regions (bound c nm sp) @
      [\<lparr> mr_data = None, mr_size = sz, mr_fd = rfd, mr_packetBufferOffset = 0 \<rparr>]\<rparr> = with_region c nm sz rfd sp"
    "srv_add_ring (add_ring_msg ringTypeS2M 0 qt) tfd (with_region c nm sz rfd sp) = (with_region c nm sz rfd sp)\<lparr>p_rxQueues := [sqr]\<rparr>"
    "srv_add_ring (add_ring_msg ringTypeM2S 0 qr) xfd ((with_region c nm sz rfd sp)\<lparr>p_rxQueues := [sqr]\<rparr>) =
      announced c nm sz rfd sqr sqt sp"
    "aring_Index (add_ring_msg rt 0 q) < NumQueuePairs (p_run (with_region c nm sz rfd sp))"
    "aring_Index (add_ring_msg rt 0 q) < NumQueuePairs (p_run ((with_region c nm sz rfd sp)\<lparr>p_rxQueues := [sqr]\<rparr>))"
  using assms
  by (simp_all add: with_region_def announced_def bound_def srv_add_ring_def add_ring_msg_def msgAddRingFlagS2M_def)

lemma server_waitsD:
  assumes "server_waits env s c j sp ident"
  obtains cc where "s_ccs s c = Some cc" "idle cc" "sends_ok env"
    "find_peer (s_ports s) (s_portList s) (init_Id (init_msg app ident)) = Some (j, sp)"
    "cfg_Secret (p_cfg sp) = init_Secret (init_msg app ident)"
    "p_regions sp = []" "p_txQueues sp = []" "p_rxQueues sp = []" "0 < NumQueuePairs (cfg_MemoryConfig (p_cfg sp))"
  using assms by (auto simp: server_waits_def init_msg_def)

lemma init_msg_wf: "length (init_Secret (init_msg app ident)) = 24" "length (init_Name (init_msg app ident)) = 32"
  "init_Version (init_msg app ident) = Version"
  by (simp_all add: init_msg_def)

lemma server_learns:
  assumes w: "server_waits env s c j sp ident" and fds: "gives_fd c1 rfd" "gives_fd c2 tfd" "gives_fd c3 xfd"
    and D0: "D0 = frame_bytes e t0 (put_le 2 msgTypeInit @ enc_Init (init_msg app ident))"
    and D1: "D1 = frame_bytes e t1 (put_le 2 msgTypeAddRegion @ enc_AddRegion \<lparr> areg_Index = 0, areg_Size = sz \<rparr>)"
    and D2: "D2 = frame_bytes e t2 (put_le 2 msgTypeAddRing @ enc_AddRing (add_ring_msg ringTypeS2M 0 qt))"
    and D3: "D3 = frame_bytes e t3 (put_le 2 msgTypeAddRing @ enc_AddRing (add_ring_msg ringTypeM2S 0 qr))"
  shows "\<exists>s' cc' nm. serve env c ((D0, c0) # (D1, c1) # (D2, c2) # (D3, c3) # ms) s = serve env c ms s' \<and> idle cc' \<and>
    view s' c cc' j (announced c nm sz rfd (srv_queue ringTypeS2M (add_ring_msg ringTypeS2M 0 qt) tfd)
      (srv_queue ringTypeM2S (add_ring_msg ringTypeM2S 0 qr) xfd) sp)"
proof -
  obtain cc where W: "s_ccs s c = Some cc" "idle cc" "sends_ok env"
    "find_peer (s_ports s) (s_portList s) (init_Id (init_msg app ident)) = Some (j, sp)"
    "cfg_Secret (p_cfg sp) = init_Secret (init_msg app ident)"
    "p_regions sp = []" "p_txQueues sp = []" "p_rxQueues sp = []" "0 < NumQueuePairs (cfg_MemoryConfig (p_cfg sp))"
    by (rule server_waitsD [OF w])
  define nm where "nm = string_of_bytes (init_Name (init_msg app ident))"
  note A = announcing [OF W(6-9) refl refl, where c = c and nm = nm]
  obtain s1 k1 where S1: "receive env c (D0, c0) s = Some (None, s1)" "view s1 c k1 j (bound c nm sp)" "idle k1"
    using recv_Init [OF W(1-3) D0 init_msg_wf W(4,5)] unfolding nm_def by blast
  obtain s2 k2 where S2: "receive env c (D1, c1) s1 = Some (None, s2)" "view s2 c k2 j (with_region c nm sz rfd sp)" "idle k2"
    using recv_AddRegion [OF S1(2,3) W(3) D1 _ fds(1)] A(1) by auto
  obtain s3 k3 where S3: "receive env c (D2, c2) s2 = Some (None, s3)"
    "view s3 c k3 j ((with_region c nm sz rfd sp)\<lparr>p_rxQueues := [srv_queue ringTypeS2M (add_ring_msg ringTypeS2M 0 qt) tfd]\<rparr>)" "idle k3"
    using recv_AddRing [OF S2(2,3) W(3) D2 A(4) fds(2)] unfolding A(2) by blast
  show ?thesis
    using recv_AddRing [OF S3(2,3) W(3) D3 A(5) fds(3)] S1(1) S2(1) S3(1) unfolding A(3) by fastforce
qed

lemma server_accepts:
  assumes w: "server_waits env s c j sp (cfg_Id cfg)"
    and cl: "one_pair run k" "qt = new_queue run ringTypeS2M f1" "qr = new_queue run ringTypeM2S f2"
    and d: "2 * ring_span k \<le> length d" "cookie_of d 0 = cookie" "cookie_of d (ring_span k) = cookie"
    and fds: "gives_fd c1 rfd" "gives_fd c2 tfd" "gives_fd c3 xfd"
    and mm: "\<And>tr. mmap env tr rfd (sint (mr_size r)) = Inr d"
  shows "\<exists>s' cc' sp' sqr sqt.
    serve env c (frames e (client_msgs app cfg r qt qr) [(t0, c0), (t1, c1), (t2, c2), (t3, c3), (t4, c4)]) s = Some (None, s') \<and>
    view s' c cc' j sp' \<and> cc_isConnected cc' \<and> p_cfg sp' = p_cfg sp \<and> p_rxQueues sp' = [sqr] \<and> p_txQueues sp' = [sqt] \<and>
    peer_queue sp' sqr k 0 (length d) \<and> peer_queue sp' sqt k (ring_span k) (length d)"
proof -
  let ?sqr = "srv_queue ringTypeS2M (add_ring_msg ringTypeS2M 0 qt) tfd"
  let ?sqt = "srv_queue ringTypeM2S (add_ring_msg ringTypeM2S 0 qr) xfd"
  let ?m4 = "\<lparr> connect_Name = fixed_field 32 (cfg_Name cfg) \<rparr>"
  define D4 where "D4 = frame_bytes e t4 (put_le 2 msgTypeConnect @ enc_Connect ?m4)"
  have sends: "sends_ok env" and cb: "cfg_ConnectedFunc (p_cfg sp) = UserFunc" "\<And>tr. connectedFunc env tr j = None"
    and srv: "cfg_IsServer (p_cfg sp)"
    using w find_peer_ports by (fastforce simp: server_waits_def)+
  obtain s4 k4 nm where S4:
    "serve env c (frames e (client_msgs app cfg r qt qr) [(t0, c0), (t1, c1), (t2, c2), (t3, c3), (t4, c4)]) s =
      serve env c [(D4, c4)] s4" "idle k4" "view s4 c k4 j (announced c nm (mr_size r) rfd ?sqr ?sqt sp)"
    using server_learns [OF w fds refl refl refl refl, where ms = "[(D4, c4)]" and e = e and app = app]
    unfolding frames_def client_msgs_def D4_def by (simp del: serve.simps) blast
  let ?p = "announced c nm (mr_size r) rfd ?sqr ?sqt sp"
  let ?r = "\<lparr> mr_data = None, mr_size = mr_size r, mr_fd = rfd, mr_packetBufferOffset = 0 \<rparr>"
  have p: "p_regions ?p = [?r]" "mr_data ?r = None" "p_txQueues ?p = [?sqt]" "p_rxQueues ?p = [?sqr]"
    "cfg_ConnectedFunc (p_cfg ?p) = UserFunc" "length (connect_Name ?m4) = 32" "p_cfg ?p = p_cfg sp"
    using cb by (simp_all add: announced_def bound_def)
  have q: "q_at ?sqt k (ring_span k)" "q_at ?sqr k 0" "length (ring_rb (q_ring ?sqt)) = ringSize"
    "length (ring_rb (q_ring ?sqr)) = ringSize" "q_lastHead ?sqr = 0" "q_lastHead ?sqt = 0"
    by (simp_all add: cl srv_queue_at [OF cl(1)] del: ring_consts)
  have mm': "mmap env tr (mr_fd ?r) (sint (mr_size ?r)) = Inr d" for tr using mm by simp
  have fit: "ring_span k + ringSize \<le> length d" "0 + ringSize \<le> length d" using d(1) by (simp_all add: ring_span_def)
  let ?p' = "connected_port d (string_of_bytes (connect_Name ?m4)) ?p"
  obtain s5 k5 where S5: "serve env c [(D4, c4)] s4 = serve env c [] s5" "view s5 c k5 j ?p'" "cc_isConnected k5"
    using serve_step recv_Connect [OF S4(3,2) sends D4_def p(6,1-4) mm' q(1-4) fit d(3,2) p(5) cb(2)] by blast
  have "peer_queue ?p' (refreshed d ?sqr) k 0 (length d)" "peer_queue ?p' (refreshed d ?sqt) k (ring_span k) (length d)"
    using q srv by (simp_all add: peer_queue_def connected_port_def p maps_region_def region_data_def go_nth_def bytes_of_def)
  moreover have "p_cfg ?p' = p_cfg sp" "p_rxQueues ?p' = [refreshed d ?sqr]" "p_txQueues ?p' = [refreshed d ?sqt]"
    by (simp_all add: connected_port_def p)
  ultimately show ?thesis using S5(2,3) unfolding S4(1) S5(1) by fastforce
qed

end
