(* ===== verification/Teardown.thy ===== *)
theory Teardown
  imports Handshake
begin

text \<open>
  The end of a connection: what \<open>disconnect\<close> (\<^verbatim>\<open>src/port.go\<close>) and \<open>close\<close>
  (\<^verbatim>\<open>src/control_msg.go\<close>) release, how an error in a message ends the channel, and where the
  code panics instead.
\<close>

section \<open>Releasing the resources of a port\<close>

lemma close_queues_trace: "close_queues env qs tr = rev (map (SysClose \<circ> q_interruptFd) qs) @ tr"
  by (induction qs arbitrary: tr) (simp_all add: queue_close_def)

text \<open>The requests that release a region, oldest first.\<close>

definition release_region :: "memoryRegion \<Rightarrow> trace" where
  "release_region r = [SysMunmap (mr_data r), SysClose (mr_fd r)]"

definition releases_ok :: "env \<Rightarrow> bool" where
  "releases_ok env \<longleftrightarrow> (\<forall>tr d. munmap env tr d = None) \<and> (\<forall>tr fd. close_fd env tr fd = None)"

lemma unmap_regions_trace:
  "releases_ok env \<Longrightarrow> unmap_regions env rs tr = (None, rev (concat (map release_region rs)) @ tr)"
  by (induction rs arbitrary: tr) (simp_all add: releases_ok_def release_region_def Let_def)

definition released :: "port \<Rightarrow> port" where
  "released p = p\<lparr>p_txQueues := [], p_rxQueues := [], p_regions := [], p_cc := None, p_peerName := [],
     p_remoteName := []\<rparr>"

definition release_trace :: "nat \<Rightarrow> port \<Rightarrow> trace" where
  "release_trace i p = CallDisconnected i # map (SysClose \<circ> q_interruptFd) (p_txQueues p @ p_rxQueues p) @
     concat (map release_region (p_regions p))"

text \<open>The application's callback comes first, then every queue and every region is released, in
  order.\<close>

lemma port_disconnect_releases:
  assumes p: "s_ports s i = Some p" "p_cc p \<noteq> None" and os: "releases_ok env"
    and cb: "cfg_DisconnectedFunc (p_cfg p) = UserFunc" "disconnectedFunc env (s_trace s) i = None"
  shows "port_disconnect env i s =
    Some (None, (put_port i (released p) s)\<lparr>s_trace := rev (release_trace i p) @ s_trace s\<rparr>)"
  using p cb unmap_regions_trace [OF os]
  by (auto simp: port_disconnect_def call_DisconnectedFunc_def wrap_err_def close_queues_trace released_def
      release_trace_def Let_def put_port_def log_sys_def)

lemma port_disconnect_clears:
  assumes "s_ports s i = Some p" and "p_cc p \<noteq> None" and "port_disconnect env i s = Some (None, s')"
  shows "\<exists>p'. s_ports s' i = Some p' \<and> p_regions p' = [] \<and> p_txQueues p' = [] \<and> p_rxQueues p' = [] \<and> p_cc p' = None"
proof -
  obtain s1 where c: "wrap_err ''disconnectedFunc: '' (call_DisconnectedFunc env i s) = Some (None, s1)"
    using assms by (auto simp: port_disconnect_def elim!: and_then_SomeE)
  then obtain p1 where p1: "s_ports s1 i = Some p1"
    using assms by (auto simp: port_disconnect_def bind_eq_Some_conv and_then_def)
  obtain e tr where u: "unmap_regions env (p_regions p1) (close_queues env (p_rxQueues p1) (close_queues env (p_txQueues p1) (s_trace s1))) = (e, tr)"
    by fastforce
  show ?thesis using assms c p1 u by (cases e) (auto simp: port_disconnect_def and_then_def Let_def)
qed

section \<open>Closing a channel\<close>

text \<open>Closing with a message: the pending messages are dropped, the peer gets one disconnect frame
  with the reason, the channel leaves the epoll set and the list, and its port is disconnected.\<close>

definition disconnect_msg :: "string \<Rightarrow> byte list" where
  "disconnect_msg str = put_le 2 msgTypeDisconnect @ enc_Disconnect \<lparr> dc_Code = 0, dc_String = fixed_field 96 str \<rparr>"

lemma cc_close_sends:
  fixes str :: string
  assumes cc: "s_ccs s c = Some cc" and os: "sends_ok env" "\<And>tr ep fd. epoll_del env tr ep fd = None"
  defines "s2 \<equiv> log_sys (SysEpollDel (s_epfd s) (cc_fd cc))
     (log_sys (SysSendmsg (cc_fd cc) (frame_bytes env (s_trace s) (disconnect_msg str)) [])
       (put_cc c (cc\<lparr>cc_msgQueue := []\<rparr>) s))"
  shows "cc_close env c True str s = cc_detach env c s2"
proof -
  have "put_le 2 msgTypeDisconnect \<noteq> []" by (metis length_put_le length_0_conv zero_neq_numeral)
  moreover have "put_cc c x (put_cc c y (put_cc c z s)) = put_cc c x s" for x y z by (simp add: put_cc_def)
  ultimately show ?thesis
    using cc os by (simp add: cc_close_def msgEnqDisconnect_def msg_enq_def sendMsg_def Let_def sends_ok_def
        delEvent_def wrap_err_def s2_def disconnect_msg_def)
qed

lemma cc_detach_unbound:
  "s_ccs s c = Some cc \<Longrightarrow> cc_port cc = None \<Longrightarrow>
     cc_detach env c s = Some (None, s\<lparr>s_ccList := remove1 c (s_ccList s)\<rparr>)"
  by (simp add: cc_detach_def Let_def)

text \<open>An error while handling a message closes the channel with the error as the reason.\<close>

lemma parseMsg_error:
  assumes "s_ccs s c = Some cc" and "holds_frame cc (put_le 2 t @ body)" and "t \<noteq> msgTypeAck"
    and "dispatch env c t s = Some (Some e, s1)" and "cc_close env c True e s1 = Some (None, s2)"
  shows "parseMsg env c s = Some (Some e, s2)"
  using assms frame_type [OF assms(2)] by (simp add: parseMsg_def Let_def)

section \<open>Messages before the channel is bound\<close>

text \<open>On a channel without a port the handlers that use it panic.\<close>

lemma unbound_panics:
  assumes cc: "s_ccs s c = Some cc" "cc_port cc = None"
  shows "port_of c s = None" "dec_Connect (drop msgTypeSize (cc_data cc)) = Inr m \<Longrightarrow> parseConnect env c s = None"
    "dec_AddRing (drop msgTypeSize (cc_data cc)) = Inr m' \<Longrightarrow>
       parseControlMsg (cc_control cc) (cc_controlLen cc) = Some (Inr fd) \<Longrightarrow> parseAddRing c s = None"
proof -
  show p: "port_of c s = None" using cc by (simp add: port_of_def)
  show "dec_Connect (drop msgTypeSize (cc_data cc)) = Inr m \<Longrightarrow> parseConnect env c s = None"
    using cc p by (simp add: parseConnect_def)
  show "dec_AddRing (drop msgTypeSize (cc_data cc)) = Inr m' \<Longrightarrow>
       parseControlMsg (cc_control cc) (cc_controlLen cc) = Some (Inr fd) \<Longrightarrow> parseAddRing c s = None"
    using cc p by (simp add: parseAddRing_def)
qed

lemma hangup_unbound:
  assumes cc: "s_ccs s c = Some cc" "cc_port cc = None" and os: "\<And>tr ep fd. epoll_del env tr ep fd = None"
    and ev: "ev AND EPOLLHUP = EPOLLHUP"
  shows "cc_handleEvent env c ev s = None"
proof -
  let ?s = "log_sys (SysEpollDel (s_epfd s) (cc_fd cc)) s"
  have "cc_close env c False [] s = Some (None, ?s\<lparr>s_ccList := remove1 c (s_ccList s)\<rparr>)"
    using cc os cc_detach_unbound [of ?s c cc env]
    by (simp add: cc_close_def delEvent_def wrap_err_def)
  moreover have "port_of c (?s\<lparr>s_ccList := remove1 c (s_ccList s)\<rparr>) = None"
    using cc by (simp add: port_of_def)
  ultimately show ?thesis using ev by (simp add: cc_handleEvent_def wrap_err_def)
qed

section \<open>Refused introductions\<close>

text \<open>The client's introduction never carries a secret, so a server port that has one refuses it.\<close>

lemma parseInit_secret:
  assumes "s_ccs s c = Some cc" and "holds_frame cc (put_le 2 msgTypeInit @ enc_Init (init_msg app ident))"
    and "find_peer (s_ports s) (s_portList s) ident = Some (i, p)" and "cfg_Secret (p_cfg p) \<noteq> replicate 24 0"
  shows "parseInit c s = Some (Some ''invalid secret'', s)"
proof -
  have "dec_Init (drop msgTypeSize (cc_data cc)) = Inr (init_msg app ident)"
    by (rule decode_frame(2) [OF assms(2)]) (simp_all add: init_msg_def)
  then show ?thesis using assms by (simp add: parseInit_def init_msg_def)
qed

section \<open>Connecting keeps the queue positions\<close>

lemma check_rings_positions:
  "check_rings p qs = Some (err, qs') \<Longrightarrow>
     map q_lastHead qs' = map q_lastHead qs \<and> map q_lastTail qs' = map q_lastTail qs"
proof (induction qs arbitrary: err qs')
  case (Cons q qs)
  from Cons.prems obtain q' ck where u: "updateRing p q = Some q'" and "ring_getCookie (q_ring q') = Some ck"
    and rest: "(if ck \<noteq> cookie then Some (Some ''wrong cookie'', q' # qs)
      else do { (err, qs') \<leftarrow> check_rings p qs; Some (err, q' # qs') }) = Some (err, qs')"
    by (auto simp: bind_eq_Some_conv)
  have "q_lastHead q' = q_lastHead q" "q_lastTail q' = q_lastTail q"
    using u by (auto simp: updateRing_def bind_eq_Some_conv)
  then show ?case using rest Cons.IH by (fastforce simp: bind_eq_Some_conv split: if_splits)
qed simp

end
