(* ===== verification/Session.thy ===== *)
theory Session
  imports Teardown
begin

text \<open>
  A client and a server that talk to each other. A session is the two sockets with the frames in
  flight between them; a step delivers the oldest frame to its receiver, which handles it as one event
  of its control channel (\<open>handleEvent\<close> of \<^verbatim>\<open>src/control_msg.go\<close>), and puts the frames that this
  handler sends in flight. The kernel between the processes is a parameter: \<open>pass\<close> is what becomes of
  the control data of a message, \<open>dup\<close> the number under which the receiver gets a descriptor; mapping
  such a descriptor gives as many bytes of the sender's region as are asked for, or fails if it has fewer. The result is the whole handshake, from the
  listener's accept event to a connection that both sides use. A port whose connection has ended can be
  used again: a server's waits for the next client, a client's can request the next connection.
\<close>

section \<open>Sessions\<close>

type_synonym frame = "byte list \<times> byte list"

record session =
  se_client :: socket
  se_server :: socket
  se_up :: "frame list"
  se_down :: "frame list"

text \<open>The two ends: environment and channel of the client and of the server, the client's port.\<close>

record link =
  lk_cenv :: env
  lk_senv :: env
  lk_pass :: "byte list \<Rightarrow> byte list"
  lk_dup :: "int \<Rightarrow> int"
  lk_port :: nat
  lk_cchan :: nat
  lk_schan :: nat

text \<open>A shared mapping of \<open>n\<close> bytes of the region behind a received descriptor. The kernel also maps
  past the end of the file and faults on access; here this fails at once, so that the length the receiver
  maps matters.\<close>

definition shared_mmap :: "(int \<Rightarrow> int) \<Rightarrow> memoryRegion list \<Rightarrow> trace \<Rightarrow> int \<Rightarrow> int \<Rightarrow> error + byte list" where
  "shared_mmap dup rs tr fd n =
     (case find (\<lambda>r. dup (mr_fd r) = fd) rs of
        Some r \<Rightarrow>
          (if 0 \<le> n \<and> n \<le> int (length (bytes_of (mr_data r))) then Inr (take (nat n) (bytes_of (mr_data r)))
           else Inl ''cannot map past the end'')
      | None \<Rightarrow> Inl ''bad file descriptor'')"

definition regions_of :: "nat \<Rightarrow> socket \<Rightarrow> memoryRegion list" where
  "regions_of i s = (case s_ports s i of Some p \<Rightarrow> p_regions p | None \<Rightarrow> [])"

definition server_env :: "link \<Rightarrow> session \<Rightarrow> env" where
  "server_env lk ses = (lk_senv lk)\<lparr>mmap := shared_mmap (lk_dup lk) (regions_of (lk_port lk) (se_client ses))\<rparr>"

fun deliver_up :: "link \<Rightarrow> frame \<Rightarrow> session \<Rightarrow> session option" where
  "deliver_up lk (dt, ctl) ses =
     (case receive (server_env lk ses) (lk_schan lk) (dt, lk_pass lk ctl) (se_server ses) of
        Some (None, s') \<Rightarrow> Some (ses\<lparr>se_server := s', se_down := se_down ses @ sent (se_server ses) s'\<rparr>)
      | _ \<Rightarrow> None)"

fun deliver_down :: "link \<Rightarrow> frame \<Rightarrow> session \<Rightarrow> session option" where
  "deliver_down lk (dt, ctl) ses =
     (case receive (lk_cenv lk) (lk_cchan lk) (dt, lk_pass lk ctl) (se_client ses) of
        Some (None, s') \<Rightarrow> Some (ses\<lparr>se_client := s', se_up := se_up ses @ sent (se_client ses) s'\<rparr>)
      | _ \<Rightarrow> None)"

text \<open>Up to \<open>n\<close> deliveries; \<open>None\<close> if a handler panics or returns an error.\<close>

fun dialogue :: "nat \<Rightarrow> link \<Rightarrow> session \<Rightarrow> session option" where
  "dialogue 0 lk ses = Some ses"
| "dialogue (Suc n) lk ses =
     (case se_down ses of
        f # fs \<Rightarrow> Option.bind (deliver_down lk f (ses\<lparr>se_down := fs\<rparr>)) (dialogue n lk)
      | [] \<Rightarrow>
          (case se_up ses of
             f # fs \<Rightarrow> Option.bind (deliver_up lk f (ses\<lparr>se_up := fs\<rparr>)) (dialogue n lk)
           | [] \<Rightarrow> Some ses))"

lemma dialogue_down:
  assumes "receive (lk_cenv lk) (lk_cchan lk) (dt, lk_pass lk ctl) cs = Some (None, cs')" and "sent cs cs' = fs"
  shows "dialogue (Suc n) lk \<lparr> se_client = cs, se_server = ss, se_up = [], se_down = [(dt, ctl)] \<rparr> =
    dialogue n lk \<lparr> se_client = cs', se_server = ss, se_up = fs, se_down = [] \<rparr>"
  using assms by simp

lemma dialogue_up:
  assumes "receive ((lk_senv lk)\<lparr>mmap := shared_mmap (lk_dup lk) (regions_of (lk_port lk) cs)\<rparr>) (lk_schan lk)
      (dt, lk_pass lk ctl) ss = Some (None, ss')" and "sent ss ss' = fs"
  shows "dialogue (Suc n) lk \<lparr> se_client = cs, se_server = ss, se_up = [(dt, ctl)], se_down = [] \<rparr> =
    dialogue n lk \<lparr> se_client = cs, se_server = ss', se_up = [], se_down = fs \<rparr>"
  using assms by (simp add: server_env_def)

section \<open>The client's events\<close>

lemma quiet_trans: "quiet s s1 \<Longrightarrow> quiet s1 s2 \<Longrightarrow> quiet s s2"
  by (auto simp: quiet_def List.map_filter_def)

text \<open>The system calls of the set-up succeed, with descriptors in the kernel's range.\<close>

definition fd_ok :: "int \<Rightarrow> bool" where "fd_ok fd \<longleftrightarrow> 0 < fd \<and> fd < 2 ^ 31"

definition setup_ok :: "env \<Rightarrow> bool" where
  "setup_ok env \<longleftrightarrow> mmap_full env \<and> sends_ok env \<and> (\<forall>tr fd n. \<exists>d. mmap env tr fd n = Inr d) \<and>
     (\<forall>tr. \<exists>fd. memfd_create env tr = Inr fd \<and> fd_ok fd) \<and> (\<forall>tr. \<exists>fd. eventfd2 env tr = Inr fd \<and> fd_ok fd) \<and>
     (\<forall>tr fd. add_seals env tr fd = None) \<and> (\<forall>tr fd n. ftruncate env tr fd n = None)"

lemma setup_regions:
  assumes "setup_ok env"
  shows "\<exists>r tr'. initializeRegions env p tr = (None, p\<lparr>p_regions := p_regions p @ [r]\<rparr>, tr') \<and> fd_ok (mr_fd r)"
proof -
  obtain fd where fd: "memfd_create env tr = Inr fd" "fd_ok fd" using assms unfolding setup_ok_def by blast
  let ?n = "uint (region_size (p_run p) True True)"
  obtain d where "mmap env (SysFtruncate fd ?n # SysAddSeals fd # SysMemfdCreate # tr) fd ?n = Inr d"
    using assms unfolding setup_ok_def by blast
  moreover have "add_seals env t f = None" "ftruncate env t f n = None" for t f n using assms by (simp_all add: setup_ok_def)
  ultimately show ?thesis using fd
    by (simp add: initializeRegions_def addRegion_def memfdCreate_def Let_def) (rule exI, rule conjI, rule refl, simp)
qed

lemma setup_eventFd:
  assumes "setup_ok env"
  shows "\<exists>fd. eventFd env tr = (Inr fd, SysEventfd # tr) \<and> fd_ok fd"
proof -
  obtain fd where "eventfd2 env tr = Inr fd" "fd_ok fd" using assms unfolding setup_ok_def by blast
  then show ?thesis by (simp add: eventFd_def)
qed

definition buffers_ok :: "controlChannel \<Rightarrow> bool" where
  "buffers_ok cc \<longleftrightarrow> length (cc_data cc) = msgSize \<and> length (cc_control cc) = maxControlLen"

lemma idle_buffers: "idle cc \<longleftrightarrow> buffers_ok cc \<and> cc_msgQueue cc = []"
  by (auto simp: idle_def buffers_ok_def)

lemma buffers_received: "buffers_ok cc \<Longrightarrow> buffers_ok (cc_received dt ctl cc)"
  by (simp add: buffers_ok_def cc_received_def)

definition control_of :: "controlMsg \<Rightarrow> byte list" where
  "control_of m = (if 0 < cm_Fd m then unixRights (cm_Fd m) else [])"

text \<open>What follows the parsing of a frame: the oldest queued message is sent.\<close>

lemma receive_sends:
  assumes cc: "s_ccs s c = Some cc" and dt: "length dt = msgSize" and sends: "sends_ok env"
    and p: "parseMsg (env\<lparr>recvmsg := \<lambda>_ _. Inr (dt, ctl)\<rparr>) c
        (log_sys (SysRecvmsg (cc_fd cc)) (put_cc c (cc_received dt ctl cc) s)) = Some (None, s1)"
    and s1: "view s1 c cc1 i p" "cc_msgQueue cc1 = m # ms" "cm_Buffer m \<noteq> []" "quiet s s1"
  shows "\<exists>s' e t. receive env c (dt, ctl) s = Some (None, s') \<and> view s' c (cc1\<lparr>cc_msgQueue := ms\<rparr>) i p \<and>
    sent s s' = [(frame_bytes e t (cm_Buffer m), control_of m)]"
proof -
  let ?env = "env\<lparr>recvmsg := \<lambda>_ _. Inr (dt, ctl)\<rparr>"
  let ?s' = "log_sys (SysSendmsg (cc_fd cc1) (frame_bytes ?env (s_trace s1) (cm_Buffer m)) (control_of m))
     (put_cc c (cc1\<lparr>cc_msgQueue := ms\<rparr>) s1)"
  have "sendMsg ?env c s1 = Some (None, ?s')"
    using s1 sends by (simp add: sendMsg_def view_def sends_ok_def control_of_def)
  then have "receive env c (dt, ctl) s = Some (None, ?s')"
    using cc p dt by (simp add: receive_def cc_handleEvent_def EPOLLHUP_def EPOLLERR_def EPOLLIN_def Let_def)
  moreover have "view ?s' c (cc1\<lparr>cc_msgQueue := ms\<rparr>) i p" using s1(1) by (simp add: view_def)
  moreover have "sent s ?s' = [(frame_bytes ?env (s_trace s1) (cm_Buffer m), control_of m)]"
    by (rule sent_after_quiet [OF s1(4)]) (simp add: log_sys_def)
  ultimately show ?thesis by blast
qed

lemma recv_Ack:
  assumes v: "view s c cc i p" and cc: "buffers_ok cc" "cc_msgQueue cc = m # ms" "cm_Buffer m \<noteq> []"
    and sends: "sends_ok env" and dt: "dt = frame_bytes e0 t0 (put_le 2 msgTypeAck)"
  shows "\<exists>s' cc' e t. receive env c (dt, ctl) s = Some (None, s') \<and> view s' c cc' i p \<and> buffers_ok cc' \<and>
    cc_msgQueue cc' = ms \<and> sent s s' = [(frame_bytes e t (cm_Buffer m), control_of m)]"
proof -
  let ?cc = "cc_received dt ctl cc"
  let ?s0 = "log_sys (SysRecvmsg (cc_fd cc)) (put_cc c ?cc s)"
  have len: "length dt = msgSize" using frame_bytes_split(2) [of "put_le 2 msgTypeAck"] dt by (simp add: msgSize_def)
  have "holds_frame ?cc (put_le 2 msgTypeAck @ [])"
    unfolding dt using cc(1) by (simp only: append_Nil2) (intro received_frame, simp_all add: buffers_ok_def msgSize_def)
  from frame_type [OF this] have "parseMsg (env\<lparr>recvmsg := \<lambda>_ _. Inr (dt, ctl)\<rparr>) c ?s0 = Some (None, ?s0)"
    by (simp add: parseMsg_def Let_def)
  moreover have "view ?s0 c ?cc i p" "cc_msgQueue ?cc = m # ms" using v cc by (simp_all add: view_def cc_received_def)
  ultimately obtain s' e t where "receive env c (dt, ctl) s = Some (None, s')" "view s' c (?cc\<lparr>cc_msgQueue := ms\<rparr>) i p"
    "sent s s' = [(frame_bytes e t (cm_Buffer m), control_of m)]"
    using receive_sends [OF _ len sends, of s c cc ctl ?s0 ?cc i p m ms] v cc(3) by (auto simp: view_def)
  moreover have "buffers_ok (?cc\<lparr>cc_msgQueue := ms\<rparr>)" using buffers_received [OF cc(1)] by (simp add: buffers_ok_def)
  ultimately show ?thesis by fastforce
qed

lemma recv_Hello:
  assumes os: "setup_ok env" and v: "view s c cc i p" and idle: "idle cc"
    and dt: "dt = frame_bytes e0 t0 (put_le 2 msgTypeHello @ enc_Hello h)"
    and h: "length (hello_Name h) = 32" "hello_VersionMin h \<le> Version" "Version \<le> hello_VersionMax h"
    and fresh: "p_regions p = []" "p_txQueues p = []" "p_rxQueues p = []"
    and cfg: "one_pair (hello_run (cfg_MemoryConfig (p_cfg p)) h) k"
  shows "\<exists>s' cc' p2 d r fd1 fd2 qt qr e t. receive env c (dt, ctl) s = Some (None, s') \<and> view s' c cc' i p2 \<and>
    buffers_ok cc' \<and> cc_msgQueue cc' = tl (client_msgs (s_appName s) (p_cfg p) r qt qr) \<and>
    sent s s' = [(frame_bytes e t (put_le 2 msgTypeInit @ enc_Init (init_msg (s_appName s) (cfg_Id (p_cfg p)))), [])] \<and>
    p_cfg p2 = p_cfg p \<and> p_run p2 = hello_run (cfg_MemoryConfig (p_cfg p)) h \<and> p_regions p2 = [r\<lparr>mr_data := Some d\<rparr>] \<and>
    qt = new_queue (p_run p2) ringTypeS2M fd1 \<and> qr = new_queue (p_run p2) ringTypeM2S fd2 \<and>
    client_ready p2 k d qt qr \<and> sint (mr_size r) = int (length d) \<and> fd_ok (mr_fd r) \<and> fd_ok fd1 \<and> fd_ok fd2 \<and> p_QuitChan p2 = p_QuitChan p"
proof -
  let ?env = "env\<lparr>recvmsg := \<lambda>_ _. Inr (dt, ctl)\<rparr>" and ?cc = "cc_received dt ctl cc"
  let ?s0 = "log_sys (SysRecvmsg (cc_fd cc)) (put_cc c ?cc s)"
  have os': "setup_ok ?env" "mmap_full ?env" "sends_ok env" using os by (simp_all add: setup_ok_def mmap_full_def sends_ok_def)
  have len: "2 + length (enc_Hello h) \<le> msgSize" using h(1) by (simp add: wire_lengths msgSize_def)
  then have fr: "holds_frame ?cc (put_le 2 msgTypeHello @ enc_Hello h)"
    unfolding dt using idle by (intro received_frame) (simp_all add: idle_def)
  have dlen: "length dt = msgSize" unfolding dt using len by (intro frame_bytes_split(2)) simp
  have v0: "view ?s0 c ?cc i p" using v by (simp add: view_def cc_received_def)
  obtain r tr1 where reg: "initializeRegions ?env (greeted h p) (s_trace ?s0) = (None, (greeted h p)\<lparr>p_regions := [r]\<rparr>, tr1)"
    "fd_ok (mr_fd r)"
    using setup_regions [OF os'(1), of "greeted h p"] fresh(1) by (fastforce simp: greeted_def)
  obtain fd1 where e1: "eventFd ?env tr1 = (Inr fd1, SysEventfd # tr1)" "fd_ok fd1" using setup_eventFd [OF os'(1)] by blast
  obtain fd2 where e2: "eventFd ?env (SysEventfd # tr1) = (Inr fd2, SysEventfd # SysEventfd # tr1)" "fd_ok fd2"
    using setup_eventFd [OF os'(1)] by blast
  let ?run = "p_run (greeted h p)"
  let ?qt = "new_queue ?run ringTypeS2M fd1" and ?qr = "new_queue ?run ringTypeM2S fd2"
  have app: "s_appName ?s0 = s_appName s" "cc_msgQueue ?cc = []" using idle by (simp_all add: idle_def cc_received_def)
  obtain s1 p2 d where A: "parseMsg ?env c ?s0 = Some (None, s1)"
    "view s1 c (?cc\<lparr>cc_msgQueue := client_msgs (s_appName s) (p_cfg p) r ?qt ?qr\<rparr>) i p2"
    "p_cfg p2 = p_cfg p" "p_run p2 = hello_run (cfg_MemoryConfig (p_cfg p)) h" "client_ready p2 k d ?qt ?qr" "quiet ?s0 s1"
    "p_regions p2 = [r\<lparr>mr_data := Some d\<rparr>]" "p_QuitChan p2 = p_QuitChan p" "mr_size r = region_size (p_run p2) True True"
    using client_answers [OF v0 fr h fresh cfg os'(2) reg(1) e1(1) e2(1)] unfolding app by auto
  define m where "m = hd (client_msgs (s_appName s) (p_cfg p) r ?qt ?qr)"
  have m: "client_msgs (s_appName s) (p_cfg p) r ?qt ?qr = m # tl (client_msgs (s_appName s) (p_cfg p) r ?qt ?qr)"
    "cm_Buffer m = put_le 2 msgTypeInit @ enc_Init (init_msg (s_appName s) (cfg_Id (p_cfg p)))" "control_of m = []"
    by (simp_all add: m_def client_msgs_def control_of_def)
  have ne: "cm_Buffer m \<noteq> []" by (simp add: m(2) wire_lengths flip: length_greater_0_conv)
  have q: "quiet s s1" by (rule quiet_trans [OF _ A(6)]) simp
  have cc: "s_ccs s c = Some cc" using v by (simp add: view_def)
  obtain s' e t where R: "receive env c (dt, ctl) s = Some (None, s')"
    "view s' c (?cc\<lparr>cc_msgQueue := tl (client_msgs (s_appName s) (p_cfg p) r ?qt ?qr)\<rparr>) i p2"
    "sent s s' = [(frame_bytes e t (cm_Buffer m), control_of m)]"
    using receive_sends [OF cc dlen os'(3) A(1,2) _ ne q] m(1) by fastforce
  have b: "buffers_ok (?cc\<lparr>cc_msgQueue := x\<rparr>)" for x using buffers_received idle by (simp add: idle_buffers buffers_ok_def cc_received_def)
  have run: "?run = p_run p2" using A(4) by (simp add: greeted_def)
  have size: "sint (mr_size r) = int (length d)"
    unfolding A(9) by (rule client_ready_size [OF _ A(5)]) (use cfg A(4) in simp)
  show ?thesis
    by (rule exI [of _ s'], rule exI [of _ "?cc\<lparr>cc_msgQueue := tl (client_msgs (s_appName s) (p_cfg p) r ?qt ?qr)\<rparr>"],
        rule exI [of _ p2], rule exI [of _ d], rule exI [of _ r], rule exI [of _ fd1], rule exI [of _ fd2],
        rule exI [of _ ?qt], rule exI [of _ ?qr], rule exI [of _ e], rule exI [of _ t])
      (use R b A(3-5,7,8) reg(2) e1(2) e2(2) m(2,3) run size in simp)
qed

text \<open>The client's region is already mapped when the server confirms.\<close>

lemma port_connect_client:
  assumes p: "s_ports s i = Some p" "p_regions p = [r]" "mr_data r = Some d" "p_txQueues p = [qa]" "p_rxQueues p = [qb]"
    and q: "q_at qa k offa" "q_at qb k offb" "length (ring_rb (q_ring qa)) = ringSize"
      "length (ring_rb (q_ring qb)) = ringSize" "offa + ringSize \<le> length d" "offb + ringSize \<le> length d"
      "cookie_of d offa = cookie" "cookie_of d offb = cookie"
    and cb: "cfg_ConnectedFunc (p_cfg p) = UserFunc" "\<And>tr. connectedFunc env tr i = None"
  shows "port_connect env i s = Some (None, log_sys (CallConnected i) (put_port i (connected_port d (p_peerName p) p) s))"
proof -
  have same: "p\<lparr>p_regions := [r]\<rparr> = p" "r\<lparr>mr_data := Some d\<rparr> = r" using p(2,3) by simp_all
  have m: "map_regions env (p_regions p) (s_trace s) = (None, [r], s_trace s)" using p by simp
  have rd: "region_data (p\<lparr>p_txQueues := txs\<rparr>) 0 = Some d" "region_data p 0 = Some d" for txs
    using p by (simp_all add: region_data_def go_nth_def bytes_of_def)
  note c1 = check_ring_ok [OF rd(2) q(1,3,5,7)] and c2 = check_ring_ok [OF rd(1) q(2,4,6,8)]
  have e: "connected_port d (p_peerName p) p = p\<lparr>p_txQueues := [refreshed d qa], p_rxQueues := [refreshed d qb]\<rparr>"
    using p(2,4,5) same by (simp add: connected_port_def)
  show ?thesis
    using p(1,4,5) m cb by (simp add: port_connect_def Let_def c1 c2 same e call_ConnectedFunc_def del: check_rings.simps)
qed

lemma recv_Connected:
  assumes v: "view s c cc i p" and idle: "idle cc"
    and dt: "dt = frame_bytes e0 t0 (put_le 2 msgTypeConnected @ enc_Connected m)" "length (connected_Name m) = 32"
    and p: "p_regions p = [r]" "mr_data r = Some d" "p_txQueues p = [qa]" "p_rxQueues p = [qb]"
    and q: "q_at qa k offa" "q_at qb k offb" "length (ring_rb (q_ring qa)) = ringSize"
      "length (ring_rb (q_ring qb)) = ringSize" "offa + ringSize \<le> length d" "offb + ringSize \<le> length d"
      "cookie_of d offa = cookie" "cookie_of d offb = cookie"
    and cb: "cfg_ConnectedFunc (p_cfg p) = UserFunc" "\<And>tr. connectedFunc env tr i = None"
  shows "\<exists>s' cc'. receive env c (dt, ctl) s = Some (None, s') \<and> sent s s' = [] \<and>
    view s' c cc' i (connected_port d (string_of_bytes (connected_Name m)) p) \<and> cc_isConnected cc'"
proof -
  let ?env = "env\<lparr>recvmsg := \<lambda>_ _. Inr (dt, ctl)\<rparr>" and ?nm = "string_of_bytes (connected_Name m)"
  let ?cc = "cc_received dt ctl cc" and ?p = "p\<lparr>p_peerName := ?nm\<rparr>"
  let ?s0 = "log_sys (SysRecvmsg (cc_fd cc)) (put_cc c ?cc s)"
  let ?cc' = "?cc\<lparr>cc_isConnected := True\<rparr>" and ?p' = "connected_port d ?nm p"
  have pt: "cc_port ?cc = Some i" using v by (simp add: view_def cc_received_def)
  then have v0: "view ?s0 c ?cc i p" using v by (simp add: view_def)
  have len: "2 + length (enc_Connected m) \<le> msgSize" using dt(2) by (simp add: wire_lengths msgSize_def)
  then have fr: "holds_frame ?cc (put_le 2 msgTypeConnected @ enc_Connected m)"
    unfolding dt(1) using idle by (intro received_frame) (simp_all add: idle_def)
  have "port_connect ?env i (put_port i ?p ?s0) =
      Some (None, log_sys (CallConnected i) (put_port i (connected_port d (p_peerName ?p) ?p) (put_port i ?p ?s0)))"
    by (rule port_connect_client [where r = r and qa = qa and qb = qb and offa = offa and offb = offb])
      (use p q cb in simp_all)
  then have con: "port_connect ?env i (put_port i ?p ?s0) = Some (None, log_sys (CallConnected i) (put_port i ?p' (put_port i ?p ?s0)))"
    by (simp add: connected_port_def)
  let ?s1 = "put_cc c ?cc' (log_sys (CallConnected i) (put_port i ?p' (put_port i ?p ?s0)))"
  have "dispatch ?env c msgTypeConnected ?s0 = Some (None, ?s1)"
    using v0 view_port_of [OF v0] con decode_frame(6) [OF fr dt(2)] by (simp add: dispatch_def parseConnected_def view_def)
  then have "parseMsg ?env c ?s0 = Some (None, ?s1)" by (intro parseMsg_dispatch [OF _ fr]) simp_all
  moreover have "cc_msgQueue ?cc' = []" using idle by (simp add: idle_def cc_received_def)
  then have "sendMsg ?env c ?s1 = Some (None, ?s1)" by (simp add: sendMsg_def)
  moreover have "length dt = msgSize" unfolding dt(1) using len by (intro frame_bytes_split(2)) simp
  ultimately have "receive env c (dt, ctl) s = Some (None, ?s1)"
    using v by (simp add: receive_def cc_handleEvent_def EPOLLHUP_def EPOLLERR_def EPOLLIN_def Let_def view_def)
  moreover have "sent s ?s1 = []" by (rule sent_quiet) simp
  moreover have "view ?s1 c ?cc' i ?p'" "cc_isConnected ?cc'" using pt by (simp_all add: view_def)
  ultimately show ?thesis by blast
qed

section \<open>The server accepts a peer\<close>

lemma accept_greets:
  assumes acc: "accept_fd env (s_trace s) lfd = Inr nfd" and "\<And>tr ep fd. epoll_add env tr ep fd = None" and "sends_ok env"
  shows "\<exists>s' cc e t. listener_handleEvent env lfd EPOLLIN s = Some (None, s') \<and> s_ccs s' (s_next s) = Some cc \<and> idle cc \<and>
    cc_port cc = None \<and> cc_fd cc = int32 nfd \<and> s_ports s' = s_ports s \<and> s_portList s' = s_portList s \<and>
    s_ccList s' = s_ccList s @ [s_next s] \<and>
    sent s s' = [(frame_bytes e t (put_le 2 msgTypeHello @ enc_Hello (hello_msg (s_appName s))), [])]"
proof -
  let ?h = "put_le 2 msgTypeHello @ enc_Hello (hello_msg (s_appName s))"
  have ne: "?h \<noteq> []" by (simp add: wire_lengths flip: length_greater_0_conv)
  let ?t = "SysEpollAdd (s_epfd s) (int32 nfd) # SysAccept lfd # s_trace s"
  let ?s1 = "(put_cc (s_next s) (new_cc nfd None) (s\<lparr>s_trace := ?t\<rparr>))\<lparr>s_ccList := s_ccList s @ [s_next s], s_next := Suc (s_next s)\<rparr>"
  have "listener_handleEvent env lfd EPOLLIN s = Some (None,
      log_sys (SysSendmsg (int32 nfd) (frame_bytes env ?t ?h) []) ?s1)"
    using assms ne by (simp add: listener_handleEvent_def EPOLLHUP_def EPOLLERR_def EPOLLIN_def addControlChannel_def addEvent_def
        wrap_err_def msgEnqHello_def msg_enq_def sendMsg_def new_cc_def sends_ok_def put_cc_def log_sys_def)
  moreover have "sent s (log_sys (SysSendmsg (int32 nfd) (frame_bytes env ?t ?h) []) ?s1) = [(frame_bytes env ?t ?h, [])]"
    by (rule sent_after_quiet [of s ?s1]) (auto simp: quiet_def map_filter_simps log_sys_def
        intro!: exI [of _ "[SysEpollAdd (s_epfd s) (int32 nfd), SysAccept lfd]"])
  moreover have "idle (new_cc nfd None)" by (simp add: idle_def new_cc_def)
  ultimately show ?thesis
    by (intro exI [of _ "log_sys (SysSendmsg (int32 nfd) (frame_bytes env ?t ?h) []) ?s1"] exI [of _ "new_cc nfd None"]
        exI [of _ env] exI [of _ ?t]) (simp add: new_cc_def)
qed

section \<open>The whole handshake\<close>

text \<open>The server acknowledges a message, and the client sends its next one.\<close>

lemma exchange:
  assumes srv: "receive ((lk_senv lk)\<lparr>mmap := shared_mmap (lk_dup lk) (p_regions p)\<rparr>) (lk_schan lk) (dt, lk_pass lk ctl) ss =
      Some (None, ss')" "replied ss (put_le 2 msgTypeAck) ss'"
    and cl: "view cs (lk_cchan lk) cc (lk_port lk) p" "buffers_ok cc" "cc_msgQueue cc = m # ms" "cm_Buffer m \<noteq> []"
    and sends: "sends_ok (lk_cenv lk)"
  shows "\<exists>cs' cc' e t. dialogue (Suc (Suc n)) lk \<lparr> se_client = cs, se_server = ss, se_up = [(dt, ctl)], se_down = [] \<rparr> =
      dialogue n lk \<lparr> se_client = cs', se_server = ss', se_up = [(frame_bytes e t (cm_Buffer m), control_of m)], se_down = [] \<rparr> \<and>
    view cs' (lk_cchan lk) cc' (lk_port lk) p \<and> buffers_ok cc' \<and> cc_msgQueue cc' = ms"
proof -
  obtain e t where ack: "sent ss ss' = [(frame_bytes e t (put_le 2 msgTypeAck), [])]" using srv(2) by (auto simp: replied_def)
  obtain cs' cc' e' t' where c: "receive (lk_cenv lk) (lk_cchan lk) (frame_bytes e t (put_le 2 msgTypeAck), lk_pass lk []) cs = Some (None, cs')"
    "view cs' (lk_cchan lk) cc' (lk_port lk) p" "buffers_ok cc'" "cc_msgQueue cc' = ms"
    "sent cs cs' = [(frame_bytes e' t' (cm_Buffer m), control_of m)]"
    using recv_Ack [OF cl sends refl] by blast
  have "regions_of (lk_port lk) cs = p_regions p" using cl(1) by (simp add: regions_of_def view_def)
  then have "dialogue (Suc (Suc n)) lk \<lparr> se_client = cs, se_server = ss, se_up = [(dt, ctl)], se_down = [] \<rparr> =
      dialogue n lk \<lparr> se_client = cs', se_server = ss', se_up = [(frame_bytes e' t' (cm_Buffer m), control_of m)], se_down = [] \<rparr>"
    using srv(1) by (simp only: dialogue_up [OF _ ack] dialogue_down [OF c(1,5)])
  then show ?thesis using c(2-4) by blast
qed

definition passes_fds :: "link \<Rightarrow> bool" where
  "passes_fds lk \<longleftrightarrow> (\<forall>fd. fd_ok fd \<longrightarrow> gives_fd (lk_pass lk (unixRights fd)) (lk_dup lk fd))"

text \<open>The client: a channel bound to a fresh port, an application that accepts the connection.\<close>

definition client_waits :: "link \<Rightarrow> socket \<Rightarrow> port \<Rightarrow> bool" where
  "client_waits lk cs p \<longleftrightarrow> setup_ok (lk_cenv lk) \<and> (\<exists>cc. view cs (lk_cchan lk) cc (lk_port lk) p \<and> idle cc) \<and>
     p_regions p = [] \<and> p_txQueues p = [] \<and> p_rxQueues p = [] \<and> \<not> cfg_IsServer (p_cfg p) \<and>
     cfg_ConnectedFunc (p_cfg p) = UserFunc \<and> (\<forall>tr. connectedFunc (lk_cenv lk) tr (lk_port lk) = None)"

text \<open>\<open>accepts m P Q\<close>: the server takes the message \<open>m\<close> when its port is \<open>P\<close>, acknowledges it and
  goes on with \<open>Q\<close>.\<close>

definition accepts :: "env \<Rightarrow> (byte list \<Rightarrow> byte list) \<Rightarrow> nat \<Rightarrow> nat \<Rightarrow> controlMsg \<Rightarrow> port \<Rightarrow> port \<Rightarrow> bool" where
  "accepts env pass c j m P Q \<longleftrightarrow> (\<forall>ss sc e t. view ss c sc j P \<longrightarrow> idle sc \<longrightarrow>
     (\<exists>ss' sc'. receive env c (frame_bytes e t (cm_Buffer m), pass (control_of m)) ss = Some (None, ss') \<and>
        replied ss (put_le 2 msgTypeAck) ss' \<and> view ss' c sc' j Q \<and> idle sc'))"

fun accepts_all :: "env \<Rightarrow> (byte list \<Rightarrow> byte list) \<Rightarrow> nat \<Rightarrow> nat \<Rightarrow> port \<Rightarrow> controlMsg list \<Rightarrow> port \<Rightarrow> bool" where
  "accepts_all env pass c j P [] Q \<longleftrightarrow> P = Q"
| "accepts_all env pass c j P (m # ms) Q \<longleftrightarrow> (\<exists>R. accepts env pass c j m P R \<and> accepts_all env pass c j R ms Q)"

lemma accepts_AddRegion:
  assumes "sends_ok env" "areg_Index m \<le> 255" "gives_fd (pass (unixRights fd)) fd'" "0 < fd"
  shows "accepts env pass c j \<lparr> cm_Buffer = put_le 2 msgTypeAddRegion @ enc_AddRegion m, cm_Fd = fd \<rparr> p
    (p\<lparr>p_regions := p_regions p @ [\<lparr> mr_data = None, mr_size = areg_Size m, mr_fd = fd', mr_packetBufferOffset = 0 \<rparr>]\<rparr>)"
  using recv_AddRegion [OF _ _ assms(1) refl assms(2,3)] assms(4) by (simp add: accepts_def control_of_def)

lemma accepts_AddRing:
  assumes "sends_ok env" "aring_Index m < NumQueuePairs (p_run p)" "gives_fd (pass (unixRights fd)) fd'" "0 < fd"
  shows "accepts env pass c j \<lparr> cm_Buffer = put_le 2 msgTypeAddRing @ enc_AddRing m, cm_Fd = fd \<rparr> p (srv_add_ring m fd' p)"
  using recv_AddRing [OF _ _ assms(1) refl assms(2,3)] assms(4) by (simp add: accepts_def control_of_def)

text \<open>A queue of messages that the server accepts one after the other: the client gets to its last
  message after two deliveries for each of them.\<close>

lemma dialogue_chain:
  assumes "accepts_all ((lk_senv lk)\<lparr>mmap := shared_mmap (lk_dup lk) (p_regions p)\<rparr>) (lk_pass lk) (lk_schan lk) j P (m # ms) Q"
    and "view ss (lk_schan lk) sc j P" "idle sc" and "view cs (lk_cchan lk) cc (lk_port lk) p" "buffers_ok cc"
    and "cc_msgQueue cc = ms @ [z]" "\<forall>m\<in>set (ms @ [z]). cm_Buffer m \<noteq> []" and "sends_ok (lk_cenv lk)"
  shows "\<exists>cs' cc' ss' sc' e t. dialogue (2 * length (m # ms) + n) lk
      \<lparr> se_client = cs, se_server = ss, se_up = [(frame_bytes ea ta (cm_Buffer m), control_of m)], se_down = [] \<rparr> =
      dialogue n lk \<lparr> se_client = cs', se_server = ss', se_up = [(frame_bytes e t (cm_Buffer z), control_of z)], se_down = [] \<rparr> \<and>
    view cs' (lk_cchan lk) cc' (lk_port lk) p \<and> idle cc' \<and> view ss' (lk_schan lk) sc' j Q \<and> idle sc'"
  using assms
proof (induction ms arbitrary: m P ss sc cs cc ea ta)
  case Nil
  let ?E = "(lk_senv lk)\<lparr>mmap := shared_mmap (lk_dup lk) (p_regions p)\<rparr>"
  have "accepts ?E (lk_pass lk) (lk_schan lk) j m P Q" using Nil.prems(1) by simp
  with Nil.prems(2,3) obtain ss' sc' where
    R: "receive ?E (lk_schan lk) (frame_bytes ea ta (cm_Buffer m), lk_pass lk (control_of m)) ss = Some (None, ss')"
    "replied ss (put_le 2 msgTypeAck) ss'" "view ss' (lk_schan lk) sc' j Q" "idle sc'"
    unfolding accepts_def by blast
  have q: "cc_msgQueue cc = z # []" "cm_Buffer z \<noteq> []" using Nil.prems(6,7) by simp_all
  show ?case
    using exchange [OF R(1,2) Nil.prems(4,5) q Nil.prems(8), of n] R(3,4) by (fastforce simp: idle_buffers simp del: dialogue.simps)
next
  case (Cons m' ms)
  let ?E = "(lk_senv lk)\<lparr>mmap := shared_mmap (lk_dup lk) (p_regions p)\<rparr>"
  obtain R where R: "accepts ?E (lk_pass lk) (lk_schan lk) j m P R" "accepts_all ?E (lk_pass lk) (lk_schan lk) j R (m' # ms) Q"
    using Cons.prems(1) by auto
  with Cons.prems(2,3) obtain ss' sc' where
    S: "receive ?E (lk_schan lk) (frame_bytes ea ta (cm_Buffer m), lk_pass lk (control_of m)) ss = Some (None, ss')"
    "replied ss (put_le 2 msgTypeAck) ss'" "view ss' (lk_schan lk) sc' j R" "idle sc'"
    unfolding accepts_def by blast
  have q: "cc_msgQueue cc = m' # (ms @ [z])" "cm_Buffer m' \<noteq> []" "\<forall>m\<in>set (ms @ [z]). cm_Buffer m \<noteq> []"
    using Cons.prems(6,7) by simp_all
  obtain cs' cc' e t where X: "dialogue (Suc (Suc (2 * length (m' # ms) + n))) lk
      \<lparr> se_client = cs, se_server = ss, se_up = [(frame_bytes ea ta (cm_Buffer m), control_of m)], se_down = [] \<rparr> =
      dialogue (2 * length (m' # ms) + n) lk
        \<lparr> se_client = cs', se_server = ss', se_up = [(frame_bytes e t (cm_Buffer m'), control_of m')], se_down = [] \<rparr>"
    "view cs' (lk_cchan lk) cc' (lk_port lk) p" "buffers_ok cc'" "cc_msgQueue cc' = ms @ [z]"
    using exchange [OF S(1,2) Cons.prems(4,5) q(1,2) Cons.prems(8), of "2 * length (m' # ms) + n"] by blast
  have "2 * length (m # m' # ms) + n = Suc (Suc (2 * length (m' # ms) + n))" by simp
  then show ?case
    using Cons.IH [OF R(2) S(3,4) X(2-4) q(3) Cons.prems(8)] X(1) by (simp only:)
qed

text \<open>The client's messages after its introduction, up to the request for the connection.\<close>

definition announcements :: "memoryRegion \<Rightarrow> queue \<Rightarrow> queue \<Rightarrow> controlMsg list" where
  "announcements r qt qr =
     [\<lparr> cm_Buffer = put_le 2 msgTypeAddRegion @ enc_AddRegion \<lparr> areg_Index = 0, areg_Size = mr_size r \<rparr>, cm_Fd = mr_fd r \<rparr>,
      \<lparr> cm_Buffer = put_le 2 msgTypeAddRing @ enc_AddRing (add_ring_msg ringTypeS2M 0 qt), cm_Fd = q_interruptFd qt \<rparr>,
      \<lparr> cm_Buffer = put_le 2 msgTypeAddRing @ enc_AddRing (add_ring_msg ringTypeM2S 0 qr), cm_Fd = q_interruptFd qr \<rparr>]"

definition connect_request :: "PortCfg \<Rightarrow> controlMsg" where
  "connect_request cfg =
     \<lparr> cm_Buffer = put_le 2 msgTypeConnect @ enc_Connect \<lparr> connect_Name = fixed_field 32 (cfg_Name cfg) \<rparr>, cm_Fd = - 1 \<rparr>"

lemma client_msgs_split:
  "tl (client_msgs app cfg r qt qr) = announcements r qt qr @ [connect_request cfg]"
  "\<forall>m\<in>set (announcements r qt qr @ [connect_request cfg]). cm_Buffer m \<noteq> []"
  by (simp_all add: client_msgs_def announcements_def connect_request_def flip: length_greater_0_conv)

definition srv_rx :: "link \<Rightarrow> queue \<Rightarrow> queue" where
  "srv_rx lk qt = srv_queue ringTypeS2M (add_ring_msg ringTypeS2M 0 qt) (lk_dup lk (q_interruptFd qt))"

definition srv_tx :: "link \<Rightarrow> queue \<Rightarrow> queue" where
  "srv_tx lk qr = srv_queue ringTypeM2S (add_ring_msg ringTypeM2S 0 qr) (lk_dup lk (q_interruptFd qr))"

lemma announcements_accepted:
  assumes "p_regions sp = []" "p_txQueues sp = []" "p_rxQueues sp = []" "0 < NumQueuePairs (cfg_MemoryConfig (p_cfg sp))"
    and "sends_ok env" "passes_fds lk" "fd_ok (mr_fd r)" "fd_ok (q_interruptFd qt)" "fd_ok (q_interruptFd qr)"
  shows "accepts_all env (lk_pass lk) c j (bound c nm sp) (announcements r qt qr)
    (announced c nm (mr_size r) (lk_dup lk (mr_fd r)) (srv_rx lk qt) (srv_tx lk qr) sp)"
proof -
  note A = announcing [OF assms(1-4) srv_rx_def [of lk qt] srv_tx_def [of lk qr], where c = c and nm = nm]
  have g: "gives_fd (lk_pass lk (unixRights fd)) (lk_dup lk fd)" "0 < fd" if "fd_ok fd" for fd
    using assms(6) that by (simp_all add: passes_fds_def fd_ok_def)
  have i: "areg_Index \<lparr> areg_Index = 0, areg_Size = mr_size r \<rparr> \<le> 255" by simp
  show ?thesis
    unfolding announcements_def accepts_all.simps
    using accepts_AddRegion [where pass = "lk_pass lk", OF assms(5) i g [OF assms(7)], of c j "bound c nm sp", simplified, unfolded A(1)]
      accepts_AddRing [where pass = "lk_pass lk", OF assms(5) A(4) [where rt = ringTypeS2M and q = qt] g [OF assms(8)], of c j, unfolded A(2)]
      accepts_AddRing [where pass = "lk_pass lk", OF assms(5) A(5) [where rt = ringTypeM2S and q = qr] g [OF assms(9)], of c j, unfolded A(3)]
    by blast
qed

lemma session_announces:
  assumes w: "server_waits (lk_senv lk) ss (lk_schan lk) j sp (cfg_Id cfg)" and pass: "passes_fds lk" and sends: "sends_ok (lk_cenv lk)"
    and cl: "view cs (lk_cchan lk) cc (lk_port lk) p" "buffers_ok cc" "cc_msgQueue cc = tl (client_msgs app cfg r qt qr)"
    and fds: "fd_ok (mr_fd r)" "fd_ok (q_interruptFd qt)" "fd_ok (q_interruptFd qr)"
    and D0: "D0 = frame_bytes e0 t0 (put_le 2 msgTypeInit @ enc_Init (init_msg app (cfg_Id cfg)))"
  shows "\<exists>cs' cc' ss' sc nm e t.
    dialogue (8 + n) lk \<lparr> se_client = cs, se_server = ss, se_up = [(D0, [])], se_down = [] \<rparr> =
      dialogue n lk \<lparr> se_client = cs', se_server = ss',
        se_up = [(frame_bytes e t (cm_Buffer (connect_request cfg)), control_of (connect_request cfg))], se_down = [] \<rparr> \<and>
    view cs' (lk_cchan lk) cc' (lk_port lk) p \<and> idle cc' \<and> idle sc \<and>
    view ss' (lk_schan lk) sc j (announced (lk_schan lk) nm (mr_size r) (lk_dup lk (mr_fd r)) (srv_rx lk qt) (srv_tx lk qr) sp)"
proof -
  let ?E = "(lk_senv lk)\<lparr>mmap := shared_mmap (lk_dup lk) (p_regions p)\<rparr>"
  obtain sc where W: "s_ccs ss (lk_schan lk) = Some sc" "idle sc" "sends_ok (lk_senv lk)"
    "find_peer (s_ports ss) (s_portList ss) (init_Id (init_msg app (cfg_Id cfg))) = Some (j, sp)"
    "cfg_Secret (p_cfg sp) = init_Secret (init_msg app (cfg_Id cfg))"
    "p_regions sp = []" "p_txQueues sp = []" "p_rxQueues sp = []" "0 < NumQueuePairs (cfg_MemoryConfig (p_cfg sp))"
    by (rule server_waitsD [OF w])
  have E: "sends_ok ?E" using W(3) by (simp add: sends_ok_def)
  define nm where "nm = string_of_bytes (init_Name (init_msg app (cfg_Id cfg)))"
  obtain s1 k1 where S1: "receive ?E (lk_schan lk) (D0, lk_pass lk []) ss = Some (None, s1)" "replied ss (put_le 2 msgTypeAck) s1"
    "view s1 (lk_schan lk) k1 j (bound (lk_schan lk) nm sp)" "idle k1"
    using recv_Init [OF W(1,2) E D0 init_msg_wf W(4,5)] unfolding nm_def by blast
  obtain m ms where ms: "announcements r qt qr = m # ms" "length ms = 2" by (auto simp: announcements_def)
  have q: "cc_msgQueue cc = m # (ms @ [connect_request cfg])" "cm_Buffer m \<noteq> []"
    "\<forall>m\<in>set (ms @ [connect_request cfg]). cm_Buffer m \<noteq> []"
    using cl(3) client_msgs_split(1) [of app cfg r qt qr] client_msgs_split(2) [of r qt qr cfg] ms(1) by simp_all
  obtain cs1 cc1 e t where X: "dialogue (Suc (Suc (2 * length (m # ms) + n))) lk
      \<lparr> se_client = cs, se_server = ss, se_up = [(D0, [])], se_down = [] \<rparr> = dialogue (2 * length (m # ms) + n) lk
      \<lparr> se_client = cs1, se_server = s1, se_up = [(frame_bytes e t (cm_Buffer m), control_of m)], se_down = [] \<rparr>"
    "view cs1 (lk_cchan lk) cc1 (lk_port lk) p" "buffers_ok cc1" "cc_msgQueue cc1 = ms @ [connect_request cfg]"
    using exchange [OF S1(1,2) cl(1,2) q(1,2) sends, of "2 * length (m # ms) + n"] by blast
  have acc: "accepts_all ?E (lk_pass lk) (lk_schan lk) j (bound (lk_schan lk) nm sp) (m # ms)
      (announced (lk_schan lk) nm (mr_size r) (lk_dup lk (mr_fd r)) (srv_rx lk qt) (srv_tx lk qr) sp)"
    using announcements_accepted [OF W(6-9) E pass fds] unfolding ms(1) .
  have "8 + n = Suc (Suc (2 * length (m # ms) + n))" using ms(2) by simp
  then show ?thesis
    using dialogue_chain [OF acc S1(3,4) X(2-4) q(3) sends, where n = n and ea = e and ta = t] X(1) by (simp only:) blast
qed

lemma client_ready_connected:
  assumes "client_ready p k d qt qr" and "p_regions p = [r]" "mr_data r = Some d"
  shows "client_ready (connected_port d nm p) k d (refreshed d qt) (refreshed d qr)"
  using assms by (simp add: client_ready_def connected_port_def region_data_def go_nth_def bytes_of_def)

lemma ready_cookies:
  assumes "client_ready p k d qt qr"
  shows "q_at qt k 0" "q_at qr k (ring_span k)" "0 + ringSize \<le> length d" "ring_span k + ringSize \<le> length d"
    "cookie_of d 0 = cookie" "cookie_of d (ring_span k) = cookie" "p_txQueues p = [qt]" "p_rxQueues p = [qr]"
  using assms by (auto simp: client_ready_def ring_ready_def ring_span_def)

text \<open>The request for the connection and its confirmation: two deliveries.\<close>

lemma session_confirms:
  assumes run: "one_pair run k" "qt = new_queue run ringTypeS2M f1" "qr = new_queue run ringTypeM2S f2"
    and cl: "view cs (lk_cchan lk) cc (lk_port lk) p" "idle cc" "p_regions p = [r\<lparr>mr_data := Some d\<rparr>]" "client_ready p k d qt qr"
      "sint (mr_size r) = int (length d)" "cfg_ConnectedFunc (p_cfg p) = UserFunc" "\<And>tr. connectedFunc (lk_cenv lk) tr (lk_port lk) = None"
    and sv: "view ss (lk_schan lk) sc j (announced (lk_schan lk) nm (mr_size r) (lk_dup lk (mr_fd r)) (srv_rx lk qt) (srv_tx lk qr) sp)"
      "idle sc" "sends_ok (lk_senv lk)" "cfg_IsServer (p_cfg sp)"
      "cfg_ConnectedFunc (p_cfg sp) = UserFunc" "\<And>tr. connectedFunc (lk_senv lk) tr j = None"
    and D: "D = frame_bytes e0 t0 (cm_Buffer (connect_request cfg))"
  shows "\<exists>cs' cc' p' ss' sc' sp' sqr sqt. dialogue (Suc (Suc n)) lk
      \<lparr> se_client = cs, se_server = ss, se_up = [(D, ctl)], se_down = [] \<rparr> =
      dialogue n lk \<lparr> se_client = cs', se_server = ss', se_up = [], se_down = [] \<rparr> \<and>
    view cs' (lk_cchan lk) cc' (lk_port lk) p' \<and> cc_isConnected cc' \<and> view ss' (lk_schan lk) sc' j sp' \<and> cc_isConnected sc' \<and>
    p_cfg p' = p_cfg p \<and> p_run p' = p_run p \<and> p_QuitChan p' = p_QuitChan p \<and> client_ready p' k d (refreshed d qt) (refreshed d qr) \<and>
    p_rxQueues sp' = [sqr] \<and> p_txQueues sp' = [sqt] \<and>
    peer_queue sp' sqr k 0 (length d) \<and> peer_queue sp' sqt k (ring_span k) (length d)"
proof -
  let ?E = "(lk_senv lk)\<lparr>mmap := shared_mmap (lk_dup lk) (p_regions p)\<rparr>"
  let ?P = "announced (lk_schan lk) nm (mr_size r) (lk_dup lk (mr_fd r)) (srv_rx lk qt) (srv_tx lk qr) sp"
  let ?r = "\<lparr> mr_data = None, mr_size = mr_size r, mr_fd = lk_dup lk (mr_fd r), mr_packetBufferOffset = 0 \<rparr>"
  let ?c = "\<lparr> connect_Name = fixed_field 32 (cfg_Name cfg) \<rparr>"
  have P: "p_regions ?P = [?r]" "mr_data ?r = None" "p_txQueues ?P = [srv_tx lk qr]" "p_rxQueues ?P = [srv_rx lk qt]"
    "p_cfg ?P = p_cfg sp"
    by (simp_all add: announced_def bound_def)
  have E: "sends_ok ?E" "\<And>tr. connectedFunc ?E tr j = None" "\<And>tr. mmap ?E tr (mr_fd ?r) (sint (mr_size ?r)) = Inr d"
    using sv(3,6) cl(3,5) by (simp_all add: sends_ok_def shared_mmap_def bytes_of_def)
  note R = ready_cookies [OF cl(4)]
  have q: "q_at (srv_tx lk qr) k (ring_span k)" "q_at (srv_rx lk qt) k 0" "length (ring_rb (q_ring (srv_tx lk qr))) = ringSize"
    "length (ring_rb (q_ring (srv_rx lk qt))) = ringSize" "q_lastHead (srv_rx lk qt) = 0" "q_lastHead (srv_tx lk qr) = 0"
    by (simp_all add: run srv_rx_def srv_tx_def srv_queue_at [OF run(1)] del: ring_consts)
  have D': "D = frame_bytes e0 t0 (put_le 2 msgTypeConnect @ enc_Connect ?c)" "length (connect_Name ?c) = 32"
    using D by (simp_all add: connect_request_def)
  let ?sp = "connected_port d (string_of_bytes (connect_Name ?c)) ?P"
  let ?k = "\<lparr> connected_Name = fixed_field 32 (cfg_Name (p_cfg ?P)) \<rparr>"
  obtain s1 k1 where S: "receive ?E (lk_schan lk) (D, lk_pass lk ctl) ss = Some (None, s1)"
    "replied ss (put_le 2 msgTypeConnected @ enc_Connected ?k) s1" "view s1 (lk_schan lk) k1 j ?sp" "cc_isConnected k1"
    using recv_Connect [OF sv(1,2) E(1) D' P(1-4) E(3) q(1-4) R(4,3,6,5) _ E(2)] sv(5) unfolding P(5) by blast
  obtain e t where F: "sent ss s1 = [(frame_bytes e t (put_le 2 msgTypeConnected @ enc_Connected ?k), [])]"
    using S(2) by (auto simp: replied_def)
  have "length (ring_rb (q_ring qt)) = ringSize" "length (ring_rb (q_ring qr)) = ringSize"
    by (simp_all add: run new_queue_def)
  note rb = this
  have k32: "length (connected_Name ?k) = 32" and rd: "mr_data (r\<lparr>mr_data := Some d\<rparr>) = Some d" by simp_all
  obtain cs' cc' where C: "receive (lk_cenv lk) (lk_cchan lk) (frame_bytes e t (put_le 2 msgTypeConnected @ enc_Connected ?k),
      lk_pass lk []) cs = Some (None, cs')" "sent cs cs' = []"
    "view cs' (lk_cchan lk) cc' (lk_port lk) (connected_port d (string_of_bytes (connected_Name ?k)) p)" "cc_isConnected cc'"
    using recv_Connected [OF cl(1,2) refl k32 cl(3) rd R(7,8,1,2) rb R(3,4,5,6) cl(6,7)] by blast
  have "regions_of (lk_port lk) cs = p_regions p" using cl(1) by (simp add: regions_of_def view_def)
  then have "dialogue (Suc (Suc n)) lk \<lparr> se_client = cs, se_server = ss, se_up = [(D, ctl)], se_down = [] \<rparr> =
      dialogue n lk \<lparr> se_client = cs', se_server = s1, se_up = [], se_down = [] \<rparr>"
    using S(1) by (simp only: dialogue_up [OF _ F] dialogue_down [OF C(1,2)])
  moreover have "client_ready (connected_port d (string_of_bytes (connected_Name ?k)) p) k d (refreshed d qt) (refreshed d qr)"
    by (rule client_ready_connected [OF cl(4,3)]) simp
  moreover have "peer_queue ?sp (refreshed d (srv_rx lk qt)) k 0 (length d)"
    "peer_queue ?sp (refreshed d (srv_tx lk qr)) k (ring_span k) (length d)"
    using q sv(4) by (simp_all add: peer_queue_def connected_port_def P maps_region_def region_data_def go_nth_def bytes_of_def)
  moreover have "p_rxQueues ?sp = [refreshed d (srv_rx lk qt)]" "p_txQueues ?sp = [refreshed d (srv_tx lk qr)]"
    "p_cfg (connected_port d (string_of_bytes (connected_Name ?k)) p) = p_cfg p"
    "p_run (connected_port d (string_of_bytes (connected_Name ?k)) p) = p_run p"
    "p_QuitChan (connected_port d (string_of_bytes (connected_Name ?k)) p) = p_QuitChan p"
    by (simp_all add: connected_port_def P)
  ultimately show ?thesis using C(3,4) S(3,4) by blast
qed

text \<open>The server: a port that waits for this client, system calls that succeed, an application that
  accepts the connection.\<close>

definition server_listens :: "env \<Rightarrow> socket \<Rightarrow> int \<Rightarrow> nat \<Rightarrow> port \<Rightarrow> u32 \<Rightarrow> bool" where
  "server_listens env s lfd j sp ident \<longleftrightarrow>
     sends_ok env \<and> (\<forall>tr ep fd. epoll_add env tr ep fd = None) \<and> (\<exists>nfd. accept_fd env (s_trace s) lfd = Inr nfd) \<and>
     find_peer (s_ports s) (s_portList s) ident = Some (j, sp) \<and> cfg_Secret (p_cfg sp) = replicate 24 0 \<and>
     p_regions sp = [] \<and> p_txQueues sp = [] \<and> p_rxQueues sp = [] \<and>
     0 < NumQueuePairs (cfg_MemoryConfig (p_cfg sp)) \<and> cfg_ConnectedFunc (p_cfg sp) = UserFunc \<and>
     (\<forall>tr. connectedFunc env tr j = None)"

lemma hello_msg_wf:
  "length (hello_Name (hello_msg app)) = 32" "hello_VersionMin (hello_msg app) \<le> Version" "Version \<le> hello_VersionMax (hello_msg app)"
  by (simp_all add: hello_msg_def)

text \<open>The accept event and the greeting: the client has set up its memory and introduces itself.\<close>

lemma session_greets:
  assumes cl: "client_waits lk cs p" and sv: "server_listens (lk_senv lk) ss0 lfd j sp (cfg_Id (p_cfg p))"
    and lk: "lk_schan lk = s_next ss0"
    and cfg: "one_pair (hello_run (cfg_MemoryConfig (p_cfg p)) (hello_msg (s_appName ss0))) k"
  shows "\<exists>ss c1 k1 p2 d r f1 f2 qt qr e1 t1.
    listener_handleEvent (lk_senv lk) lfd EPOLLIN ss0 = Some (None, ss) \<and>
    server_waits (lk_senv lk) ss (lk_schan lk) j sp (cfg_Id (p_cfg p)) \<and>
    dialogue (Suc n) lk \<lparr> se_client = cs, se_server = ss, se_up = [], se_down = sent ss0 ss \<rparr> =
      dialogue n lk \<lparr> se_client = c1, se_server = ss, se_up = [(frame_bytes e1 t1 (put_le 2 msgTypeInit @
        enc_Init (init_msg (s_appName cs) (cfg_Id (p_cfg p)))), [])], se_down = [] \<rparr> \<and>
    view c1 (lk_cchan lk) k1 (lk_port lk) p2 \<and> buffers_ok k1 \<and> cc_msgQueue k1 = tl (client_msgs (s_appName cs) (p_cfg p) r qt qr) \<and>
    p_cfg p2 = p_cfg p \<and> p_run p2 = hello_run (cfg_MemoryConfig (p_cfg p)) (hello_msg (s_appName ss0)) \<and>
    p_regions p2 = [r\<lparr>mr_data := Some d\<rparr>] \<and> qt = new_queue (p_run p2) ringTypeS2M f1 \<and> qr = new_queue (p_run p2) ringTypeM2S f2 \<and>
    client_ready p2 k d qt qr \<and> sint (mr_size r) = int (length d) \<and> fd_ok (mr_fd r) \<and> fd_ok f1 \<and> fd_ok f2 \<and> p_QuitChan p2 = p_QuitChan p"
proof -
  let ?h = "hello_msg (s_appName ss0)"
  obtain cc where C: "setup_ok (lk_cenv lk)" "view cs (lk_cchan lk) cc (lk_port lk) p" "idle cc"
    "p_regions p = []" "p_txQueues p = []" "p_rxQueues p = []"
    using cl by (auto simp: client_waits_def)
  obtain nfd where S: "accept_fd (lk_senv lk) (s_trace ss0) lfd = Inr nfd" "\<And>tr ep fd. epoll_add (lk_senv lk) tr ep fd = None"
    "sends_ok (lk_senv lk)" using sv by (auto simp: server_listens_def)
  obtain ss sc e t where A: "listener_handleEvent (lk_senv lk) lfd EPOLLIN ss0 = Some (None, ss)" "s_ccs ss (s_next ss0) = Some sc"
    "idle sc" "s_ports ss = s_ports ss0" "s_portList ss = s_portList ss0"
    "sent ss0 ss = [(frame_bytes e t (put_le 2 msgTypeHello @ enc_Hello ?h), [])]"
    using accept_greets [OF S] by blast
  have w: "server_waits (lk_senv lk) ss (lk_schan lk) j sp (cfg_Id (p_cfg p))"
    using sv A(2-5) lk by (simp add: server_waits_def server_listens_def)
  obtain c1 k1 p2 d r f1 f2 qt qr e1 t1 where H:
    "receive (lk_cenv lk) (lk_cchan lk) (frame_bytes e t (put_le 2 msgTypeHello @ enc_Hello ?h), lk_pass lk []) cs = Some (None, c1)"
    "view c1 (lk_cchan lk) k1 (lk_port lk) p2" "buffers_ok k1" "cc_msgQueue k1 = tl (client_msgs (s_appName cs) (p_cfg p) r qt qr)"
    "sent cs c1 = [(frame_bytes e1 t1 (put_le 2 msgTypeInit @ enc_Init (init_msg (s_appName cs) (cfg_Id (p_cfg p)))), [])]"
    "p_cfg p2 = p_cfg p" "p_run p2 = hello_run (cfg_MemoryConfig (p_cfg p)) ?h" "p_regions p2 = [r\<lparr>mr_data := Some d\<rparr>]"
    "qt = new_queue (p_run p2) ringTypeS2M f1" "qr = new_queue (p_run p2) ringTypeM2S f2" "client_ready p2 k d qt qr"
    "sint (mr_size r) = int (length d)" "fd_ok (mr_fd r)" "fd_ok f1" "fd_ok f2" "p_QuitChan p2 = p_QuitChan p"
    using recv_Hello [OF C(1-3) refl hello_msg_wf C(4-6) cfg, where ctl = "lk_pass lk []", of e t]
    by (elim exE conjE) (rule that; assumption)
  have "dialogue (Suc n) lk \<lparr> se_client = cs, se_server = ss, se_up = [], se_down = sent ss0 ss \<rparr> =
      dialogue n lk \<lparr> se_client = c1, se_server = ss, se_up = sent cs c1, se_down = [] \<rparr>"
    unfolding A(6) by (rule dialogue_down [OF H(1) refl])
  note start = this [unfolded H(5)]
  show ?thesis
    by (rule exI [of _ ss], rule exI [of _ c1], rule exI [of _ k1], rule exI [of _ p2], rule exI [of _ d], rule exI [of _ r],
        rule exI [of _ f1], rule exI [of _ f2], rule exI [of _ qt], rule exI [of _ qr], rule exI [of _ e1], rule exI [of _ t1])
      (use A(1) w start H(2-4,6-16) in \<open>simp del: dialogue.simps\<close>)
qed

lemma session_completes:
  assumes cl: "client_waits lk cs p" and sv: "server_listens (lk_senv lk) ss0 lfd j sp (cfg_Id (p_cfg p))"
    and lk: "passes_fds lk" "lk_schan lk = s_next ss0"
    and cfg: "one_pair (hello_run (cfg_MemoryConfig (p_cfg p)) (hello_msg (s_appName ss0))) k"
  shows "\<exists>ss cs' cc' p' ss' sc' sp' d qt qr sqr sqt.
    listener_handleEvent (lk_senv lk) lfd EPOLLIN ss0 = Some (None, ss) \<and>
    dialogue 11 lk \<lparr> se_client = cs, se_server = ss, se_up = [], se_down = sent ss0 ss \<rparr> =
      Some \<lparr> se_client = cs', se_server = ss', se_up = [], se_down = [] \<rparr> \<and>
    view cs' (lk_cchan lk) cc' (lk_port lk) p' \<and> cc_isConnected cc' \<and> view ss' (lk_schan lk) sc' j sp' \<and> cc_isConnected sc' \<and>
    p_cfg p' = p_cfg p \<and> p_run p' = hello_run (cfg_MemoryConfig (p_cfg p)) (hello_msg (s_appName ss0)) \<and>
    p_QuitChan p' = p_QuitChan p \<and> client_ready p' k d qt qr \<and> p_rxQueues sp' = [sqr] \<and> p_txQueues sp' = [sqt] \<and>
    peer_queue sp' sqr k 0 (length d) \<and> peer_queue sp' sqt k (ring_span k) (length d)"
proof -
  have C: "setup_ok (lk_cenv lk)" "cfg_ConnectedFunc (p_cfg p) = UserFunc" "\<And>tr. connectedFunc (lk_cenv lk) tr (lk_port lk) = None"
    using cl by (auto simp: client_waits_def)
  have S: "sends_ok (lk_senv lk)" "cfg_ConnectedFunc (p_cfg sp) = UserFunc" "\<And>tr. connectedFunc (lk_senv lk) tr j = None"
    "cfg_IsServer (p_cfg sp)"
    using sv find_peer_ports by (fastforce simp: server_listens_def)+
  obtain ss c1 k1 p2 d r f1 f2 qt qr e1 t1 where H: "listener_handleEvent (lk_senv lk) lfd EPOLLIN ss0 = Some (None, ss)"
    "server_waits (lk_senv lk) ss (lk_schan lk) j sp (cfg_Id (p_cfg p))"
    "dialogue (Suc (8 + 2)) lk \<lparr> se_client = cs, se_server = ss, se_up = [], se_down = sent ss0 ss \<rparr> =
      dialogue (8 + 2) lk \<lparr> se_client = c1, se_server = ss, se_up = [(frame_bytes e1 t1 (put_le 2 msgTypeInit @
        enc_Init (init_msg (s_appName cs) (cfg_Id (p_cfg p)))), [])], se_down = [] \<rparr>"
    "view c1 (lk_cchan lk) k1 (lk_port lk) p2" "buffers_ok k1" "cc_msgQueue k1 = tl (client_msgs (s_appName cs) (p_cfg p) r qt qr)"
    "p_cfg p2 = p_cfg p" "p_run p2 = hello_run (cfg_MemoryConfig (p_cfg p)) (hello_msg (s_appName ss0))"
    "p_regions p2 = [r\<lparr>mr_data := Some d\<rparr>]" "qt = new_queue (p_run p2) ringTypeS2M f1" "qr = new_queue (p_run p2) ringTypeM2S f2"
    "client_ready p2 k d qt qr" "fd_ok (mr_fd r)" "fd_ok f1" "fd_ok f2" "p_QuitChan p2 = p_QuitChan p"
    "sint (mr_size r) = int (length d)"
    using session_greets [OF cl sv lk(2) cfg, of "8 + 2"] by (elim exE conjE) (rule that; assumption)
  have fq: "fd_ok (q_interruptFd qt)" "fd_ok (q_interruptFd qr)" using H(10,11,14,15) by (simp_all add: new_queue_def)
  have sends: "sends_ok (lk_cenv lk)" and cb: "cfg_ConnectedFunc (p_cfg p2) = UserFunc" using C H(7) by (simp_all add: setup_ok_def)
  obtain c2 k2 s2 n2 nm e2 t2 where X: "dialogue (8 + 2) lk \<lparr> se_client = c1, se_server = ss, se_up = [(frame_bytes e1 t1 (put_le 2 msgTypeInit @
        enc_Init (init_msg (s_appName cs) (cfg_Id (p_cfg p)))), [])], se_down = [] \<rparr> =
      dialogue 2 lk \<lparr> se_client = c2, se_server = s2,
        se_up = [(frame_bytes e2 t2 (cm_Buffer (connect_request (p_cfg p))), control_of (connect_request (p_cfg p)))], se_down = [] \<rparr>"
    "view c2 (lk_cchan lk) k2 (lk_port lk) p2" "idle k2" "idle n2"
    "view s2 (lk_schan lk) n2 j (announced (lk_schan lk) nm (mr_size r) (lk_dup lk (mr_fd r)) (srv_rx lk qt) (srv_tx lk qr) sp)"
    using session_announces [OF H(2) lk(1) sends H(4-6) H(13) fq refl] by blast
  have n: "Suc (8 + 2) = 11" by simp
  have two: "dialogue 2 lk x = dialogue (Suc (Suc 0)) lk x" for x by (simp only: numeral_2_eq_2)
  note start = H(3) [unfolded X(1) n two]
  note conf = session_confirms [OF cfg [folded H(8)] H(10,11) X(2,3) H(9,12,17) cb C(3) X(5,4) S(1,4,2,3) refl, where n = 0,
      unfolded dialogue.simps(1), where cfg = "p_cfg p" and ?e0.0 = e2 and ?t0.0 = t2 and ctl = "control_of (connect_request (p_cfg p))",
      folded start, unfolded H(7,8,16)]
  show ?thesis by (rule exI [of _ ss]) (use H(1) conf in blast)
qed

section \<open>Where the client comes from\<close>

text \<open>A successful \<open>RequestConnection\<close> binds the port to a new idle channel and changes nothing else of it;
  \<open>NewPort\<close> does so for a fresh client port.\<close>

lemma RequestConnection_binds:
  assumes "RequestConnection env i s = Some (None, s')" and "s_ports s i = Some p" and "\<not> cfg_IsServer (p_cfg p)"
  shows "\<exists>c cc. view s' c cc i (p\<lparr>p_cc := Some c\<rparr>) \<and> idle cc"
proof -
  obtain fd where "socket_create env (s_trace s) = Inr fd"
    using assms by (cases "socket_create env (s_trace s)") (auto simp: RequestConnection_def)
  then show ?thesis
    using assms
    by (auto simp: RequestConnection_def Let_def sys_step_def and_then_def addControlChannel_def addEvent_def wrap_err_def
        view_def new_cc_def idle_def bind_eq_Some_conv split: option.splits)
qed

lemma NewPort_client:
  assumes "\<not> cfg_IsServer cfg" and "NewPort env cfg s = Some (Inr i, s')"
  shows "\<exists>c cc. view s' c cc i ((new_port cfg)\<lparr>p_cc := Some c\<rparr>) \<and> idle cc"
proof -
  let ?s1 = "add_port cfg s" and ?p = "new_port cfg"
  have e: "socket_NewPort env cfg s = Some (Inr (s_next s), ?s1)" and i: "i = s_next s"
    using assms by (auto simp: NewPort_def socket_NewPort_def bind_eq_Some_conv Let_def split: if_splits sum.splits option.splits)
  have p: "s_ports ?s1 i = Some ?p" "\<not> cfg_IsServer (p_cfg ?p)" "\<not> IsConnecting ?p"
    using assms(1) by (simp_all add: add_port_def i new_port_def default_cfg_def IsConnecting_def)
  have "\<not> IsServer ?p" using p(2) by (simp add: IsServer_def)
  then have "connect_loop env i ?s1 = Some (None, s')"
    using assms(2) e p(1) i by (auto simp: NewPort_def bind_eq_Some_conv split: option.splits)
  then have "RequestConnection env i ?s1 = Some (None, s')"
    using connect_loop_unfold [OF p(1,2), of env] p(3) by (auto simp: wrap_err_def bind_eq_Some_conv)
  then show ?thesis by (rule RequestConnection_binds [OF _ p(1,2)])
qed

lemma NewPort_waits:
  assumes "NewPort (lk_cenv lk) cfg cs0 = Some (Inr (lk_port lk), cs)" "\<not> cfg_IsServer cfg"
    and "map_option p_cc (s_ports cs (lk_port lk)) = Some (Some (lk_cchan lk))"
    and "cfg_ConnectedFunc cfg = UserFunc" "\<forall>tr. connectedFunc (lk_cenv lk) tr (lk_port lk) = None" "setup_ok (lk_cenv lk)"
  shows "client_waits lk cs ((new_port cfg)\<lparr>p_cc := Some (lk_cchan lk)\<rparr>)"
proof -
  obtain c cc where "view cs c cc (lk_port lk) ((new_port cfg)\<lparr>p_cc := Some c\<rparr>)" "idle cc"
    using NewPort_client [OF assms(2,1)] by blast
  with assms(3) have "view cs (lk_cchan lk) cc (lk_port lk) ((new_port cfg)\<lparr>p_cc := Some (lk_cchan lk)\<rparr>)" "idle cc"
    by (auto simp: view_def)
  with assms show ?thesis by (auto simp: client_waits_def new_port_def default_cfg_def)
qed

text \<open>From the creation of the client port to a connection.\<close>

lemma session_from_NewPort:
  assumes new: "NewPort (lk_cenv lk) cfg cs0 = Some (Inr (lk_port lk), cs)" "\<not> cfg_IsServer cfg"
      "map_option p_cc (s_ports cs (lk_port lk)) = Some (Some (lk_cchan lk))"
    and app: "cfg_ConnectedFunc cfg = UserFunc" "\<forall>tr. connectedFunc (lk_cenv lk) tr (lk_port lk) = None"
    and os: "setup_ok (lk_cenv lk)" "passes_fds lk" "lk_schan lk = s_next ss0"
    and srv: "server_listens (lk_senv lk) ss0 lfd j sp (cfg_Id cfg)"
    and run: "run = hello_run (default_memory (cfg_MemoryConfig cfg)) (hello_msg (s_appName ss0))" "one_pair run k"
  obtains ss cs' cc' p' ss' sc' sp' d qt qr sqr sqt where
    "listener_handleEvent (lk_senv lk) lfd EPOLLIN ss0 = Some (None, ss)"
    "dialogue 11 lk \<lparr> se_client = cs, se_server = ss, se_up = [], se_down = sent ss0 ss \<rparr> =
      Some \<lparr> se_client = cs', se_server = ss', se_up = [], se_down = [] \<rparr>"
    "view cs' (lk_cchan lk) cc' (lk_port lk) p'" "cc_isConnected cc'" "view ss' (lk_schan lk) sc' j sp'" "cc_isConnected sc'"
    "p_cfg p' = default_cfg cfg" "p_run p' = run" "\<not> p_QuitChan p'" "client_ready p' k d qt qr"
    "p_rxQueues sp' = [sqr]" "p_txQueues sp' = [sqt]"
    "peer_queue sp' sqr k 0 (length d)" "peer_queue sp' sqt k (ring_span k) (length d)"
proof -
  let ?p = "(new_port cfg)\<lparr>p_cc := Some (lk_cchan lk)\<rparr>"
  have p: "p_cfg ?p = default_cfg cfg" "cfg_Id (default_cfg cfg) = cfg_Id cfg" "p_QuitChan ?p = False"
    "cfg_MemoryConfig (default_cfg cfg) = default_memory (cfg_MemoryConfig cfg)"
    by (simp_all add: new_port_def default_cfg_def)
  have sv: "server_listens (lk_senv lk) ss0 lfd j sp (cfg_Id (p_cfg ?p))" using srv p by (simp only:)
  have cfg: "one_pair (hello_run (cfg_MemoryConfig (p_cfg ?p)) (hello_msg (s_appName ss0))) k"
    using run p(1,4) by (simp only:)
  from session_completes [OF NewPort_waits [OF new app os(1)] sv os(2,3) cfg] show thesis
    unfolding p run(1) [symmetric] by (elim exE conjE) (rule that; simp)
qed

section \<open>A port after its connection has ended\<close>

text \<open>Ids are unique, so the search for a waiting port finds the only one with the id.\<close>

lemma find_peer_unique:
  assumes "inj_on (role_of s) (set is)" and "j \<in> set is" and "s_ports s j = Some p"
    and "cfg_Id (p_cfg p) = ident" and "cfg_IsServer (p_cfg p)" and "p_cc p = None"
  shows "find_peer (s_ports s) is ident = Some (j, p)"
  using assms(1,2)
proof (induction "is")
  case (Cons i "is")
  have r: "role_of s j = Some (ident, True)" using assms(3-5) by (simp add: role_of_def)
  show ?case
  proof (cases "i = j")
    case True
    then show ?thesis using assms(3-6) by simp
  next
    case False
    then have "role_of s i \<noteq> Some (ident, True)" using Cons.prems r by (auto simp: inj_on_def)
    then show ?thesis using Cons False by (auto simp: role_of_def inj_on_def split: option.splits)
  qed
qed simp

lemma port_disconnect_portList: "port_disconnect env i s = Some (err, s') \<Longrightarrow> s_portList s' = s_portList s"
  by (auto simp: port_disconnect_def call_DisconnectedFunc_def defaultDisconnectedFunc_def wrap_err_Some bind_eq_Some_conv Let_def
      elim!: and_then_SomeE split: if_splits callback.splits prod.splits option.split_asm)

lemma server_listens_again:
  assumes ok: "sock_ok s" and j: "j \<in> set (s_portList s)" "s_ports s j = Some sp" "p_cc sp \<noteq> None"
    and cfg: "cfg_IsServer (p_cfg sp)" "cfg_Secret (p_cfg sp) = replicate 24 0" "0 < NumQueuePairs (cfg_MemoryConfig (p_cfg sp))"
      "cfg_ConnectedFunc (p_cfg sp) = UserFunc"
    and dis: "port_disconnect env j s = Some (None, s')"
    and os: "sends_ok env'" "\<forall>tr ep fd. epoll_add env' tr ep fd = None" "\<exists>nfd. accept_fd env' (s_trace s') lfd = Inr nfd"
      "\<forall>tr. connectedFunc env' tr j = None"
  shows "\<exists>sp'. p_cfg sp' = p_cfg sp \<and> server_listens env' s' lfd j sp' (cfg_Id (p_cfg sp))"
proof -
  have k: "sock_ok s'" "keeps s s'" using safeD [OF safe_port_disconnect ok, of env j] dis by simp_all
  obtain sp' where c: "s_ports s' j = Some sp'" "p_regions sp' = []" "p_txQueues sp' = []" "p_rxQueues sp' = []" "p_cc sp' = None"
    using port_disconnect_clears [OF j(2,3) dis] by blast
  have p: "p_cfg sp' = p_cfg sp" using keeps_port [OF k(2) j(2)] c(1) by auto
  have "j \<in> set (s_portList s')" using j(1) port_disconnect_portList [OF dis] by simp
  then have "find_peer (s_ports s') (s_portList s') (cfg_Id (p_cfg sp)) = Some (j, sp')"
    using k(1) c(1,5) cfg(1) p by (intro find_peer_unique) (simp_all add: sock_ok_def)
  then show ?thesis using os cfg c p by (auto simp: server_listens_def)
qed

text \<open>A client port whose connection has ended is as good as new: it can request the next one.\<close>

lemma client_waits_again:
  assumes ok: "sock_ok s" and p: "s_ports s (lk_port lk) = Some p" "p_cc p \<noteq> None" "\<not> cfg_IsServer (p_cfg p)"
      "cfg_ConnectedFunc (p_cfg p) = UserFunc"
    and dis: "port_disconnect env (lk_port lk) s = Some (None, s1)"
    and req: "RequestConnection env' (lk_port lk) s1 = Some (None, cs)"
      "map_option p_cc (s_ports cs (lk_port lk)) = Some (Some (lk_cchan lk))"
    and os: "setup_ok (lk_cenv lk)" "\<forall>tr. connectedFunc (lk_cenv lk) tr (lk_port lk) = None"
  shows "\<exists>p1. p_cfg p1 = p_cfg p \<and> client_waits lk cs p1"
proof -
  have k: "keeps s s1" using safeD [OF safe_port_disconnect ok, of env "lk_port lk"] dis by simp
  obtain p1 where c: "s_ports s1 (lk_port lk) = Some p1" "p_regions p1 = []" "p_txQueues p1 = []" "p_rxQueues p1 = []"
    using port_disconnect_clears [OF p(1,2) dis] by blast
  have cfg: "p_cfg p1 = p_cfg p" using keeps_port [OF k p(1)] c(1) by auto
  obtain cc where "view cs (lk_cchan lk) cc (lk_port lk) (p1\<lparr>p_cc := Some (lk_cchan lk)\<rparr>)" "idle cc"
    using RequestConnection_binds [OF req(1) c(1)] p(3) cfg req(2) by (auto simp: view_def)
  then have "client_waits lk cs (p1\<lparr>p_cc := Some (lk_cchan lk)\<rparr>)" using os p(3,4) c cfg by (auto simp: client_waits_def)
  then show ?thesis using cfg by (intro exI [of _ "p1\<lparr>p_cc := Some (lk_cchan lk)\<rparr>"]) simp
qed

end
