(* ===== verification/Chain.thy ===== *)
theory Chain
  imports Packet
begin

text \<open>
  Packets in several buffers (\<^verbatim>\<open>src/packet_processing.go\<close>, \<open>ReadPacket\<close>): a peer may split a packet
  over the buffers of consecutive slots, each but the last with the flag \<open>descFlagNext\<close>. The lemmas
  give the result of a read for chains of any length, for both roles, and for chains that do not end
  within the available slots.
\<close>

section \<open>Chains of descriptors\<close>

text \<open>\<open>chained cont d off k reg f h segs\<close>: after a descriptor with flags \<open>f\<close>, the slots from \<open>h\<close> on hold
  the segments \<open>segs\<close> (offset and length) of the same packet; the last one announces a continuation
  exactly if \<open>cont\<close>.\<close>

fun chained :: "bool \<Rightarrow> byte list \<Rightarrow> nat \<Rightarrow> nat \<Rightarrow> int \<Rightarrow> int \<Rightarrow> nat \<Rightarrow> (nat \<times> nat) list \<Rightarrow> bool" where
  "chained cont d off k reg f h [] \<longleftrightarrow> (f AND descFlagNext = descFlagNext) = cont"
| "chained cont d off k reg f h ((b, l) # segs) \<longleftrightarrow>
     f AND descFlagNext = descFlagNext \<and> b + l \<le> length d \<and>
     (\<exists>f'. desc_is (desc_of d off (h mod 2 ^ k)) f' reg (int l) (int b) \<and> chained cont d off k reg f' (Suc h) segs)"

definition payload :: "byte list \<Rightarrow> (nat \<times> nat) list \<Rightarrow> byte list" where
  "payload d segs = concat (map (\<lambda>(b, l). window d b l) segs)"

text \<open>The packet whose first segment is in slot \<open>h\<close>.\<close>

fun packet_at :: "bool \<Rightarrow> byte list \<Rightarrow> nat \<Rightarrow> nat \<Rightarrow> int \<Rightarrow> nat \<Rightarrow> (nat \<times> nat) list \<Rightarrow> bool" where
  "packet_at cont d off k reg h [] \<longleftrightarrow> False"
| "packet_at cont d off k reg h ((b, l) # segs) \<longleftrightarrow> b + l \<le> length d \<and>
     (\<exists>f. desc_is (desc_of d off (h mod 2 ^ k)) f reg (int l) (int b) \<and> chained cont d off k reg f (Suc h) segs)"

lemma payload_simps [simp]: "payload d [] = []" "payload d ((b, l) # segs) = window d b l @ payload d segs"
  by (simp_all add: payload_def)

lemma overlay_append:
  assumes "m + length x + length y \<le> length b"
  shows "overlay (overlay b m x) (m + length x) y = overlay b m (x @ y)"
proof (cases "x = [] \<and> y = []")
  case False
  then have "m < length b" using assms by (cases x; cases y) simp_all
  then show ?thesis using assms by (simp add: overlay_def min_def ac_simps)
qed simp

section \<open>The loop of ReadPacket\<close>

lemma int_slot: "ring_at p q k off d \<Longrightarrow> int h AND (ring_size (q_ring q) - 1) = int (h mod 2 ^ k)"
  by (simp add: ring_atD(2) and_low_mask zmod_int)

text \<open>One iteration.\<close>

lemma read_chain_step:
  assumes ra: "ring_at p q k off d" and db: "desc_is db f rg l0 b0" "f AND descFlagNext = descFlagNext"
    and nxt: "desc_is (desc_of d off (h mod 2 ^ k)) f' (ring_region (q_ring q)) (int l) (int b)"
    and fits: "b + l \<le> length d" "m + l \<le> length pkt"
  shows "read_chain (Suc n) p q (ring_size (q_ring q) - 1) (int h) db pkt (int m) =
    read_chain n p q (ring_size (q_ring q) - 1) (int (Suc h)) (desc_of d off (h mod 2 ^ k))
      (overlay pkt m (window d b l)) (int (m + l))"
proof -
  have "length db = descSize" using desc_isD(1) [OF db(1)] by simp
  from getDescBuf_at [OF ra _ this, of "h mod 2 ^ k"]
  have "getDescBuf p q (int (h mod 2 ^ k)) db = Some (desc_of d off (h mod 2 ^ k))" by simp
  then show ?thesis
    using read_segment_at [OF nxt ring_atD(1) [OF ra] refl fits] db(2)
    by (simp add: desc_isD [OF db(1)] int_slot [OF ra] add.commute)
qed

lemma read_chain_at:
  assumes "ring_at p q k off d" and "desc_is db f rg l0 b0"
    and "chained False d off k (ring_region (q_ring q)) f h segs" and "length segs \<le> n"
    and "m + length (payload d segs) \<le> length pkt"
  shows "read_chain n p q (ring_size (q_ring q) - 1) (int h) db pkt (int m) =
    Some (None, int (h + length segs), overlay pkt m (payload d segs), int (m + length (payload d segs)))"
  using assms(2-)
proof (induction segs arbitrary: n h db f rg l0 b0 pkt m)
  case Nil
  then show ?case by (cases n) (simp_all add: desc_isD [OF Nil.prems(1)] overlay_def)
next
  case (Cons seg segs)
  obtain b l where seg: "seg = (b, l)" by (cases seg)
  from Cons.prems(2) obtain f' where c: "f AND descFlagNext = descFlagNext" "b + l \<le> length d"
    "desc_is (desc_of d off (h mod 2 ^ k)) f' (ring_region (q_ring q)) (int l) (int b)"
    "chained False d off k (ring_region (q_ring q)) f' (Suc h) segs"
    by (auto simp: seg)
  obtain n' where n: "n = Suc n'" "length segs \<le> n'" using Cons.prems(3) by (cases n) simp_all
  have w: "length (window d b l) = l" using c(2) by simp
  have room: "m + l \<le> length pkt" "m + l + length (payload d segs) \<le> length (overlay pkt m (window d b l))"
    using Cons.prems(4) w by (simp_all add: seg overlay_def)
  have "overlay (overlay pkt m (window d b l)) (m + l) (payload d segs) = overlay pkt m (payload d (seg # segs))"
    using overlay_append [of m "window d b l" "payload d segs" pkt] Cons.prems(4) w by (simp add: seg)
  then show ?case
    using Cons.IH [OF c(3,4) n(2) room(2)] read_chain_step [OF assms(1) Cons.prems(1) c(1,3,2) room(1), of n'] w
    by (simp add: n(1) seg del: read_chain.simps)
qed

lemma read_chain_broken:
  assumes "ring_at p q k off d" and "desc_is db f rg l0 b0"
    and "chained True d off k (ring_region (q_ring q)) f h segs" and "m + length (payload d segs) \<le> length pkt"
  shows "\<exists>slot pkt' m'. read_chain (length segs) p q (ring_size (q_ring q) - 1) (int h) db pkt (int m) =
    Some (Some ''incomplete chained buffer, may suggest peer error'', slot, pkt', m')"
  using assms(2-)
proof (induction segs arbitrary: h db f rg l0 b0 pkt m)
  case Nil
  then show ?case by (simp add: desc_isD [OF Nil.prems(1)])
next
  case (Cons seg segs)
  obtain b l where seg: "seg = (b, l)" by (cases seg)
  from Cons.prems(2) obtain f' where c: "f AND descFlagNext = descFlagNext" "b + l \<le> length d"
    "desc_is (desc_of d off (h mod 2 ^ k)) f' (ring_region (q_ring q)) (int l) (int b)"
    "chained True d off k (ring_region (q_ring q)) f' (Suc h) segs"
    by (auto simp: seg)
  have w: "length (window d b l) = l" using c(2) by simp
  have room: "m + l \<le> length pkt" "m + l + length (payload d segs) \<le> length (overlay pkt m (window d b l))"
    using Cons.prems(3) w by (simp_all add: seg overlay_def)
  show ?case
    using Cons.IH [OF c(3,4) room(2)] read_chain_step [OF assms(1) Cons.prems(1) c(1,3,2) room(1), of "length segs"]
    by (simp del: read_chain.simps)
qed

section \<open>ReadPacket\<close>

text \<open>The part of \<open>ReadPacket\<close> between the slot count and the refill, the same for both roles.\<close>

lemma read_first:
  fixes lo :: u16
  assumes ra: "ring_at p q k off d" and pk: "packet_at cont d off k (ring_region (q_ring q)) (unat lo) ((b, l) # segs)"
    and room: "length (payload d ((b, l) # segs)) \<le> length pkt"
  shows "\<exists>f. desc_is (desc_of d off (unat lo mod 2 ^ k)) f (ring_region (q_ring q)) (int l) (int b) \<and>
    chained cont d off k (ring_region (q_ring q)) f (Suc (unat lo)) segs \<and>
    getDescBuf p q (uint lo AND (ring_size (q_ring q) - 1)) newDescBuf = Some (desc_of d off (unat lo mod 2 ^ k)) \<and>
    read_segment p (desc_of d off (unat lo mod 2 ^ k)) pkt 0 = Some (overlay pkt 0 (window d b l), int l)"
proof -
  from pk obtain f where f: "b + l \<le> length d" "desc_is (desc_of d off (unat lo mod 2 ^ k)) f (ring_region (q_ring q)) (int l) (int b)"
    "chained cont d off k (ring_region (q_ring q)) f (Suc (unat lo)) segs" by auto
  have "read_segment p (desc_of d off (unat lo mod 2 ^ k)) pkt (int 0) = Some (overlay pkt 0 (window d b l), int (0 + l))"
    using room f(1) by (intro read_segment_at [OF f(2) ring_atD(1) [OF ra] refl f(1)]) simp
  moreover have "getDescBuf p q (int (unat lo mod 2 ^ k)) newDescBuf = Some (desc_of d off (unat lo mod 2 ^ k))"
    by (rule getDescBuf_at [OF ra _ length_newDescBuf]) simp
  ultimately show ?thesis using f(2,3) slot_mask [OF ra, of lo] by auto
qed

lemma read_body_chain:
  fixes lo :: u16
  assumes ra: "ring_at p q k off d" and pk: "packet_at False d off k (ring_region (q_ring q)) (unat lo) segs"
    and n: "length segs \<le> n" and room: "length (payload d segs) \<le> length pkt"
  obtains desc pkt1 off1 where "getDescBuf p q (uint lo AND (ring_size (q_ring q) - 1)) newDescBuf = Some desc"
    "read_segment p desc pkt 0 = Some (pkt1, off1)"
    "read_chain (n - 1) p q (ring_size (q_ring q) - 1) (uint lo + 1) desc pkt1 off1 =
    Some (None, uint lo + int (length segs), overlay pkt 0 (payload d segs), int (length (payload d segs)))"
proof -
  obtain b l rest where segs: "segs = (b, l) # rest" using pk by (cases segs) auto
  obtain f where F: "desc_is (desc_of d off (unat lo mod 2 ^ k)) f (ring_region (q_ring q)) (int l) (int b)"
    "chained False d off k (ring_region (q_ring q)) f (Suc (unat lo)) rest"
    "getDescBuf p q (uint lo AND (ring_size (q_ring q) - 1)) newDescBuf = Some (desc_of d off (unat lo mod 2 ^ k))"
    "read_segment p (desc_of d off (unat lo mod 2 ^ k)) pkt 0 = Some (overlay pkt 0 (window d b l), int l)"
    using read_first [OF ra pk [unfolded segs] room [unfolded segs]] by blast
  have bl: "b + l \<le> length d" using pk by (simp add: segs)
  then have w: "length (window d b l) = l" by simp
  have r: "length rest \<le> n - 1" "l + length (payload d rest) \<le> length (overlay pkt 0 (window d b l))"
    using n room w by (simp_all add: segs overlay_def)
  have "overlay (overlay pkt 0 (window d b l)) l (payload d rest) = overlay pkt 0 (payload d segs)"
    using overlay_append [of 0 "window d b l" "payload d rest" pkt] room w by (simp add: segs)
  note ov = this
  have u: "uint lo + 1 = int (Suc (unat lo))" "int (Suc (unat lo) + length rest) = uint lo + int (length segs)"
    "l + length (payload d rest) = length (payload d segs)"
    using w by (simp_all add: segs)
  show thesis by (rule that [OF F(3,4)]) (rule read_chain_at [OF ra F(1,2) r, unfolded ov u(2,3), folded u(1)])
qed

lemma ReadPacket_chain_server:
  assumes ra: "ring_at p q k off d" and sv: "cfg_IsServer (p_cfg p)"
    and pk: "packet_at False d off k (ring_region (q_ring q)) (unat (q_lastHead q)) segs"
    and av: "length segs \<le> unat (head_of d off - q_lastHead q)" and room: "length (payload d segs) \<le> length pkt"
  shows "ReadPacket p q pkt = Some (int (length (payload d segs)), None, overlay pkt 0 (payload d segs),
    q\<lparr>q_lastHead := q_lastHead q + of_nat (length segs)\<rparr>,
    put_region_data p (ring_region (q_ring q))
      (overlay d (off + ringTailOffset) (put_le 2 (q_lastHead q + of_nat (length segs)))))"
proof -
  have "segs \<noteq> []" using pk by auto
  then have "unat (head_of d off - q_lastHead q) \<noteq> 0" using av by (cases segs) simp_all
  then have nz: "head_of d off - q_lastHead q \<noteq> 0" by auto
  have w: "(word_of_int (uint (head_of d off) - uint (q_lastHead q)) :: u16) = head_of d off - q_lastHead q" by simp
  show ?thesis
    by (rule read_body_chain [OF ra pk av room]) (use sv nz in \<open>simp add: ReadPacket_def readHead_at [OF ra] w read_refill_server_at [OF ra sv] Let_def
        del: of_int_diff read_chain.simps\<close>)
qed

lemma ReadPacket_chain_client:
  assumes ra: "ring_at p q k off d" and cl: "\<not> cfg_IsServer (p_cfg p)"
    and pk: "packet_at False d off k (ring_region (q_ring q)) (unat (q_lastTail q)) segs"
    and av: "length segs \<le> unat (tail_of d off - q_lastTail q)" and room: "length (payload d segs) \<le> length pkt"
  shows "ReadPacket p q pkt = Some (int (length (payload d segs)), None, overlay pkt 0 (payload d segs),
    q\<lparr>q_lastTail := q_lastTail q + of_nat (length segs)\<rparr>,
    put_region_data p (ring_region (q_ring q))
      (refilled d off k (q_lastTail q + of_nat (length segs)) (PacketBufferSize (p_run p))))"
proof -
  have "segs \<noteq> []" using pk by auto
  then have "unat (tail_of d off - q_lastTail q) \<noteq> 0" using av by (cases segs) simp_all
  then have nz: "tail_of d off - q_lastTail q \<noteq> 0" by auto
  have w: "(word_of_int (uint (tail_of d off) - uint (q_lastTail q)) :: u16) = tail_of d off - q_lastTail q" by simp
  show ?thesis
    by (rule read_body_chain [OF ra pk av room]) (use cl nz in \<open>simp add: ReadPacket_def readTail_at [OF ra] w read_refill_client_at [OF ra cl] Let_def
        del: of_int_diff read_chain.simps\<close>)
qed

text \<open>A chain that goes on after the last available slot.\<close>

lemma ReadPacket_broken:
  assumes ra: "ring_at p q k off d"
    and lo: "lo = (if cfg_IsServer (p_cfg p) then q_lastHead q else q_lastTail q)"
    and hi: "hi = (if cfg_IsServer (p_cfg p) then head_of d off else tail_of d off)"
    and pk: "packet_at True d off k (ring_region (q_ring q)) (unat lo) segs"
    and av: "length segs = unat (hi - lo)" and room: "length (payload d segs) \<le> length pkt"
  shows "\<exists>pkt'. ReadPacket p q pkt = Some (0, Some ''incomplete chained buffer, may suggest peer error'', pkt', q, p)"
proof -
  obtain b l rest where segs: "segs = (b, l) # rest" using pk by (cases segs) auto
  obtain f where F: "desc_is (desc_of d off (unat lo mod 2 ^ k)) f (ring_region (q_ring q)) (int l) (int b)"
    "chained True d off k (ring_region (q_ring q)) f (Suc (unat lo)) rest"
    "getDescBuf p q (uint lo AND (ring_size (q_ring q) - 1)) newDescBuf = Some (desc_of d off (unat lo mod 2 ^ k))"
    "read_segment p (desc_of d off (unat lo mod 2 ^ k)) pkt 0 = Some (overlay pkt 0 (window d b l), int l)"
    using read_first [OF ra pk [unfolded segs] room [unfolded segs]] by blast
  have r: "l + length (payload d rest) \<le> length (overlay pkt 0 (window d b l))"
    using pk room by (auto simp: segs overlay_def min_def split: if_splits)
  have n: "unat (hi - lo) - 1 = length rest" "hi - lo \<noteq> 0" using av by (auto simp: segs)
  have u: "uint lo + 1 = int (Suc (unat lo))" "(word_of_int (uint hi - uint lo) :: u16) = hi - lo" by simp_all
  from read_chain_broken [OF ra F(1,2) r] obtain slot pkt' m' where
    c: "read_chain (length rest) p q (ring_size (q_ring q) - 1) (int (Suc (unat lo))) (desc_of d off (unat lo mod 2 ^ k))
      (overlay pkt 0 (window d b l)) (int l) = Some (Some ''incomplete chained buffer, may suggest peer error'', slot, pkt', m')"
    by blast
  have "(if cfg_IsServer (p_cfg p) then do { h \<leftarrow> readHead p q; Some (uint (q_lastHead q), h) }
      else do { t \<leftarrow> readTail p q; Some (uint (q_lastTail q), t) }) = Some (uint lo, uint hi)"
    by (simp add: readHead_at [OF ra] readTail_at [OF ra] lo hi)
  then show ?thesis
    using c F(3,4) n u by (simp add: ReadPacket_def Let_def del: of_int_diff read_chain.simps of_nat_Suc)
qed

end
