(* ===== verification/Duplex.thy ===== *)
theory Duplex
  imports Channel
begin

text \<open>
  Both directions of a connection in the same region. The two rings share their packet buffers (slot for
  slot), so the directions are not independent: this theory says when an operation of one direction leaves
  the other alone.
\<close>

section \<open>A connection\<close>

text \<open>The shared bytes, the client port with its transmit and receive queue, the server port with its
  receive and transmit queue.\<close>

record duplex =
  dx_mem :: "byte list"
  dx_client :: port
  dx_ctx :: queue
  dx_crx :: queue
  dx_server :: port
  dx_srx :: queue
  dx_stx :: queue
  dx_trace :: trace

definition up :: "duplex \<Rightarrow> channel" where
  "up x = \<lparr> ch_mem = dx_mem x, ch_client = dx_client x, ch_cq = dx_ctx x, ch_server = dx_server x, ch_sq = dx_srx x,
     ch_trace = dx_trace x \<rparr>"

definition down :: "duplex \<Rightarrow> channel" where
  "down x = \<lparr> ch_mem = dx_mem x, ch_client = dx_client x, ch_cq = dx_crx x, ch_server = dx_server x, ch_sq = dx_stx x,
     ch_trace = dx_trace x \<rparr>"

definition put_up :: "duplex \<Rightarrow> channel \<Rightarrow> duplex" where
  "put_up x c = x\<lparr>dx_mem := ch_mem c, dx_client := ch_client c, dx_ctx := ch_cq c, dx_server := ch_server c, dx_srx := ch_sq c,
     dx_trace := ch_trace c\<rparr>"

definition put_down :: "duplex \<Rightarrow> channel \<Rightarrow> duplex" where
  "put_down x c = x\<lparr>dx_mem := ch_mem c, dx_client := ch_client c, dx_crx := ch_cq c, dx_server := ch_server c, dx_stx := ch_sq c,
     dx_trace := ch_trace c\<rparr>"

text \<open>The other direction sees the memory, the ports and the trace that an operation leaves.\<close>

definition sync :: "channel \<Rightarrow> channel \<Rightarrow> channel" where
  "sync c2 c = c\<lparr>ch_mem := ch_mem c2, ch_client := ch_client c2, ch_server := ch_server c2, ch_trace := ch_trace c2\<rparr>"

lemma views [simp]:
  "up (put_up x c) = c" "down (put_up x c) = sync c (down x)" "down (put_down x c) = c" "up (put_down x c) = sync c (up x)"
  by (simp_all add: up_def down_def put_up_def put_down_def sync_def)

lemma view_mem [simp]: "ch_mem (up x) = dx_mem x" "ch_mem (down x) = dx_mem x" "ch_mem (sync c2 c) = ch_mem c2"
  "ch_client (up x) = dx_client x" "ch_client (down x) = dx_client x" "ch_client (sync c2 c) = ch_client c2"
  "dx_mem (put_up x c) = ch_mem c" "dx_mem (put_down x c) = ch_mem c"
  "dx_client (put_up x c) = ch_client c" "dx_client (put_down x c) = ch_client c"
  by (simp_all add: up_def down_def sync_def put_up_def put_down_def)

section \<open>What a store leaves of the other ring\<close>

lemma ring_outside:
  assumes out: "outside k off b n d d'" and g: "slots_ok k off' B bsz (length d)"
    and rings: "off' + ring_span k \<le> off \<or> off + ring_span k \<le> off'" and buf: "off' + ring_span k \<le> b \<or> b + n \<le> off'"
  shows "head_of d' off' = head_of d off'" "tail_of d' off' = tail_of d off'"
    "s < 2 ^ k \<Longrightarrow> desc_of d' off' s = desc_of d off' s"
proof -
  have w: "window d' i m = window d i m" if "off' \<le> i" "i + m \<le> off' + ring_span k" for i m
    using out rings buf that unfolding outside_def by (meson le_trans order_trans add_leD1)
  show "head_of d' off' = head_of d off'" "tail_of d' off' = tail_of d off'"
    by (simp_all add: head_of_def tail_of_def w ring_span_def)
  show "desc_of d' off' s = desc_of d off' s" if "s < 2 ^ k"
    using slot_bound [OF that, of off'] by (simp add: desc_of_def) (intro w, simp_all add: desc_base_def)
qed

lemma buffer_outside:
  assumes out: "outside k off b n d d'" and g: "slots_ok k off B bsz (length d)"
    and s: "s < 2 ^ k" "B s + bsz \<le> b \<or> b + n \<le> B s"
  shows "window d' (B s) bsz = window d (B s) bsz"
  using out slots_okD(6) [OF g s(1)] s(2) by (simp add: outside_def)

definition apart :: "nat \<Rightarrow> nat \<Rightarrow> nat \<Rightarrow> bool" where
  "apart k off off' \<longleftrightarrow> off' + ring_span k \<le> off \<or> off + ring_span k \<le> off'"

lemma sync_wired:
  assumes w: "wired k off' B bsz c" and w2: "wired k off B bsz c2" and out: "outside k off b n (ch_mem c) (ch_mem c2)"
    and rings: "apart k off off'" and buf: "off' + ring_span k \<le> b \<or> b + n \<le> off'"
  shows "wired k off' B bsz (sync c2 c)"
proof -
  have len: "length (ch_mem c2) = length (ch_mem c)" using out by (simp add: outside_def)
  note W = wiredD [OF w]
  have "slots_point k off' B (ch_mem c2)"
    using W(9) ring_outside(3) [OF out W(8) rings [unfolded apart_def] buf] by (simp add: slots_point_def slot_points_def)
  then show ?thesis using w w2 len by (simp add: wired_def sync_def)
qed

lemma sync_s2m:
  assumes inv: "s2m_inv k off' B bsz c" and w2: "wired k off B bsz c2" and out: "outside k off b n (ch_mem c) (ch_mem c2)"
    and rings: "apart k off off'" and buf: "off' + ring_span k \<le> b \<or> b + n \<le> off'"
  defines "t \<equiv> tail_of (ch_mem c) off'"
  defines "m \<equiv> unat (head_of (ch_mem c) off' - t)"
  shows "s2m_inv k off' B bsz (sync c2 c)" "tail_of (ch_mem (sync c2 c)) off' = t"
    "(\<And>i. i < m \<Longrightarrow> B (slot_idx k t i) + bsz \<le> b \<or> b + n \<le> B (slot_idx k t i)) \<Longrightarrow>
       s2m_contents k off' B (sync c2 c) = s2m_contents k off' B c"
proof -
  have w: "wired k off' B bsz c" and ok: "pend_ok k off' B bsz (ch_mem c) t m" using inv by (simp_all add: s2m_inv_def t_def m_def)
  note W = wiredD [OF w]
  have len: "length (ch_mem c2) = length (ch_mem c)" using out by (simp add: outside_def)
  have g: "slots_ok k off B bsz (length (ch_mem c))" using wiredD(8) [OF w2] len by simp
  note R = ring_outside [OF out W(8) rings [unfolded apart_def] buf]
  have "pend_ok k off' B bsz (ch_mem c2) t m" using ok by (simp add: pend_ok_def R(3))
  then show "s2m_inv k off' B bsz (sync c2 c)"
    using inv sync_wired [OF w w2 out rings buf] by (simp add: s2m_inv_def R t_def m_def sync_def)
  show "tail_of (ch_mem (sync c2 c)) off' = t" by (simp add: R t_def)
  show "s2m_contents k off' B (sync c2 c) = s2m_contents k off' B c"
    if "\<And>i. i < m \<Longrightarrow> B (slot_idx k t i) + bsz \<le> b \<or> b + n \<le> B (slot_idx k t i)"
    using pend_same(1) [OF ok, of "ch_mem c2"] that buffer_outside [OF out g slot_idx_less]
    by (simp add: s2m_contents_def R(1,2) slot_same_def R(3) flip: t_def m_def)
qed

lemma sync_m2s:
  assumes inv: "m2s_inv k off' B bsz c" and w2: "wired k off B bsz c2" and out: "outside k off b n (ch_mem c) (ch_mem c2)"
    and rings: "apart k off off'" and buf: "off' + ring_span k \<le> b \<or> b + n \<le> off'"
  defines "lo \<equiv> q_lastTail (ch_cq c)"
  defines "m \<equiv> unat (tail_of (ch_mem c) off' - lo)"
  shows "m2s_inv k off' B bsz (sync c2 c)" "tail_of (ch_mem (sync c2 c)) off' = tail_of (ch_mem c) off'"
    "m2s_credit off' (sync c2 c) = m2s_credit off' c"
    "(\<And>i. i < m \<Longrightarrow> B (slot_idx k lo i) + bsz \<le> b \<or> b + n \<le> B (slot_idx k lo i)) \<Longrightarrow>
       m2s_contents k off' B (sync c2 c) = m2s_contents k off' B c"
proof -
  have w: "wired k off' B bsz c" and sl: "m2s_slots k off' B bsz (ch_mem c) lo" using inv by (simp_all add: m2s_inv_def lo_def)
  then have ok: "pend_ok k off' B bsz (ch_mem c) lo m" by (simp add: m2s_slots_def Let_def m_def)
  note W = wiredD [OF w]
  have len: "length (ch_mem c2) = length (ch_mem c)" using out by (simp add: outside_def)
  have g: "slots_ok k off B bsz (length (ch_mem c))" using wiredD(8) [OF w2] len by simp
  note R = ring_outside [OF out W(8) rings [unfolded apart_def] buf]
  have "m2s_slots k off' B bsz (ch_mem c2) lo"
    using sl by (simp add: m2s_slots_def Let_def R pend_ok_def short_descs_def free_desc_def)
  then show "m2s_inv k off' B bsz (sync c2 c)"
    using inv sync_wired [OF w w2 out rings buf] by (simp add: m2s_inv_def sync_def lo_def)
  show "tail_of (ch_mem (sync c2 c)) off' = tail_of (ch_mem c) off'" "m2s_credit off' (sync c2 c) = m2s_credit off' c"
    by (simp_all add: R m2s_credit_def) (simp_all add: sync_def)
  show "m2s_contents k off' B (sync c2 c) = m2s_contents k off' B c"
    if free: "\<And>i. i < m \<Longrightarrow> B (slot_idx k lo i) + bsz \<le> b \<or> b + n \<le> B (slot_idx k lo i)"
  proof -
    have "slot_same off' B bsz (ch_mem c) (ch_mem c2) (slot_idx k lo i)" if "i < m" for i
      using buffer_outside [OF out g slot_idx_less free [OF that]] by (simp add: slot_same_def R(3))
    from pend_same(1) [OF ok this] show ?thesis by (simp add: m2s_contents_def R(2) sync_def lo_def m_def)
  qed
qed

section \<open>A loop through both directions\<close>

text \<open>\<open>loop_inv\<close>: both channel invariants, the client's receive ring refilled, the server at the same position
  in both rings, no more packets under way than slots, and the client's port open. Then a slot is used by one direction at a time.\<close>

definition loop_inv :: "nat \<Rightarrow> (nat \<Rightarrow> nat) \<Rightarrow> nat \<Rightarrow> duplex \<Rightarrow> bool" where
  "loop_inv k B bsz x \<longleftrightarrow> s2m_inv k 0 B bsz (up x) \<and> m2s_inv k (ring_span k) B bsz (down x) \<and>
     m2s_credit (ring_span k) (down x) = 2 ^ k \<and> tail_of (dx_mem x) (ring_span k) = tail_of (dx_mem x) 0 \<and>
     length (s2m_contents k 0 B (up x)) + length (m2s_contents k (ring_span k) B (down x)) \<le> 2 ^ k \<and>
     \<not> p_QuitChan (dx_client x)"

definition rising :: "nat \<Rightarrow> (nat \<Rightarrow> nat) \<Rightarrow> duplex \<Rightarrow> byte list list" where
  "rising k B x = s2m_contents k 0 B (up x)"

definition falling :: "nat \<Rightarrow> (nat \<Rightarrow> nat) \<Rightarrow> duplex \<Rightarrow> byte list list" where
  "falling k B x = m2s_contents k (ring_span k) B (down x)"

lemma slot_idx_shift:
  assumes "k \<le> 15"
  shows "slot_idx k hi i = slot_idx k lo (unat (hi - lo) + i)"
proof -
  have "slot_idx k lo (unat (hi - lo) + i) = (slot_idx k lo (unat (hi - lo)) + i) mod 2 ^ k"
    by (simp add: slot_idx_def mod_add_left_eq add.assoc)
  then show ?thesis unfolding slot_idx_hi [OF assms] by (simp add: slot_idx_def mod_add_left_eq)
qed

lemma loop_facts:
  assumes "loop_inv k B bsz x"
  shows "s2m_inv k 0 B bsz (up x)" "m2s_inv k (ring_span k) B bsz (down x)" "m2s_credit (ring_span k) (down x) = 2 ^ k"
    "tail_of (dx_mem x) (ring_span k) = tail_of (dx_mem x) 0" "length (rising k B x) + length (falling k B x) \<le> 2 ^ k"
    "wired k 0 B bsz (up x)" "wired k (ring_span k) B bsz (down x)" "k \<le> 15"
    "length (rising k B x) = unat (head_of (dx_mem x) 0 - tail_of (dx_mem x) 0)"
    "length (falling k B x) = unat (tail_of (dx_mem x) (ring_span k) - q_lastTail (dx_crx x))"
    "slots_ok k 0 B bsz (length (dx_mem x))" "slots_ok k (ring_span k) B bsz (length (dx_mem x))"
    "\<not> p_QuitChan (dx_client x)"
  using assms wiredD(8,12) [of k 0 B bsz "up x"] wiredD(8) [of k "ring_span k" B bsz "down x"]
  by (auto simp: loop_inv_def rising_def falling_def s2m_inv_def m2s_inv_def s2m_contents_def m2s_contents_def pend_def down_def)

lemma rings_apart: "apart k 0 (ring_span k)" "apart k (ring_span k) 0"
  by (simp_all add: apart_def)

text \<open>Buffers of two slots, counted from the client's position.\<close>

lemma other_buffer:
  assumes g: "slots_ok k off B bsz N" and ij: "i < 2 ^ k" "j < 2 ^ k" "i \<noteq> j" and n: "n \<le> bsz"
  shows "B (slot_idx k lo i) + bsz \<le> B (slot_idx k lo j) \<or> B (slot_idx k lo j) + n \<le> B (slot_idx k lo i)"
  using slots_okD(7) [OF g slot_idx_less slot_idx_less, of lo i lo j] slot_idx_inj [OF ij(1,2), of lo] ij(3) n by fastforce

lemma loop_submit:
  assumes inv: "loop_inv k B bsz x" and pkt: "packet_ok bsz pkt" and room: "length (rising k B x) + length (falling k B x) < 2 ^ k"
  shows "\<exists>c. client_write env pkt (up x) = Some (c, int (length pkt)) \<and> loop_inv k B bsz (put_up x c) \<and>
    rising k B (put_up x c) = rising k B x @ [pkt] \<and> falling k B (put_up x c) = falling k B x"
proof -
  note L = loop_facts [OF inv]
  let ?t = "tail_of (dx_mem x) 0" and ?h = "head_of (dx_mem x) 0" and ?lo = "q_lastTail (ch_cq (down x))"
  let ?s = "unat ?h mod 2 ^ k"
  have "length (s2m_contents k 0 B (up x)) < 2 ^ k" using room by (simp add: rising_def)
  from client_write_accept [OF L(1) pkt this, of env] obtain c where
    C: "client_write env pkt (up x) = Some (c, int (length pkt))" "s2m_inv k 0 B bsz c"
    "s2m_contents k 0 B c = rising k B x @ [pkt]" "wrote k 0 (B ?s) pkt (up x) c" "tail_of (ch_mem c) 0 = ?t"
    by (auto simp: rising_def)
  have len: "length pkt \<le> bsz" using pkt by (simp add: packet_ok_def)
  have out: "outside k 0 (B ?s) (length pkt) (ch_mem (down x)) (ch_mem c)" using C(4) by (simp add: wrote_def)
  have w: "wired k 0 B bsz c" using C(2) by (simp add: s2m_inv_def)
  have buf: "ring_span k + ring_span k \<le> B ?s \<or> B ?s + length pkt \<le> ring_span k"
    using slots_okD(6) [OF L(12), of ?s] len by auto
  note S = sync_m2s [OF L(2) w out rings_apart(1) buf]
  have lo: "dx_crx x = ch_cq (down x)" by (simp add: down_def)
  have s: "?s = slot_idx k ?lo (length (falling k B x) + length (rising k B x))"
    using slot_idx_hi [OF L(8), of ?t ?h] slot_idx_shift [OF L(8), of ?t "unat (?h - ?t)" ?lo] L(4,9,10) lo by simp
  have "B (slot_idx k ?lo i) + bsz \<le> B ?s \<or> B ?s + length pkt \<le> B (slot_idx k ?lo i)" if "i < length (falling k B x)" for i
    unfolding s using that room len by (intro other_buffer [OF L(11)]) simp_all
  then have "m2s_contents k (ring_span k) B (sync c (down x)) = falling k B x"
    unfolding falling_def using L(10) lo by (intro S(4)) (simp add: falling_def)
  then show ?thesis
    using C S(1-3) L(3,4,13) room by (simp add: loop_inv_def rising_def falling_def wrote_def)
qed

text \<open>The server takes the oldest packet from its receive ring and puts it in its transmit ring.\<close>

lemma loop_take:
  assumes inv: "loop_inv k B bsz x" and cont: "rising k B x = pkt # rest" and buf: "bsz \<le> length buf"
  shows "\<exists>c buf'. server_read buf (up x) = Some (c, int (length pkt), None, buf') \<and> take (length pkt) buf' = pkt \<and> length buf' = length buf \<and>
    0 < length pkt \<and> s2m_inv k 0 B bsz c \<and> s2m_contents k 0 B c = rest \<and> tail_of (ch_mem c) 0 = tail_of (dx_mem x) 0 + 1 \<and>
    m2s_inv k (ring_span k) B bsz (sync c (down x)) \<and> m2s_contents k (ring_span k) B (sync c (down x)) = falling k B x \<and>
    m2s_credit (ring_span k) (sync c (down x)) = 2 ^ k \<and> tail_of (ch_mem c) (ring_span k) = tail_of (dx_mem x) 0 \<and>
    \<not> p_QuitChan (ch_client c)"
proof -
  note L = loop_facts [OF inv]
  have "s2m_contents k 0 B (up x) = pkt # rest" using cont by (simp add: rising_def)
  from server_read_packet [OF L(1) this buf] obtain c buf' where
    C: "server_read buf (up x) = Some (c, int (length pkt), None, buf')" "take (length pkt) buf' = pkt" "0 < length pkt"
    "s2m_inv k 0 B bsz c" "s2m_contents k 0 B c = rest" "kept k 0 (up x) c" "tail_of (ch_mem c) 0 = tail_of (dx_mem x) 0 + 1"
    "length buf' = length buf"
    by auto
  have w: "wired k 0 B bsz c" using C(4) by (simp add: s2m_inv_def)
  have out: "outside k 0 0 0 (ch_mem (down x)) (ch_mem c)" using C(6) by (simp add: kept_def)
  note S = sync_m2s [OF L(2) w out rings_apart(1)]
  show ?thesis using C S L(3,4,13) by (auto simp: falling_def kept_def)
qed

lemma loop_give:
  assumes inv: "loop_inv k B bsz x" and cont: "rising k B x = pkt # rest" and pkt: "packet_ok bsz pkt"
    and c: "s2m_inv k 0 B bsz c" "s2m_contents k 0 B c = rest" "tail_of (ch_mem c) 0 = tail_of (dx_mem x) 0 + 1"
      "m2s_inv k (ring_span k) B bsz (sync c (down x))" "m2s_contents k (ring_span k) B (sync c (down x)) = falling k B x"
      "m2s_credit (ring_span k) (sync c (down x)) = 2 ^ k" "tail_of (ch_mem c) (ring_span k) = tail_of (dx_mem x) 0" "\<not> p_QuitChan (ch_client c)"
  shows "\<exists>c'. server_write env pkt (sync c (down x)) = Some (c', int (length pkt)) \<and> loop_inv k B bsz (put_down (put_up x c) c') \<and>
    rising k B (put_down (put_up x c) c') = rest \<and> falling k B (put_down (put_up x c) c') = falling k B x @ [pkt]"
proof -
  note L = loop_facts [OF inv]
  let ?t = "tail_of (dx_mem x) 0" and ?lo = "q_lastTail (dx_crx x)"
  let ?s = "unat ?t mod 2 ^ k"
  have room: "length (falling k B x) < 2 ^ k" "length rest + Suc (length (falling k B x)) \<le> 2 ^ k" using L(5) cont by simp_all
  have "length (m2s_contents k (ring_span k) B (sync c (down x))) < m2s_credit (ring_span k) (sync c (down x))"
    using room c(5,6) by simp
  from server_write_accept [OF c(4) pkt this, of env] obtain c' where
    C: "server_write env pkt (sync c (down x)) = Some (c', int (length pkt))" "m2s_inv k (ring_span k) B bsz c'"
    "m2s_contents k (ring_span k) B c' = falling k B x @ [pkt]" "m2s_credit (ring_span k) c' = 2 ^ k"
    "wrote k (ring_span k) (B ?s) pkt (sync c (down x)) c'" "tail_of (ch_mem c') (ring_span k) = ?t + 1"
    using c(5-7) by (auto simp: down_def sync_def)
  have len: "length pkt \<le> bsz" using pkt by (simp add: packet_ok_def)
  have out: "outside k (ring_span k) (B ?s) (length pkt) (ch_mem c) (ch_mem c')" using C(5) by (simp add: wrote_def)
  have w: "wired k (ring_span k) B bsz c'" using C(2) by (simp add: m2s_inv_def)
  have g: "slots_ok k 0 B bsz (length (ch_mem c))" using c(1) wiredD(8) by (auto simp: s2m_inv_def)
  have buf: "0 + ring_span k \<le> B ?s \<or> B ?s + length pkt \<le> 0" using slots_okD(6) [OF g, of ?s] len by auto
  note S = sync_s2m [OF c(1) w out rings_apart(2) buf]
  have s: "?s = slot_idx k ?lo (length (falling k B x))" using slot_idx_hi [OF L(8), of ?lo ?t] L(4,10) by simp
  have n: "unat (head_of (ch_mem c) 0 - (?t + 1)) = length rest" using c(2,3) by (simp add: s2m_contents_def pend_def flip: c(2))
  have "slot_idx k (?t + 1) i = slot_idx k ?lo (Suc (length (falling k B x)) + i)" for i
    using slot_idx_Suc [OF L(8), of ?t i] slot_idx_shift [OF L(8), of ?t "Suc i" ?lo] L(4,10) by simp
  then have "B (slot_idx k (?t + 1) i) + bsz \<le> B ?s \<or> B ?s + length pkt \<le> B (slot_idx k (?t + 1) i)" if "i < length rest" for i
    unfolding s using that room(2) len by (simp only:) (intro other_buffer [OF L(11)], simp_all)
  then have "s2m_contents k 0 B (sync c' c) = rest"
    using S(3) n c(2,3) by simp
  then show ?thesis
    using C S(1,2) c(3,8) room(2) by (simp add: loop_inv_def rising_def falling_def wrote_def)
qed

lemma loop_idle:
  assumes inv: "loop_inv k B bsz x" and cont: "rising k B x = []"
  shows "\<exists>c. server_read buf (up x) = Some (c, 0, None, buf) \<and> loop_inv k B bsz (put_up x c) \<and>
    rising k B (put_up x c) = [] \<and> falling k B (put_up x c) = falling k B x"
proof -
  note L = loop_facts [OF inv]
  have "s2m_contents k 0 B (up x) = []" using cont by (simp add: rising_def)
  from server_read_none [OF L(1) this, of buf] obtain c where
    C: "server_read buf (up x) = Some (c, 0, None, buf)" "s2m_inv k 0 B bsz c" "s2m_contents k 0 B c = []"
    "kept k 0 (up x) c" "tail_of (ch_mem c) 0 = tail_of (dx_mem x) 0" by auto
  have w: "wired k 0 B bsz c" using C(2) by (simp add: s2m_inv_def)
  have out: "outside k 0 0 0 (ch_mem (down x)) (ch_mem c)" using C(4) by (simp add: kept_def)
  note S = sync_m2s [OF L(2) w out rings_apart(1)]
  show ?thesis
    using C S L(3-5,13) cont by (simp add: loop_inv_def rising_def falling_def kept_def)
qed

text \<open>The client's read.\<close>

lemma loop_fetch:
  assumes inv: "loop_inv k B bsz x" and cont: "falling k B x = pkt # rest" and buf: "bsz \<le> length buf"
  shows "\<exists>c buf'. client_read buf (down x) = Some (c, int (length pkt), None, buf') \<and> take (length pkt) buf' = pkt \<and>
    length buf' = length buf \<and> 0 < length pkt \<and> loop_inv k B bsz (put_down x c) \<and>
    rising k B (put_down x c) = rising k B x \<and> falling k B (put_down x c) = rest"
proof -
  note L = loop_facts [OF inv]
  have "m2s_contents k (ring_span k) B (down x) = pkt # rest" using cont by (simp add: falling_def)
  from client_read_packet [OF L(2) this buf] obtain c buf' where
    C: "client_read buf (down x) = Some (c, int (length pkt), None, buf')" "take (length pkt) buf' = pkt" "0 < length pkt"
    "m2s_inv k (ring_span k) B bsz c" "m2s_contents k (ring_span k) B c = rest" "m2s_credit (ring_span k) c = 2 ^ k"
    "kept k (ring_span k) (down x) c" "tail_of (ch_mem c) (ring_span k) = tail_of (dx_mem x) (ring_span k)" "length buf' = length buf"
    by auto
  have w: "wired k (ring_span k) B bsz c" using C(4) by (simp add: m2s_inv_def)
  have out: "outside k (ring_span k) (ring_span k) 0 (ch_mem (up x)) (ch_mem c)" using C(7) by (simp add: kept_def)
  note S = sync_s2m [OF L(1) w out rings_apart(2)]
  have "B (slot_idx k t i) + bsz \<le> ring_span k \<or> ring_span k + 0 \<le> B (slot_idx k t i)" for t i
    using slots_okD(6) [OF L(12) slot_idx_less, of t i] by auto
  then show ?thesis
    using C S L(4,5,13) cont by (simp add: loop_inv_def rising_def falling_def kept_def)
qed

lemma loop_poll:
  assumes m2s: "m2s_inv k (ring_span k) B bsz (down x)" "m2s_contents k (ring_span k) B (down x) = []"
    and s2m: "s2m_inv k 0 B bsz (up x)" "tail_of (dx_mem x) (ring_span k) = tail_of (dx_mem x) 0" "\<not> p_QuitChan (dx_client x)"
  shows "\<exists>c. client_read buf (down x) = Some (c, 0, None, buf) \<and> loop_inv k B bsz (put_down x c) \<and>
    rising k B (put_down x c) = rising k B x \<and> falling k B (put_down x c) = []"
proof -
  from client_read_none [OF m2s, of buf] obtain c where
    C: "client_read buf (down x) = Some (c, 0, None, buf)" "m2s_inv k (ring_span k) B bsz c" "m2s_contents k (ring_span k) B c = []"
    "m2s_credit (ring_span k) c = 2 ^ k" "kept k (ring_span k) (down x) c"
    "tail_of (ch_mem c) (ring_span k) = tail_of (dx_mem x) (ring_span k)" by auto
  have w: "wired k (ring_span k) B bsz c" "wired k (ring_span k) B bsz (down x)" using C(2) m2s by (simp_all add: m2s_inv_def)
  have out: "outside k (ring_span k) (ring_span k) 0 (ch_mem (up x)) (ch_mem c)" using C(5) by (simp add: kept_def)
  note S = sync_s2m [OF s2m(1) w(1) out rings_apart(2)]
  have "B (slot_idx k t i) + bsz \<le> ring_span k \<or> ring_span k + 0 \<le> B (slot_idx k t i)" for t i
    using slots_okD(6) [OF wiredD(8) [OF w(2)] slot_idx_less, of t i] by auto
  moreover have "length (s2m_contents k 0 B (up x)) \<le> 2 ^ k" using s2m(1) by (simp add: s2m_inv_def s2m_contents_def pend_def)
  ultimately show ?thesis
    using C S s2m(2,3) by (simp add: loop_inv_def rising_def falling_def kept_def)
qed

text \<open>With all slots on their way back, one more packet of the client still fits its transmit ring, and
  replaces the oldest packet of the other direction.\<close>

lemma loop_overrun:
  assumes inv: "loop_inv k B bsz x" and cont: "falling k B x = old # rest" and full: "length (falling k B x) = 2 ^ k"
    and pkt: "packet_ok bsz pkt" "length old \<le> length pkt"
  shows "\<exists>c. client_write env pkt (up x) = Some (c, int (length pkt)) \<and> m2s_inv k (ring_span k) B bsz (sync c (down x)) \<and>
    m2s_contents k (ring_span k) B (sync c (down x)) = take (length old) pkt # rest"
proof -
  note L = loop_facts [OF inv]
  let ?off = "ring_span k" and ?d = "dx_mem x" and ?lo = "q_lastTail (dx_crx x)"
  let ?s = "slot_idx k ?lo 0"
  have up: "rising k B x = []" using L(5) full by simp
  have "length (s2m_contents k 0 B (up x)) < 2 ^ k" using up by (simp add: rising_def)
  from client_write_accept [OF L(1) pkt(1) this, of env] obtain c where
    C: "client_write env pkt (up x) = Some (c, int (length pkt))" "s2m_inv k 0 B bsz c"
    "wrote k 0 (B (unat (head_of ?d 0) mod 2 ^ k)) pkt (up x) c" by auto
  have len: "length pkt \<le> bsz" using pkt by (simp add: packet_ok_def)
  have "unat (head_of ?d 0) mod 2 ^ k = slot_idx k ?lo (2 ^ k)"
    using slot_idx_hi [OF L(8), of ?lo "tail_of ?d 0"] L(4,9,10) up full by (simp add: unat_eq_0)
  then have s: "unat (head_of ?d 0) mod 2 ^ k = ?s" by (simp add: slot_idx_def)
  have out: "outside k 0 (B ?s) (length pkt) ?d (ch_mem c)" and new: "window (ch_mem c) (B ?s) (length pkt) = pkt"
    using C(3) by (simp_all add: wrote_def s)
  have buf: "?off + ring_span k \<le> B ?s \<or> B ?s + length pkt \<le> ?off" using slots_okD(6) [OF L(12) slot_idx_less, of ?lo 0] len by auto
  have w: "wired k 0 B bsz c" using C(2) by (simp add: s2m_inv_def)
  have inv': "m2s_inv k ?off B bsz (sync c (down x))"
    by (rule sync_m2s(1) [OF L(2) w _ rings_apart(1) buf]) (simp add: out)
  note R = ring_outside [OF out L(12) _ buf, simplified]
  obtain m where m: "unat (tail_of ?d ?off - ?lo) = Suc m" "Suc m = 2 ^ k" using L(10) full cont by (cases "unat (tail_of ?d ?off - ?lo)") simp_all
  have ok: "pend_ok k ?off B bsz ?d ?lo (Suc m)" using L(2) m(1) by (simp add: m2s_inv_def m2s_slots_def Let_def down_def)
  have old: "old = slot_payload ?off B ?d ?s" "rest = pend k ?off B ?d (?lo + 1) m"
    using cont m(1) by (simp_all add: falling_def m2s_contents_def down_def pend_Suc [OF L(8)])
  obtain l where l: "l \<le> bsz" "desc_is (desc_of ?d ?off ?s) 0 0 (int l) (int (B ?s))"
    using ok unfolding pend_ok_def by blast
  have "length old = l" using old(1) desc_isD(4) [OF l(2)] slots_okD(4) [OF L(11) slot_idx_less, of ?lo 0] l(1) by (simp add: slot_payload_def)
  then have "slot_payload ?off B (ch_mem c) ?s = window (ch_mem c) (B ?s) (length old)"
    using desc_isD(4) [OF l(2)] R(3) by (simp add: slot_payload_def)
  also have "\<dots> = take (length old) pkt"
    using arg_cong [OF new, of "take (length old)"] pkt(2) by (simp add: min_absorb1)
  finally have hd: "slot_payload ?off B (ch_mem c) ?s = take (length old) pkt" .
  have "slot_same ?off B bsz ?d (ch_mem c) (slot_idx k (?lo + 1) i)" if "i < m" for i
    using that m(2) buffer_outside [OF out L(11) slot_idx_less other_buffer [OF L(11) _ _ _ len, of "Suc i" 0]] R(3)
    by (simp add: slot_same_def slot_idx_Suc [OF L(8)])
  then have "pend k ?off B (ch_mem c) (?lo + 1) m = rest"
    unfolding old(2) by (intro pend_same(1) [OF pend_ok_Suc [OF L(8) ok]])
  then have "m2s_contents k ?off B (sync c (down x)) = take (length old) pkt # rest"
    using R(2) m(1) hd by (simp add: m2s_contents_def sync_def down_def pend_Suc [OF L(8)])
  then show ?thesis using C(1) inv' by blast
qed

text \<open>Without credit the server takes a packet and cannot pass it on: the packet is gone.\<close>

lemma loop_drop:
  assumes s2m: "s2m_inv k 0 B bsz (up x)" "s2m_contents k 0 B (up x) = pkt # rest" and buf: "bsz \<le> length buf"
    and m2s: "m2s_inv k (ring_span k) B bsz (down x)" "m2s_contents k (ring_span k) B (down x) = []" "m2s_credit (ring_span k) (down x) = 0"
  shows "\<exists>c buf' c'. server_read buf (up x) = Some (c, int (length pkt), None, buf') \<and> take (length pkt) buf' = pkt \<and> 0 < length pkt \<and>
    server_write env pkt (sync c (down x)) = Some (c', 0) \<and> s2m_contents k 0 B c = rest \<and> ch_mem c' = ch_mem c \<and>
    m2s_inv k (ring_span k) B bsz c' \<and> m2s_contents k (ring_span k) B c' = [] \<and> wired k 0 B bsz c"
proof -
  from server_read_packet [OF s2m buf] obtain c buf' where
    C: "server_read buf (up x) = Some (c, int (length pkt), None, buf')" "take (length pkt) buf' = pkt" "0 < length pkt"
    "s2m_inv k 0 B bsz c" "s2m_contents k 0 B c = rest" "kept k 0 (up x) c"
    by auto
  have w: "wired k 0 B bsz c" using C(4) by (simp add: s2m_inv_def)
  have out: "outside k 0 0 0 (ch_mem (down x)) (ch_mem c)" using C(6) by (simp add: kept_def)
  note S = sync_m2s [OF m2s(1) w out rings_apart(1)]
  have d: "m2s_inv k (ring_span k) B bsz (sync c (down x))" "m2s_contents k (ring_span k) B (sync c (down x)) = []"
    "m2s_credit (ring_span k) (sync c (down x)) = 0" using S m2s(2,3) by auto
  from server_write_reject [OF d(1), of env pkt] d(2,3) obtain c' where
    "server_write env pkt (sync c (down x)) = Some (c', 0)" "m2s_inv k (ring_span k) B bsz c'" "m2s_contents k (ring_span k) B c' = []"
    "ch_mem c' = ch_mem c" by auto
  then show ?thesis using C w by blast
qed

end
