(* ===== verification/Echo.thy ===== *)
theory Echo
  imports Duplex Mem_Region Port
begin

text \<open>
  The echo example (\<^verbatim>\<open>src/example/simple_echo\<close>): a client that sends packets with a time stamp and reads
  them back, and a server that returns every packet. \<open>loopback\<close> is the contract of such a service as the
  client sees it, as long as it keeps to a window of outstanding packets; the two programs over one
  connection are an instance of it.
\<close>

section \<open>The contract of an echo service\<close>

datatype 'a loop_op = Submit 'a | Serve | Fetch

text \<open>The abstract service: the packets on their way to the server and on their way back. The result is
  both lists at the end and the packets fetched.\<close>

fun loop_run :: "'a loop_op list \<Rightarrow> 'a list \<Rightarrow> 'a list \<Rightarrow> 'a list \<times> 'a list \<times> 'a list" where
  "loop_run [] u d = (u, d, [])"
| "loop_run (Submit x # ops) u d = loop_run ops (u @ [x]) d"
| "loop_run (Serve # ops) [] d = loop_run ops [] d"
| "loop_run (Serve # ops) (x # u) d = loop_run ops u (d @ [x])"
| "loop_run (Fetch # ops) u [] = loop_run ops u []"
| "loop_run (Fetch # ops) u (x # d) = (case loop_run ops u d of (u', d', outs) \<Rightarrow> (u', d', x # outs))"

fun submitted :: "'a loop_op list \<Rightarrow> 'a list" where
  "submitted [] = []"
| "submitted (Submit x # ops) = x # submitted ops"
| "submitted (Serve # ops) = submitted ops"
| "submitted (Fetch # ops) = submitted ops"

text \<open>\<open>within w ops u d\<close>: from \<open>u\<close> packets under way and \<open>d\<close> on their way back, no submission finds \<open>w\<close>
  packets outstanding.\<close>

fun within :: "nat \<Rightarrow> 'a loop_op list \<Rightarrow> nat \<Rightarrow> nat \<Rightarrow> bool" where
  "within w [] u d = True"
| "within w (Submit x # ops) u d = (u + d < w \<and> within w ops (Suc u) d)"
| "within w (Serve # ops) u d = (if u = 0 then within w ops 0 d else within w ops (u - 1) (Suc d))"
| "within w (Fetch # ops) u d = within w ops u (d - 1)"

text \<open>Every packet comes back, unchanged and in order.\<close>

lemma loop_run_order: "loop_run ops u d = (u', d', outs) \<Longrightarrow> d @ u @ submitted ops = outs @ d' @ u'"
  by (induction ops u d arbitrary: u' d' outs rule: loop_run.induct) (fastforce split: prod.splits)+

fun service_run :: "('a \<Rightarrow> 's \<Rightarrow> 's option) \<Rightarrow> ('s \<Rightarrow> 's option) \<Rightarrow> ('s \<Rightarrow> ('s \<times> 'a option) option) \<Rightarrow>
    'a loop_op list \<Rightarrow> 's \<Rightarrow> ('s \<times> 'a list) option" where
  "service_run submit serve fetch [] s = Some (s, [])"
| "service_run submit serve fetch (Submit x # ops) s = Option.bind (submit x s) (service_run submit serve fetch ops)"
| "service_run submit serve fetch (Serve # ops) s = Option.bind (serve s) (service_run submit serve fetch ops)"
| "service_run submit serve fetch (Fetch # ops) s = do {
     (s1, r) \<leftarrow> fetch s;
     (s2, outs) \<leftarrow> service_run submit serve fetch ops s1;
     Some (s2, case r of None \<Rightarrow> outs | Some x \<Rightarrow> x # outs) }"

locale loopback =
  fixes inv :: "'s \<Rightarrow> bool"
    and ups :: "'s \<Rightarrow> 'a list"
    and downs :: "'s \<Rightarrow> 'a list"
    and cap :: nat
    and submit :: "'a \<Rightarrow> 's \<Rightarrow> 's option"
    and serve :: "'s \<Rightarrow> 's option"
    and fetch :: "'s \<Rightarrow> ('s \<times> 'a option) option"
  assumes submit: "inv s \<Longrightarrow> length (ups s) + length (downs s) < cap \<Longrightarrow>
      \<exists>s'. submit x s = Some s' \<and> inv s' \<and> ups s' = ups s @ [x] \<and> downs s' = downs s"
    and serve_some: "inv s \<Longrightarrow> ups s = x # xs \<Longrightarrow> \<exists>s'. serve s = Some s' \<and> inv s' \<and> ups s' = xs \<and> downs s' = downs s @ [x]"
    and serve_none: "inv s \<Longrightarrow> ups s = [] \<Longrightarrow> \<exists>s'. serve s = Some s' \<and> inv s' \<and> ups s' = [] \<and> downs s' = downs s"
    and fetch_some: "inv s \<Longrightarrow> downs s = x # xs \<Longrightarrow>
      \<exists>s'. fetch s = Some (s', Some x) \<and> inv s' \<and> ups s' = ups s \<and> downs s' = xs"
    and fetch_none: "inv s \<Longrightarrow> downs s = [] \<Longrightarrow>
      \<exists>s'. fetch s = Some (s', None) \<and> inv s' \<and> ups s' = ups s \<and> downs s' = []"
begin

text \<open>Within the window no step panics, and the run is the run of the abstract service.\<close>

lemma run_refines:
  assumes "inv s" and "within cap ops (length (ups s)) (length (downs s))"
  shows "\<exists>s' outs. service_run submit serve fetch ops s = Some (s', outs) \<and> inv s' \<and>
    loop_run ops (ups s) (downs s) = (ups s', downs s', outs)"
  using assms
proof (induction ops arbitrary: s)
  case Nil
  then show ?case by simp
next
  case (Cons op ops)
  show ?case
  proof (cases op)
    case (Submit x)
    with Cons.prems submit [OF Cons.prems(1), of x] obtain s1 where
      "submit x s = Some s1" "inv s1" "ups s1 = ups s @ [x]" "downs s1 = downs s" by auto
    with Cons.IH [of s1] Cons.prems(2) Submit show ?thesis by simp
  next
    case Serve
    with serve_some [OF Cons.prems(1)] serve_none [OF Cons.prems(1)] Cons.IH Cons.prems(2)
    show ?thesis by (cases "ups s") fastforce+
  next
    case Fetch
    with fetch_some [OF Cons.prems(1)] fetch_none [OF Cons.prems(1)] Cons.IH Cons.prems(2)
    show ?thesis by (cases "downs s") fastforce+
  qed
qed

end

section \<open>The programs\<close>

text \<open>\<open>binary.BigEndian.PutUint64\<close> and \<open>Uint64\<close>; both panic on fewer than 8 bytes.\<close>

definition be64 :: "u64 \<Rightarrow> byte list" where "be64 v = rev (put_le 8 v)"

definition putUint64 :: "byte list \<Rightarrow> u64 \<Rightarrow> byte list option" where
  "putUint64 b v = (if length b < 8 then None else Some (overlay b 0 (be64 v)))"

definition uint64_be :: "byte list \<Rightarrow> u64 option" where
  "uint64_be b = (if length b < 8 then None else Some (get_le (rev (take 8 b))))"

text \<open>One iteration of the client's sending loop at the time \<open>now\<close>, on its transmit queue and with the
  slice it reuses; \<open>Some None\<close>: the loop has ended.\<close>

definition echo_sendpkt :: "env \<Rightarrow> u64 \<Rightarrow> port \<Rightarrow> queue \<Rightarrow> byte list \<Rightarrow> trace \<Rightarrow> (byte list \<times> port \<times> trace) option option" where
  "echo_sendpkt env now p txq0 sendpkt tr =
     (if p_QuitChan p then Some None
      else do {
        pkt \<leftarrow> putUint64 sendpkt now;
        (n, p', tr') \<leftarrow> WritePacket env p txq0 pkt tr;
        Some (Some (pkt, p', tr')) })"

text \<open>One iteration of its receiving loop: the time stamp whose age is reported, if a packet has come.\<close>

definition echo_recvpkt :: "port \<Rightarrow> queue \<Rightarrow> byte list \<Rightarrow> (u64 option \<times> byte list \<times> queue \<times> port) option" where
  "echo_recvpkt p rxq0 pkt = do {
     (pktLen, err, pkt', rxq', p') \<leftarrow> ReadPacket p rxq0 pkt;
     recvts \<leftarrow> (if 0 < pktLen then map_option Some (uint64_be pkt') else Some None);
     Some (recvts, pkt', rxq', p') }"

text \<open>One iteration of the server's loop.\<close>

definition packetprocessing :: "env \<Rightarrow> port \<Rightarrow> queue \<Rightarrow> queue \<Rightarrow> byte list \<Rightarrow> trace \<Rightarrow> (byte list \<times> queue \<times> port \<times> trace) option" where
  "packetprocessing env p rxq0 txq0 pkt tr = do {
     (pktLen, err, pkt', rxq', p') \<leftarrow> ReadPacket p rxq0 pkt;
     (if err \<noteq> None then Some (pkt', rxq', p', tr)
      else if 0 < pktLen then do {
        (n, p'', tr') \<leftarrow> WritePacket env p' txq0 (take (nat pktLen) pkt') tr;
        Some (pkt', rxq', p'', tr') }
      else Some (pkt', rxq', p', tr)) }"

text \<open>The queues the goroutines start with; a missing queue ends the program (\<open>logrus.Fatal\<close>).\<close>

definition or_fatal :: "string \<Rightarrow> (error + 'a) option \<Rightarrow> (error + 'a) option" where
  "or_fatal msg r = map_option (\<lambda>x. case x of Inl e \<Rightarrow> Inl msg | Inr q \<Rightarrow> Inr q) r"

definition echo_send_queue :: "port \<Rightarrow> (error + queue) option" where
  "echo_send_queue p = or_fatal ''Get TX-Queue failed.'' (GetTxQueue p 0)"

definition echo_recv_queue :: "port \<Rightarrow> (error + queue) option" where
  "echo_recv_queue p = or_fatal ''Get RX-Queue failed.'' (GetRxQueue p 0)"

definition echo_server_queues :: "port \<Rightarrow> (error + queue \<times> queue) option" where
  "echo_server_queues p = do {
     r \<leftarrow> or_fatal ''Get RX-Queue failed.'' (GetRxQueue p 0);
     (case r of Inl e \<Rightarrow> Some (Inl e)
      | Inr rxq0 \<Rightarrow> do {
          t \<leftarrow> or_fatal ''Get TX-Queue failed.'' (GetTxQueue p 0);
          Some (case t of Inl e \<Rightarrow> Inl e | Inr txq0 \<Rightarrow> Inr (rxq0, txq0)) }) }"

lemma echo_queues:
  "p_txQueues p = [tx] \<Longrightarrow> echo_send_queue p = Some (Inr tx)" "p_rxQueues p = [rx] \<Longrightarrow> echo_recv_queue p = Some (Inr rx)"
  "p_rxQueues p = [rx] \<Longrightarrow> p_txQueues p = [tx] \<Longrightarrow> echo_server_queues p = Some (Inr (rx, tx))"
  by (simp_all add: echo_send_queue_def echo_recv_queue_def echo_server_queues_def or_fatal_def GetTxQueue_def GetRxQueue_def
      get_queue_def go_nth_def)

section \<open>Both programs over one connection\<close>

text \<open>The connection and the slices of the three goroutines.\<close>

record echo =
  e_dx :: duplex
  e_send :: "byte list"
  e_recv :: "byte list"
  e_srv :: "byte list"

definition echo_submit :: "env \<Rightarrow> u64 \<Rightarrow> echo \<Rightarrow> echo option" where
  "echo_submit env now e = (let x = e_dx e in do {
     r \<leftarrow> echo_sendpkt env now (with_mem (dx_client x) (dx_mem x)) (dx_ctx x) (e_send e) (dx_trace x);
     (case r of
        None \<Rightarrow> Some e
      | Some (pkt, p, tr) \<Rightarrow> do {
          m \<leftarrow> region_data p 0;
          Some (e\<lparr>e_dx := x\<lparr>dx_mem := m, dx_client := p, dx_trace := tr\<rparr>, e_send := pkt\<rparr>) }) })"

definition echo_fetch :: "echo \<Rightarrow> (echo \<times> u64 option) option" where
  "echo_fetch e = (let x = e_dx e in do {
     (recvts, pkt, q, p) \<leftarrow> echo_recvpkt (with_mem (dx_client x) (dx_mem x)) (dx_crx x) (e_recv e);
     m \<leftarrow> region_data p 0;
     Some (e\<lparr>e_dx := x\<lparr>dx_mem := m, dx_client := p, dx_crx := q\<rparr>, e_recv := pkt\<rparr>, recvts) })"

definition echo_serve :: "env \<Rightarrow> echo \<Rightarrow> echo option" where
  "echo_serve env e = (let x = e_dx e in do {
     (pkt, q, p, tr) \<leftarrow> packetprocessing env (with_mem (dx_server x) (dx_mem x)) (dx_srx x) (dx_stx x) (e_srv e) (dx_trace x);
     m \<leftarrow> region_data p 0;
     Some (e\<lparr>e_dx := x\<lparr>dx_mem := m, dx_server := p, dx_srx := q, dx_trace := tr\<rparr>, e_srv := pkt\<rparr>) })"

text \<open>Each iteration is an operation of \<open>Duplex\<close> on the slices.\<close>

lemma echo_submit_eq:
  assumes "client_write env pkt (up (e_dx e)) = Some (c, n)" and "putUint64 (e_send e) now = Some pkt"
    and "\<not> p_QuitChan (dx_client (e_dx e))"
  shows "echo_submit env now e = Some (e\<lparr>e_dx := put_up (e_dx e) c, e_send := pkt\<rparr>)"
  using assms by (cases "e_dx e") (auto simp: echo_submit_def echo_sendpkt_def client_write_def up_def put_up_def bind_eq_Some_conv)

lemma echo_fetch_eq:
  assumes "client_read (e_recv e) (down (e_dx e)) = Some (c, n, err, pkt)"
    and ts: "(if 0 < n then map_option Some (uint64_be pkt) else Some None) = Some ts"
  shows "echo_fetch e = Some (e\<lparr>e_dx := put_down (e_dx e) c, e_recv := pkt\<rparr>, ts)"
proof -
  let ?x = "e_dx e"
  obtain q p m where "ReadPacket (with_mem (dx_client ?x) (dx_mem ?x)) (dx_crx ?x) (e_recv e) = Some (n, err, pkt, q, p)"
    "region_data p 0 = Some m" "c = (down ?x)\<lparr>ch_mem := m, ch_client := p, ch_cq := q\<rparr>"
    using assms(1) by (auto simp: client_read_def down_def bind_eq_Some_conv)
  then show ?thesis using ts by (cases ?x) (simp add: echo_fetch_def echo_recvpkt_def down_def put_down_def)
qed

lemma echo_idle_eq:
  assumes "server_read (e_srv e) (up (e_dx e)) = Some (c, 0, None, pkt)"
  shows "echo_serve env e = Some (e\<lparr>e_dx := put_up (e_dx e) c, e_srv := pkt\<rparr>)"
  using assms by (cases "e_dx e") (auto simp: echo_serve_def packetprocessing_def server_read_def up_def put_up_def bind_eq_Some_conv)

lemma echo_serve_eq:
  assumes r: "server_read (e_srv e) (up (e_dx e)) = Some (c, n, None, pkt)" and n: "0 < n"
    and w: "server_write env (take (nat n) pkt) (sync c (down (e_dx e))) = Some (c', m)"
  shows "echo_serve env e = Some (e\<lparr>e_dx := put_down (put_up (e_dx e) c) c', e_srv := pkt\<rparr>)"
proof -
  let ?x = "e_dx e"
  obtain q p m1 where R: "ReadPacket (with_mem (dx_server ?x) (dx_mem ?x)) (dx_srx ?x) (e_srv e) = Some (n, None, pkt, q, p)"
    "region_data p 0 = Some m1" and c: "c = (up ?x)\<lparr>ch_mem := m1, ch_server := p, ch_sq := q\<rparr>"
    using r by (auto simp: server_read_def up_def bind_eq_Some_conv)
  have "with_mem p m1 = p" unfolding with_mem_def by (rule put_region_data_same [OF R(2)])
  then obtain p' tr m2 where "WritePacket env p (dx_stx ?x) (take (nat n) pkt) (dx_trace ?x) = Some (m, p', tr)"
    "region_data p' 0 = Some m2" "c' = (sync c (down ?x))\<lparr>ch_mem := m2, ch_server := p', ch_trace := tr\<rparr>"
    using w c by (auto simp: server_write_def sync_def down_def up_def bind_eq_Some_conv)
  then show ?thesis using R(1) n c
    by (cases ?x) (simp add: echo_serve_def packetprocessing_def put_up_def put_down_def sync_def down_def up_def)
qed

section \<open>The programs meet the contract\<close>

definition stamp :: "u64 \<Rightarrow> byte list" where "stamp ts = be64 ts @ replicate 792 0"

definition stamp_of :: "byte list \<Rightarrow> u64" where "stamp_of pkt = get_le (rev (take 8 pkt))"

lemma length_stamp [simp]: "length (be64 ts) = 8" "length (stamp ts) = 800" "drop 8 (stamp ts) = replicate 792 0"
  by (simp_all add: be64_def stamp_def)

lemma stamp_of_stamp [simp]: "stamp_of (stamp ts) = ts"
proof -
  have "take 8 (stamp ts) = be64 ts" by (simp add: stamp_def)
  then show ?thesis by (simp add: stamp_of_def be64_def)
qed

lemma putUint64_stamp: "length b = 800 \<Longrightarrow> drop 8 b = replicate 792 0 \<Longrightarrow> putUint64 b ts = Some (stamp ts)"
  by (simp add: putUint64_def stamp_def overlay_def)

lemma uint64_be_stamp:
  assumes "take 800 pkt = stamp ts" and "800 \<le> length pkt"
  shows "uint64_be pkt = Some ts"
proof -
  have "take 8 pkt = take 8 (stamp ts)" using arg_cong [OF assms(1), of "take 8"] by (simp add: min_def)
  then show ?thesis using assms(2) stamp_of_stamp [of ts] by (simp add: uint64_be_def stamp_of_def)
qed

definition echo_inv :: "nat \<Rightarrow> (nat \<Rightarrow> nat) \<Rightarrow> nat \<Rightarrow> echo \<Rightarrow> bool" where
  "echo_inv k B bsz e \<longleftrightarrow> loop_inv k B bsz (e_dx e) \<and> 800 \<le> bsz \<and> bsz \<le> 2048 \<and>
     length (e_send e) = 800 \<and> drop 8 (e_send e) = replicate 792 0 \<and> length (e_recv e) = 2048 \<and> length (e_srv e) = 2048 \<and>
     set (rising k B (e_dx e)) \<union> set (falling k B (e_dx e)) \<subseteq> range stamp"

definition echo_ups :: "nat \<Rightarrow> (nat \<Rightarrow> nat) \<Rightarrow> echo \<Rightarrow> u64 list" where
  "echo_ups k B e = map stamp_of (rising k B (e_dx e))"

definition echo_downs :: "nat \<Rightarrow> (nat \<Rightarrow> nat) \<Rightarrow> echo \<Rightarrow> u64 list" where
  "echo_downs k B e = map stamp_of (falling k B (e_dx e))"

lemma echo_first:
  assumes "map stamp_of ps = t # ts" and "set ps \<subseteq> range stamp"
  obtains rest where "ps = stamp t # rest" "map stamp_of rest = ts" "set rest \<subseteq> range stamp"
  using assms by (cases ps) auto

lemma echo_submits:
  assumes inv: "echo_inv k B bsz e" and room: "length (echo_ups k B e) + length (echo_downs k B e) < 2 ^ k"
  shows "\<exists>e'. echo_submit env ts e = Some e' \<and> echo_inv k B bsz e' \<and> echo_ups k B e' = echo_ups k B e @ [ts] \<and>
      echo_downs k B e' = echo_downs k B e"
proof -
  have I: "loop_inv k B bsz (e_dx e)" "packet_ok bsz (stamp ts)" "\<not> p_QuitChan (dx_client (e_dx e))"
    and p: "putUint64 (e_send e) ts = Some (stamp ts)"
    using inv putUint64_stamp loop_facts(13) by (auto simp: echo_inv_def packet_ok_def)
  obtain c where "client_write env (stamp ts) (up (e_dx e)) = Some (c, int (length (stamp ts)))" "loop_inv k B bsz (put_up (e_dx e) c)"
    "rising k B (put_up (e_dx e) c) = rising k B (e_dx e) @ [stamp ts]" "falling k B (put_up (e_dx e) c) = falling k B (e_dx e)"
    using loop_submit [OF I(1,2), of env] room by (auto simp: echo_ups_def echo_downs_def)
  then show ?thesis
    using echo_submit_eq [OF _ p I(3)] inv by (auto simp: echo_inv_def echo_ups_def echo_downs_def)
qed

lemma echo_serves:
  assumes inv: "echo_inv k B bsz e" and "echo_ups k B e = ts # us"
  shows "\<exists>e'. echo_serve env e = Some e' \<and> echo_inv k B bsz e' \<and> echo_ups k B e' = us \<and> echo_downs k B e' = echo_downs k B e @ [ts]"
proof -
  from assms obtain rest where r: "rising k B (e_dx e) = stamp ts # rest" "map stamp_of rest = us" "set rest \<subseteq> range stamp"
    by (auto simp: echo_ups_def echo_inv_def elim: echo_first)
  have I: "loop_inv k B bsz (e_dx e)" "bsz \<le> length (e_srv e)" "packet_ok bsz (stamp ts)"
    using inv by (auto simp: echo_inv_def packet_ok_def)
  obtain c pkt where T: "server_read (e_srv e) (up (e_dx e)) = Some (c, int (length (stamp ts)), None, pkt)"
    "take (length (stamp ts)) pkt = stamp ts" "length pkt = length (e_srv e)" "0 < length (stamp ts)" and
    C: "s2m_inv k 0 B bsz c" "s2m_contents k 0 B c = rest" "tail_of (ch_mem c) 0 = tail_of (dx_mem (e_dx e)) 0 + 1"
    "m2s_inv k (ring_span k) B bsz (sync c (down (e_dx e)))" "m2s_contents k (ring_span k) B (sync c (down (e_dx e))) = falling k B (e_dx e)"
    "m2s_credit (ring_span k) (sync c (down (e_dx e))) = 2 ^ k" "tail_of (ch_mem c) (ring_span k) = tail_of (dx_mem (e_dx e)) 0"
    "\<not> p_QuitChan (ch_client c)"
    using loop_take [OF I(1) r(1) I(2)] by blast
  obtain c' where W: "server_write env (stamp ts) (sync c (down (e_dx e))) = Some (c', int (length (stamp ts)))"
    "loop_inv k B bsz (put_down (put_up (e_dx e) c) c')" "rising k B (put_down (put_up (e_dx e) c) c') = rest"
    "falling k B (put_down (put_up (e_dx e) c) c') = falling k B (e_dx e) @ [stamp ts]"
    using loop_give [OF I(1) r(1) I(3) C, of env] by blast
  have "echo_serve env e = Some (e\<lparr>e_dx := put_down (put_up (e_dx e) c) c', e_srv := pkt\<rparr>)"
    by (rule echo_serve_eq [OF T(1)]) (use T W(1) in simp_all)
  then show ?thesis
    using inv T(3) W(2-4) r by (auto simp: echo_inv_def echo_ups_def echo_downs_def)
qed

lemma echo_idles:
  assumes inv: "echo_inv k B bsz e" and "echo_ups k B e = []"
  shows "\<exists>e'. echo_serve env e = Some e' \<and> echo_inv k B bsz e' \<and> echo_ups k B e' = [] \<and> echo_downs k B e' = echo_downs k B e"
proof -
  from assms have I: "loop_inv k B bsz (e_dx e)" "rising k B (e_dx e) = []" by (simp_all add: echo_inv_def echo_ups_def)
  obtain c where "server_read (e_srv e) (up (e_dx e)) = Some (c, 0, None, e_srv e)" "loop_inv k B bsz (put_up (e_dx e) c)"
    "rising k B (put_up (e_dx e) c) = []" "falling k B (put_up (e_dx e) c) = falling k B (e_dx e)"
    using loop_idle [OF I] by blast
  then show ?thesis
    using echo_idle_eq inv by (fastforce simp: echo_inv_def echo_ups_def echo_downs_def)
qed

lemma echo_fetches:
  assumes inv: "echo_inv k B bsz e" and "echo_downs k B e = ts # ds"
  shows "\<exists>e'. echo_fetch e = Some (e', Some ts) \<and> echo_inv k B bsz e' \<and> echo_ups k B e' = echo_ups k B e \<and> echo_downs k B e' = ds"
proof -
  from assms obtain rest where r: "falling k B (e_dx e) = stamp ts # rest" "map stamp_of rest = ds" "set rest \<subseteq> range stamp"
    by (auto simp: echo_downs_def echo_inv_def elim: echo_first)
  have I: "loop_inv k B bsz (e_dx e)" "bsz \<le> length (e_recv e)" using inv by (auto simp: echo_inv_def)
  obtain c pkt where F: "client_read (e_recv e) (down (e_dx e)) = Some (c, int (length (stamp ts)), None, pkt)"
    "take (length (stamp ts)) pkt = stamp ts" "length pkt = length (e_recv e)" "loop_inv k B bsz (put_down (e_dx e) c)"
    "rising k B (put_down (e_dx e) c) = rising k B (e_dx e)" "falling k B (put_down (e_dx e) c) = rest"
    using loop_fetch [OF I(1) r(1) I(2)] by blast
  have "uint64_be pkt = Some ts" using F(2,3) inv by (intro uint64_be_stamp) (simp_all add: echo_inv_def)
  then have "echo_fetch e = Some (e\<lparr>e_dx := put_down (e_dx e) c, e_recv := pkt\<rparr>, Some ts)"
    by (intro echo_fetch_eq [OF F(1)]) simp
  then show ?thesis
    using inv F(3-6) r by (auto simp: echo_inv_def echo_ups_def echo_downs_def)
qed

lemma echo_polls:
  assumes inv: "echo_inv k B bsz e" and "echo_downs k B e = []"
  shows "\<exists>e'. echo_fetch e = Some (e', None) \<and> echo_inv k B bsz e' \<and> echo_ups k B e' = echo_ups k B e \<and> echo_downs k B e' = []"
proof -
  from assms have e: "falling k B (e_dx e) = []" and I: "loop_inv k B bsz (e_dx e)" by (simp_all add: echo_downs_def echo_inv_def)
  obtain c where "client_read (e_recv e) (down (e_dx e)) = Some (c, 0, None, e_recv e)" "loop_inv k B bsz (put_down (e_dx e) c)"
    "rising k B (put_down (e_dx e) c) = rising k B (e_dx e)" "falling k B (put_down (e_dx e) c) = []"
    using loop_poll [OF loop_facts(2) [OF I] e [unfolded falling_def] loop_facts(1,4,13) [OF I]] by blast
  then show ?thesis
    using echo_fetch_eq [of e c 0 None "e_recv e" None] inv by (auto simp: echo_inv_def echo_ups_def echo_downs_def)
qed

interpretation echo: loopback "echo_inv k B bsz" "echo_ups k B" "echo_downs k B" "2 ^ k"
  "echo_submit env" "echo_serve env" echo_fetch
  for k B bsz env
  by unfold_locales (rule echo_submits echo_serves echo_idles echo_fetches echo_polls; assumption)+

text \<open>From a fresh connection: the client's first read offers the buffers, then the invariant holds.\<close>

definition echo_start :: "byte list \<Rightarrow> port \<Rightarrow> queue \<Rightarrow> queue \<Rightarrow> port \<Rightarrow> queue \<Rightarrow> queue \<Rightarrow> trace \<Rightarrow> echo" where
  "echo_start d p txq rxq srv srx stx tr =
     \<lparr> e_dx = \<lparr> dx_mem = d, dx_client = p, dx_ctx = txq, dx_crx = rxq, dx_server = srv, dx_srx = srx, dx_stx = stx, dx_trace = tr \<rparr>,
       e_send = replicate 800 0, e_recv = replicate 2048 0, e_srv = replicate 2048 0 \<rparr>"

lemma echo_established:
  assumes "one_pair (p_run p) k" and "client_ready p k d qt qr" and "\<not> cfg_IsServer (p_cfg p)" and "\<not> p_QuitChan p"
    and "peer_queue srv sqr k 0 (length d)" and "peer_queue srv sqt k (ring_span k) (length d)"
    and bsz: "bsz = unat (PacketBufferSize (p_run p))" "800 \<le> bsz" "bsz \<le> 2048"
  shows "\<exists>e. echo_fetch (echo_start d p qt qr srv sqr sqt tr) = Some (e, None) \<and> echo_inv k (buffer_at (p_run p) k) bsz e \<and>
    echo_ups k (buffer_at (p_run p) k) e = [] \<and> echo_downs k (buffer_at (p_run p) k) e = []"
proof -
  let ?e = "echo_start d p qt qr srv sqr sqt tr" and ?B = "buffer_at (p_run p) k"
  let ?x = "e_dx ?e"
  have b: "unat (PacketBufferSize (p_run p)) < 65536" using bsz by simp
  note U = s2m_established [OF assms(1-3,5), of tr, folded bsz(1)] and D = m2s_established [OF assms(1-3,6) b, of tr, folded bsz(1)]
  have v: "up ?x = \<lparr> ch_mem = d, ch_client = p, ch_cq = qt, ch_server = srv, ch_sq = sqr, ch_trace = tr \<rparr>"
    "down ?x = \<lparr> ch_mem = d, ch_client = p, ch_cq = qr, ch_server = srv, ch_sq = sqt, ch_trace = tr \<rparr>"
    by (simp_all add: up_def down_def echo_start_def)
  have t: "tail_of (dx_mem ?x) (ring_span k) = tail_of (dx_mem ?x) 0" "\<not> p_QuitChan (dx_client ?x)"
    using assms(2,4) by (simp_all add: echo_start_def client_ready_def ring_ready_def)
  obtain c where C: "client_read (e_recv ?e) (down ?x) = Some (c, 0, None, e_recv ?e)" "loop_inv k ?B bsz (put_down ?x c)"
    "rising k ?B (put_down ?x c) = rising k ?B ?x" "falling k ?B (put_down ?x c) = []"
    using loop_poll [of k ?B bsz ?x "e_recv ?e"] U D t unfolding v by blast
  have "rising k ?B ?x = []" using U(2) by (simp add: rising_def v)
  then show ?thesis
    using C echo_fetch_eq [OF C(1), of None] bsz by (simp add: echo_inv_def echo_ups_def echo_downs_def) (simp add: echo_start_def)
qed

text \<open>Any interleaving of the three loops that respects the window, from a fresh connection.\<close>

lemma echo_runs:
  assumes "one_pair (p_run p) k" and "client_ready p k d qt qr" and "\<not> cfg_IsServer (p_cfg p)" and "\<not> p_QuitChan p"
    and "peer_queue srv sqr k 0 (length d)" and "peer_queue srv sqt k (ring_span k) (length d)"
    and "p_rxQueues srv = [sqr]" and "p_txQueues srv = [sqt]"
    and "800 \<le> unat (PacketBufferSize (p_run p))" and "unat (PacketBufferSize (p_run p)) \<le> 2048"
    and "within (2 ^ k) ops 0 0"
  shows "\<exists>e outs. echo_send_queue p = Some (Inr qt) \<and> echo_recv_queue p = Some (Inr qr) \<and>
    echo_server_queues srv = Some (Inr (sqr, sqt)) \<and>
    service_run (echo_submit env) (echo_serve env) echo_fetch (Fetch # ops) (echo_start d p qt qr srv sqr sqt tr) = Some (e, outs) \<and>
    loop_run ops [] [] = (echo_ups k (buffer_at (p_run p) k) e, echo_downs k (buffer_at (p_run p) k) e, outs) \<and>
    submitted ops = outs @ echo_downs k (buffer_at (p_run p) k) e @ echo_ups k (buffer_at (p_run p) k) e"
proof -
  obtain e0 where s: "echo_fetch (echo_start d p qt qr srv sqr sqt tr) = Some (e0, None)"
    "echo_inv k (buffer_at (p_run p) k) (unat (PacketBufferSize (p_run p))) e0"
    "echo_ups k (buffer_at (p_run p) k) e0 = []" "echo_downs k (buffer_at (p_run p) k) e0 = []"
    using echo_established [OF assms(1-6) refl assms(9,10)] by blast
  with echo.run_refines [OF s(2), of ops env] assms(11) obtain e outs where
    r: "service_run (echo_submit env) (echo_serve env) echo_fetch ops e0 = Some (e, outs)"
    "loop_run ops [] [] = (echo_ups k (buffer_at (p_run p) k) e, echo_downs k (buffer_at (p_run p) k) e, outs)" by auto
  have q: "p_txQueues p = [qt]" "p_rxQueues p = [qr]" using assms(2) by (simp_all add: client_ready_def)
  show ?thesis
    using s(1) r loop_run_order [OF r(2)] echo_queues(1) [OF q(1)] echo_queues(2) [OF q(2)] echo_queues(3) [OF assms(7,8)] by simp
qed

text \<open>Past the window: with every slot on its way back, the next send is accepted and its time stamp is
  what the client reads next, in place of the oldest one.\<close>

lemma echo_overrun_reads:
  assumes inv: "echo_inv k B bsz e" and full: "echo_downs k B e = old # rest" "length (echo_downs k B e) = 2 ^ k"
  shows "\<exists>e1 e2. echo_submit env now e = Some e1 \<and> echo_fetch e1 = Some (e2, Some now)"
proof -
  let ?x = "e_dx e"
  obtain ps where r: "falling k B ?x = stamp old # ps" using inv full(1) by (auto simp: echo_downs_def echo_inv_def elim: echo_first)
  have I: "loop_inv k B bsz ?x" "packet_ok bsz (stamp now)" "\<not> p_QuitChan (dx_client ?x)" "length (falling k B ?x) = 2 ^ k"
    and p: "putUint64 (e_send e) now = Some (stamp now)"
    using inv full(2) putUint64_stamp loop_facts(13) by (auto simp: echo_inv_def packet_ok_def echo_downs_def)
  obtain c where C: "client_write env (stamp now) (up ?x) = Some (c, int (length (stamp now)))"
    "m2s_inv k (ring_span k) B bsz (sync c (down ?x))" "m2s_contents k (ring_span k) B (sync c (down ?x)) = stamp now # ps"
    using loop_overrun [OF I(1) r I(4,2)] by auto
  let ?e = "e\<lparr>e_dx := put_up ?x c, e_send := stamp now\<rparr>"
  have b: "bsz \<le> length (e_recv ?e)" using inv by (simp add: echo_inv_def)
  obtain c' pkt where R: "client_read (e_recv ?e) (down (e_dx ?e)) = Some (c', int (length (stamp now)), None, pkt)"
    "take (length (stamp now)) pkt = stamp now" "length pkt = length (e_recv ?e)"
    using client_read_packet [OF C(2,3) b] by auto
  have "uint64_be pkt = Some now" using R(2,3) inv by (intro uint64_be_stamp) (simp_all add: echo_inv_def)
  then have "echo_fetch ?e = Some (?e\<lparr>e_dx := put_down (e_dx ?e) c', e_recv := pkt\<rparr>, Some now)"
    by (intro echo_fetch_eq [OF R(1)]) simp
  then show ?thesis using echo_submit_eq [OF C(1) p I(3)] by blast
qed

section \<open>Before the first read\<close>

text \<open>A fresh connection gives the server no buffers to write to. What it serves before the client's first read is
  taken from the ring and lost.\<close>

lemma echo_serve_drops:
  assumes s2m: "s2m_inv k 0 B bsz (up (e_dx e))" "s2m_contents k 0 B (up (e_dx e)) = [stamp ts]" and buf: "bsz \<le> length (e_srv e)"
    and m2s: "m2s_inv k (ring_span k) B bsz (down (e_dx e))" "m2s_contents k (ring_span k) B (down (e_dx e)) = []"
      "m2s_credit (ring_span k) (down (e_dx e)) = 0"
  shows "\<exists>e'. service_run (echo_submit env) (echo_serve env) echo_fetch [Serve, Fetch] e = Some (e', []) \<and>
    echo_ups k B e' = [] \<and> echo_downs k B e' = []"
proof -
  from loop_drop [OF s2m buf m2s, of env] obtain c buf' c' where
    R: "server_read (e_srv e) (up (e_dx e)) = Some (c, int (length (stamp ts)), None, buf')" "take (length (stamp ts)) buf' = stamp ts"
    "server_write env (stamp ts) (sync c (down (e_dx e))) = Some (c', 0)" "s2m_contents k 0 B c = []" "ch_mem c' = ch_mem c"
    "m2s_inv k (ring_span k) B bsz c'" "m2s_contents k (ring_span k) B c' = []" "wired k 0 B bsz c" by blast
  let ?x = "put_down (put_up (e_dx e) c) c'"
  let ?e = "e\<lparr>e_dx := ?x, e_srv := buf'\<rparr>"
  have e1: "echo_serve env e = Some ?e" using echo_serve_eq [OF R(1), of env c' 0] R(2,3) by simp
  have d: "m2s_inv k (ring_span k) B bsz (down ?x)" "m2s_contents k (ring_span k) B (down ?x) = []" using R(6,7) by simp_all
  from client_read_none [OF d, of "e_recv ?e"] obtain c4 where
    F: "client_read (e_recv ?e) (down ?x) = Some (c4, 0, None, e_recv ?e)" "m2s_contents k (ring_span k) B c4 = []"
      "kept k (ring_span k) (down ?x) c4" by blast
  have e2: "echo_fetch ?e = Some (?e\<lparr>e_dx := put_down ?x c4, e_recv := e_recv ?e\<rparr>, None)"
    using echo_fetch_eq [of ?e c4 0 None "e_recv ?e" None] F(1) by simp
  have "outside k (ring_span k) (ring_span k) 0 (ch_mem c) (ch_mem c4)" using F(3) R(5) by (simp add: kept_def)
  from ring_outside(1,2) [OF this wiredD(8) [OF R(8)]] R(4) have "s2m_contents k 0 B (up (put_down ?x c4)) = []"
    by (simp add: s2m_contents_def pend_def)
  then show ?thesis using e1 e2 F(2) by (simp add: echo_ups_def echo_downs_def rising_def falling_def)
qed

lemma echo_early_drop:
  assumes "one_pair (p_run p) k" and "client_ready p k d qt qr" and "\<not> cfg_IsServer (p_cfg p)" and "\<not> p_QuitChan p"
    and "peer_queue srv sqr k 0 (length d)" and "peer_queue srv sqt k (ring_span k) (length d)"
    and bsz: "800 \<le> unat (PacketBufferSize (p_run p))" "unat (PacketBufferSize (p_run p)) \<le> 2048"
  shows "\<exists>e. service_run (echo_submit env) (echo_serve env) echo_fetch [Submit ts, Serve, Fetch] (echo_start d p qt qr srv sqr sqt tr) =
      Some (e, []) \<and> echo_ups k (buffer_at (p_run p) k) e = [] \<and> echo_downs k (buffer_at (p_run p) k) e = []"
proof -
  let ?e = "echo_start d p qt qr srv sqr sqt tr" and ?B = "buffer_at (p_run p) k" and ?bsz = "unat (PacketBufferSize (p_run p))"
  let ?x = "e_dx ?e"
  have b: "?bsz < 65536" and ok: "packet_ok ?bsz (stamp ts)" using bsz by (simp_all add: packet_ok_def)
  note U = s2m_established [OF assms(1-3,5), of tr] and D = m2s_established [OF assms(1-3,6) b, of tr]
  have v: "up ?x = \<lparr> ch_mem = d, ch_client = p, ch_cq = qt, ch_server = srv, ch_sq = sqr, ch_trace = tr \<rparr>"
    "down ?x = \<lparr> ch_mem = d, ch_client = p, ch_cq = qr, ch_server = srv, ch_sq = sqt, ch_trace = tr \<rparr>"
    by (simp_all add: up_def down_def echo_start_def)
  note U = U [folded v(1)] and D = D [folded v(2)]
  have q: "\<not> p_QuitChan (dx_client ?x)" "putUint64 (e_send ?e) ts = Some (stamp ts)"
    using assms(4) putUint64_stamp by (simp_all add: echo_start_def)
  obtain c b' where C: "client_write env (stamp ts) (up ?x) = Some (c, int (length (stamp ts)))" "s2m_inv k 0 ?B ?bsz c"
    "s2m_contents k 0 ?B c = [stamp ts]" "wrote k 0 (?B b') (stamp ts) (up ?x) c" "b' < 2 ^ k"
    using client_write_accept [OF U(1) ok, of env] U(2) by fastforce
  let ?x1 = "put_up ?x c"
  have w: "wired k 0 ?B ?bsz c" using C(2) by (simp add: s2m_inv_def)
  have out: "outside k 0 (?B b') 800 (ch_mem (down ?x)) (ch_mem c)" using C(4) by (simp add: wrote_def)
  have "slots_ok k (ring_span k) ?B ?bsz (length (ch_mem (down ?x)))" using D(1) wiredD(8) unfolding m2s_inv_def by blast
  from slots_okD(6) [OF this C(5)] have buf: "ring_span k + ring_span k \<le> ?B b' \<or> ?B b' + 800 \<le> ring_span k" using bsz(1) by auto
  note S = sync_m2s [OF D(1) w out rings_apart(1) buf]
  have "m2s_contents k (ring_span k) ?B (sync c (down ?x)) = []"
    using S(4) D(2) by (auto simp: m2s_contents_def pend_def)
  then have d1: "m2s_inv k (ring_span k) ?B ?bsz (down ?x1)" "m2s_contents k (ring_span k) ?B (down ?x1) = []" "m2s_credit (ring_span k) (down ?x1) = 0"
    using S(1,3) D(3) by simp_all
  have e1: "echo_submit env ts ?e = Some (?e\<lparr>e_dx := ?x1, e_send := stamp ts\<rparr>)" by (rule echo_submit_eq [OF C(1) q(2,1)])
  have u1: "s2m_inv k 0 ?B ?bsz (up ?x1)" "s2m_contents k 0 ?B (up ?x1) = [stamp ts]" using C(2,3) by simp_all
  have "?bsz \<le> length (e_srv (?e\<lparr>e_dx := ?x1, e_send := stamp ts\<rparr>))" using bsz(2) by (simp add: echo_start_def)
  with echo_serve_drops [of k ?B ?bsz "?e\<lparr>e_dx := ?x1, e_send := stamp ts\<rparr>" ts env] u1 d1 e1 show ?thesis by auto
qed

end
