(* ===== verification/Programs.thy ===== *)
theory Programs
  imports Echo Socket
begin

text \<open>
  The main programs of the examples and the traffic generators (\<^verbatim>\<open>src/example\<close>): creation of the socket
  and its ports, the threads that send and receive packets, the loop that reports. A program that ends with
  \<open>logrus.Fatal\<close> is \<open>Inl\<close> with the message; the \<open>Connected\<close> callbacks only start the threads and return no
  error, which is what \<open>connectedFunc\<close> of the environment says.
\<close>

section \<open>Main programs\<close>

definition program_cfg :: "u32 \<Rightarrow> string \<Rightarrow> bool \<Rightarrow> u16 \<Rightarrow> nat option \<Rightarrow> PortCfg" where
  "program_cfg ident name isServer queueNum ext =
     \<lparr> cfg_Id = ident, cfg_IsServer = isServer, cfg_Name = name, cfg_Secret = replicate 24 0,
       cfg_MemoryConfig = \<lparr> NumQueuePairs = queueNum, Log2RingSize = 0, PacketBufferSize = 0 \<rparr>,
       cfg_ConnectedFunc = UserFunc, cfg_DisconnectedFunc = NilFunc, cfg_ExtendData = ext \<rparr>"

definition new_socket :: "env \<Rightarrow> trace \<Rightarrow> string \<Rightarrow> (error + socket) option" where
  "new_socket env tr socketName = do {
     (r, tr1) \<leftarrow> NewSocket env tr ''foo'' socketName;
     Some (case r of Inl e \<Rightarrow> Inl (''create socket failed: %v'' @ e) | Inr s \<Rightarrow> Inr s) }"

text \<open>The ports of the configurations, one after the other; the first failure ends the program.\<close>

fun create_ports :: "env \<Rightarrow> PortCfg list \<Rightarrow> socket \<Rightarrow> (error + socket) option" where
  "create_ports env [] s = Some (Inr s)"
| "create_ports env (cfg # cfgs) s = do {
     (r, s1) \<leftarrow> NewPort env cfg s;
     (case r of Inl e \<Rightarrow> Some (Inl e) | Inr i \<Rightarrow> create_ports env cfgs s1) }"

definition program :: "PortCfg list \<Rightarrow> env \<Rightarrow> trace \<Rightarrow> string \<Rightarrow> (error + socket) option" where
  "program cfgs env tr socketName = do {
     r \<leftarrow> new_socket env tr socketName;
     (case r of
        Inl e \<Rightarrow> Some (Inl e)
      | Inr s \<Rightarrow> do {
          r1 \<leftarrow> create_ports env cfgs s;
          Some (case r1 of Inl e \<Rightarrow> Inl e | Inr s1 \<Rightarrow> Inr (StartPolling s1)) }) }"

definition echo_client_main :: "env \<Rightarrow> trace \<Rightarrow> string \<Rightarrow> (error + socket) option" where
  "echo_client_main = program [program_cfg 0 ''memif_c0'' False 1 None]"

definition echo_server_main :: "env \<Rightarrow> trace \<Rightarrow> string \<Rightarrow> (error + socket) option" where
  "echo_server_main = program [program_cfg 0 ''memif0'' True 1 None]"

definition traffic_cfgs :: "u16 \<Rightarrow> u32 \<Rightarrow> bool \<Rightarrow> PortCfg list" where
  "traffic_cfgs queueNum portNum serverMode =
     map (\<lambda>i. program_cfg (of_nat i) (''memif_s'' @ itoa (int i)) serverMode queueNum (Some 0)) [0..<unat portNum]"

definition bw_sender_main :: "env \<Rightarrow> trace \<Rightarrow> string \<Rightarrow> (error + socket) option" where
  "bw_sender_main = program (traffic_cfgs 2 16 False)"

definition bw_reciever_main :: "env \<Rightarrow> trace \<Rightarrow> string \<Rightarrow> (error + socket) option" where
  "bw_reciever_main = program (traffic_cfgs 2 16 True)"

definition dpdk_sender_main :: "env \<Rightarrow> trace \<Rightarrow> string \<Rightarrow> (error + socket) option" where
  "dpdk_sender_main = program (traffic_cfgs 1 16 False)"

definition dpdk_reciever_main :: "env \<Rightarrow> trace \<Rightarrow> string \<Rightarrow> (error + socket) option" where
  "dpdk_reciever_main = program (traffic_cfgs 1 16 False)"

text \<open>The main loop. An error of the polling goroutine ends the program. Otherwise the traffic programs load the
  counter and report it, and then store 0 in it: two atomic operations, between which the threads may count.
  The state is where the loop stands; the result is where it stands next, the report and the new counter.\<close>

datatype main_at = AtSelect | AtStore

definition echo_main_loop :: "socket \<Rightarrow> error + unit" where
  "echo_main_loop s = (case s_ErrChan s of e # es \<Rightarrow> Inl e | [] \<Rightarrow> Inr ())"

fun main_loop :: "error list \<Rightarrow> main_at \<Rightarrow> u64 \<Rightarrow> error + main_at \<times> u64 list \<times> u64" where
  "main_loop ErrChan AtSelect pktCnt = (case ErrChan of e # es \<Rightarrow> Inl e | [] \<Rightarrow> Inr (AtStore, [pktCnt], pktCnt))"
| "main_loop ErrChan AtStore pktCnt = Inr (AtSelect, [], 0)"

text \<open>The configurations of the ports in the socket's list.\<close>

definition port_cfgs :: "socket \<Rightarrow> PortCfg option list" where
  "port_cfgs s = map (\<lambda>i. map_option p_cfg (s_ports s i)) (s_portList s)"

lemma create_ports_outcome:
  assumes "sock_ok s"
  shows "\<exists>r. create_ports env cfgs s = Some r \<and>
    (\<forall>s'. r = Inr s' \<longrightarrow> sock_ok s' \<and> port_cfgs s' = port_cfgs s @ map (Some \<circ> default_cfg) cfgs)"
  using assms
proof (induction cfgs arbitrary: s)
  case (Cons cfg cfgs)
  obtain r s1 where n: "NewPort env cfg s = Some (r, s1)" "sock_ok s1" using NewPort_total [OF Cons.prems] by blast
  show ?case
  proof (cases r)
    case (Inr i)
    note E = NewPort_extends [OF Cons.prems n(1) [unfolded Inr]]
    have "port_cfgs s1 = port_cfgs s @ [Some (default_cfg cfg)]" by (simp add: port_cfgs_def E)
    then show ?thesis using Cons.IH [OF n(2)] n(1) Inr by auto
  qed (use n in simp)
qed simp

lemma program_outcome:
  "\<exists>r. program cfgs env tr name = Some r \<and>
    (\<forall>s. r = Inr s \<longrightarrow> sock_ok s \<and> port_cfgs s = map (Some \<circ> default_cfg) cfgs \<and> s_stopPollChan s = Some False)"
proof -
  have "\<exists>r. new_socket env tr name = Some r \<and> (\<forall>s. r = Inr s \<longrightarrow> sock_ok s \<and> port_cfgs s = [])"
    by (auto simp: new_socket_def NewSocket_def addEvent_def Let_def sock_ok_def port_cfgs_def split: prod.splits option.splits)
  then obtain r where r: "new_socket env tr name = Some r" "\<And>s. r = Inr s \<Longrightarrow> sock_ok s \<and> port_cfgs s = []" by blast
  show ?thesis
  proof (cases r)
    case (Inr s)
    with r(2) have s: "sock_ok s" "port_cfgs s = []" by simp_all
    obtain r1 where c: "create_ports env cfgs s = Some r1"
      "\<And>s'. r1 = Inr s' \<Longrightarrow> sock_ok s' \<and> port_cfgs s' = map (Some \<circ> default_cfg) cfgs"
      using create_ports_outcome [OF s(1), of env cfgs] s(2) by auto
    have "role_of (StartPolling s1) = role_of s1" for s1 by (rule ext) (simp add: StartPolling_def role_of_def)
    then have "sock_ok (StartPolling s1) = sock_ok s1" "port_cfgs (StartPolling s1) = port_cfgs s1" for s1
      by (simp_all add: sock_ok_def port_cfgs_def cc_ok_def port_ok_def) (simp_all add: StartPolling_def)
    then show ?thesis using r(1) c Inr by (cases r1) (auto simp: program_def StartPolling_def)
  qed (use r(1) in \<open>simp add: program_def\<close>)
qed

text \<open>A program that has set up ports 0 to 15 with the given role and queue pairs, or ended with an error.\<close>

definition ports_ready :: "u16 \<Rightarrow> bool \<Rightarrow> (error + socket) option \<Rightarrow> bool" where
  "ports_ready queueNum serverMode r =
     (case r of
        None \<Rightarrow> False
      | Some (Inl err) \<Rightarrow> True
      | Some (Inr s) \<Rightarrow> sock_ok s \<and> s_stopPollChan s = Some False \<and>
          map (map_option (\<lambda>c. (cfg_Id c, cfg_IsServer c, cfg_MemoryConfig c))) (port_cfgs s) =
          map (\<lambda>i. Some (of_nat i, serverMode, \<lparr> NumQueuePairs = queueNum, Log2RingSize = DefaultLog2RingSize,
                 PacketBufferSize = DefaultPacketBufferSize \<rparr>)) [0..<16])"

lemma traffic_ports_ready:
  assumes "queueNum \<noteq> 0"
  shows "ports_ready queueNum serverMode (program (traffic_cfgs queueNum 16 serverMode) env tr name)"
proof -
  obtain r where r: "program (traffic_cfgs queueNum 16 serverMode) env tr name = Some r"
    "\<And>s. r = Inr s \<Longrightarrow> sock_ok s \<and> port_cfgs s = map (Some \<circ> default_cfg) (traffic_cfgs queueNum 16 serverMode) \<and> s_stopPollChan s = Some False"
    using program_outcome [of "traffic_cfgs queueNum 16 serverMode" env tr name] by blast
  have "map (map_option (\<lambda>c. (cfg_Id c, cfg_IsServer c, cfg_MemoryConfig c))) (map (Some \<circ> default_cfg) (traffic_cfgs queueNum 16 serverMode)) =
    map (\<lambda>i. Some (of_nat i, serverMode, \<lparr> NumQueuePairs = queueNum, Log2RingSize = DefaultLog2RingSize,
                 PacketBufferSize = DefaultPacketBufferSize \<rparr>)) [0..<16]"
    using assms by (simp add: traffic_cfgs_def program_cfg_def default_cfg_def default_memory_def comp_def del: upt_Suc)
  then show ?thesis using r by (cases r) (simp_all add: ports_ready_def)
qed

section \<open>Threads\<close>

text \<open>One iteration of the sending and of the receiving thread up to the test of the result, on the port and a
  queue: is there a packet to count? \<open>Some None\<close>: the loop has ended. The counting, an atomic operation of its
  own, is \<open>count_packet\<close>. The programs of \<^verbatim>\<open>src/example/dpdk_co_worker\<close> have the same threads.\<close>

definition bw_sendpkt :: "env \<Rightarrow> port \<Rightarrow> queue \<Rightarrow> trace \<Rightarrow> (port \<times> bool \<times> trace) option option" where
  "bw_sendpkt env p txq tr =
     (if p_QuitChan p then Some None
      else do {
        (s, p', tr') \<leftarrow> WritePacket env p txq (replicate 64 0) tr;
        Some (Some (p', 0 < s, tr')) })"

definition bw_recvpkt :: "port \<Rightarrow> queue \<Rightarrow> byte list \<Rightarrow> (byte list \<times> queue \<times> port \<times> bool) option" where
  "bw_recvpkt p rxq pkt = do {
     (pktLen, err, pkt', rxq', p') \<leftarrow> ReadPacket p rxq pkt;
     Some (pkt', rxq', p', 0 < pktLen) }"

definition count_packet :: "u64 \<Rightarrow> u64" where "count_packet pktCnt = pktCnt + 1"

definition dpdk_sendpkt :: "env \<Rightarrow> port \<Rightarrow> queue \<Rightarrow> trace \<Rightarrow> (port \<times> bool \<times> trace) option option" where
  "dpdk_sendpkt = bw_sendpkt"

definition dpdk_recvpkt :: "port \<Rightarrow> queue \<Rightarrow> byte list \<Rightarrow> (byte list \<times> queue \<times> port \<times> bool) option" where
  "dpdk_recvpkt = bw_recvpkt"

text \<open>The queue a thread looks up when it starts, and the threads \<open>Connected\<close> starts: the senders one for each
  queue, the receivers as many, but all on queue 0.\<close>

definition bw_send_queue :: "port \<Rightarrow> int \<Rightarrow> (error + queue) option" where
  "bw_send_queue p qid = or_fatal ''Get TX-Queue failed.'' (GetTxQueue p qid)"

definition bw_recv_queue :: "port \<Rightarrow> int \<Rightarrow> (error + queue) option" where
  "bw_recv_queue p qid = or_fatal ''Get RX-Queue failed.'' (GetRxQueue p qid)"

definition bw_sender_Connected :: "port \<Rightarrow> (error + queue) option list" where
  "bw_sender_Connected p = map (\<lambda>i. bw_send_queue p (int i)) [0..<2]"

definition bw_reciever_Connected :: "port \<Rightarrow> (error + queue) option list" where
  "bw_reciever_Connected p = map (\<lambda>i. bw_recv_queue p 0) [0..<2]"

definition dpdk_sender_Connected :: "port \<Rightarrow> (error + queue) option list" where
  "dpdk_sender_Connected p = map (\<lambda>i. bw_send_queue p (int i)) [0..<1]"

definition dpdk_reciever_Connected :: "port \<Rightarrow> (error + queue) option list" where
  "dpdk_reciever_Connected p = map (\<lambda>i. bw_recv_queue p 0) [0..<1]"

text \<open>All receivers of the bandwidth test share the first queue; a second one is read by nobody.\<close>

lemma traffic_threads:
  "p_txQueues p = [q1, q2] \<Longrightarrow> bw_sender_Connected p = [Some (Inr q1), Some (Inr q2)]"
  "p_rxQueues p = q1 # qs \<Longrightarrow> bw_reciever_Connected p = [Some (Inr q1), Some (Inr q1)]"
  "p_txQueues p = q1 # qs \<Longrightarrow> dpdk_sender_Connected p = [Some (Inr q1)]"
  "p_rxQueues p = q1 # qs \<Longrightarrow> dpdk_reciever_Connected p = [Some (Inr q1)]"
  by (simp_all add: bw_sender_Connected_def bw_reciever_Connected_def dpdk_sender_Connected_def dpdk_reciever_Connected_def
      bw_send_queue_def bw_recv_queue_def or_fatal_def GetTxQueue_def GetRxQueue_def get_queue_def go_nth_def numeral_2_eq_2)

end
