(* ===== verification/Traffic.thy ===== *)
theory Traffic
  imports Programs
begin

text \<open>
  Traffic between two programs: a sending program with one queue pair per port
  (\<^verbatim>\<open>src/example/dpdk_co_worker/sender\<close>) as the client and the receiving program of
  \<^verbatim>\<open>src/example/bw_test/reciever\<close> as the server. Each port has one sending thread and two receiving threads, which
  share the receive queue and have a slice each; all threads of a program share its packet counter, which its
  main loop reads and resets. The operations on a ring are taken as atomic; the operations on a counter are
  steps of their own. A tally of numbers says what the counters and reports are.
\<close>

section \<open>The two programs\<close>

text \<open>A main program: the errors in \<open>ErrChan\<close>, its counter, where its main loop stands, what it has reported.\<close>

record meter =
  mt_ErrChan :: "error list"
  mt_pktCnt :: u64
  mt_at :: main_at
  mt_log :: "u64 list"

text \<open>A pair of connected ports with its threads: the flag is set while a thread has a packet to count.\<close>

record flow =
  fl_chan :: channel
  fl_sender :: bool
  fl_readers :: "(byte list \<times> bool) list"

record traffic =
  t_flows :: "flow list"
  t_tx :: meter
  t_rx :: meter

definition flow_send :: "env \<Rightarrow> flow \<Rightarrow> meter \<Rightarrow> (flow \<times> meter) option" where
  "flow_send env f m =
     (if fl_sender f then Some (f\<lparr>fl_sender := False\<rparr>, m\<lparr>mt_pktCnt := count_packet (mt_pktCnt m)\<rparr>)
      else let c = fl_chan f in do {
        r \<leftarrow> dpdk_sendpkt env (with_mem (ch_client c) (ch_mem c)) (ch_cq c) (ch_trace c);
        (case r of
           None \<Rightarrow> Some (f, m)
         | Some (p, counts, tr) \<Rightarrow> do {
             mem \<leftarrow> region_data p 0;
             Some (f\<lparr>fl_chan := c\<lparr>ch_mem := mem, ch_client := p, ch_trace := tr\<rparr>, fl_sender := counts\<rparr>, m) }) })"

definition flow_recv :: "nat \<Rightarrow> flow \<Rightarrow> meter \<Rightarrow> (flow \<times> meter) option" where
  "flow_recv j f m =
     (case fl_readers f ! j of
        (pkt, True) \<Rightarrow> Some (f\<lparr>fl_readers := (fl_readers f)[j := (pkt, False)]\<rparr>, m\<lparr>mt_pktCnt := count_packet (mt_pktCnt m)\<rparr>)
      | (pkt, False) \<Rightarrow> let c = fl_chan f in do {
          (pkt', q, p, counts) \<leftarrow> bw_recvpkt (with_mem (ch_server c) (ch_mem c)) (ch_sq c) pkt;
          mem \<leftarrow> region_data p 0;
          Some (f\<lparr>fl_chan := c\<lparr>ch_mem := mem, ch_server := p, ch_sq := q\<rparr>, fl_readers := (fl_readers f)[j := (pkt', counts)]\<rparr>, m) })"

definition meter_main :: "meter \<Rightarrow> meter option" where
  "meter_main m =
     (case main_loop (mt_ErrChan m) (mt_at m) (mt_pktCnt m) of
        Inl e \<Rightarrow> None
      | Inr (at, reports, cnt) \<Rightarrow> Some (m\<lparr>mt_at := at, mt_log := mt_log m @ reports, mt_pktCnt := cnt\<rparr>))"

text \<open>A step of the sending thread of port \<open>i\<close>, of receiving thread \<open>j\<close> of port \<open>i\<close>, of a main loop; \<open>None\<close> if
  it panics, there is no such thread or the program has ended with an error.\<close>

datatype traffic_op = Sender nat | Receiver nat nat | SenderMain | ReceiverMain

fun traffic_step :: "env \<Rightarrow> traffic_op \<Rightarrow> traffic \<Rightarrow> traffic option" where
  "traffic_step env (Sender i) t =
     (if i < length (t_flows t)
      then do { (f, m) \<leftarrow> flow_send env (t_flows t ! i) (t_tx t); Some (t\<lparr>t_flows := (t_flows t)[i := f], t_tx := m\<rparr>) }
      else None)"
| "traffic_step env (Receiver i j) t =
     (if i < length (t_flows t) \<and> j < length (fl_readers (t_flows t ! i))
      then do { (f, m) \<leftarrow> flow_recv j (t_flows t ! i) (t_rx t); Some (t\<lparr>t_flows := (t_flows t)[i := f], t_rx := m\<rparr>) }
      else None)"
| "traffic_step env SenderMain t = do { m \<leftarrow> meter_main (t_tx t); Some (t\<lparr>t_tx := m\<rparr>) }"
| "traffic_step env ReceiverMain t = do { m \<leftarrow> meter_main (t_rx t); Some (t\<lparr>t_rx := m\<rparr>) }"

fun traffic_run :: "env \<Rightarrow> traffic_op list \<Rightarrow> traffic \<Rightarrow> traffic option" where
  "traffic_run env [] t = Some t"
| "traffic_run env (op # ops) t = Option.bind (traffic_step env op t) (traffic_run env ops)"

text \<open>The start: the threads that the \<open>Connected\<close> callbacks of the two ports over the memory \<open>d\<close> start.\<close>

definition flow_start :: "byte list \<times> port \<times> port \<Rightarrow> flow option" where
  "flow_start x = (case x of (d, p, srv) \<Rightarrow>
     (case (dpdk_sender_Connected p, bw_reciever_Connected srv) of
        ([Some (Inr txq)], Some (Inr rxq) # ts) \<Rightarrow>
          Some \<lparr> fl_chan = \<lparr> ch_mem = d, ch_client = p, ch_cq = txq, ch_server = srv, ch_sq = rxq, ch_trace = [] \<rparr>,
                 fl_sender = False, fl_readers = map (\<lambda>_. (replicate 2048 0, False)) (Some (Inr rxq) # ts) \<rparr>
      | _ \<Rightarrow> None))"

definition meter_start :: meter where
  "meter_start = \<lparr> mt_ErrChan = [], mt_pktCnt = 0, mt_at = AtSelect, mt_log = [] \<rparr>"

definition traffic_start :: "(byte list \<times> port \<times> port) list \<Rightarrow> traffic option" where
  "traffic_start ports = map_option (\<lambda>fs. \<lparr> t_flows = fs, t_tx = meter_start, t_rx = meter_start \<rparr>) (those (map flow_start ports))"

section \<open>The tally\<close>

text \<open>The specification, in numbers. A program: what its counter stands at, how much of that was counted since
  the last report, the reports, and what a reset discarded before it was reported. A port: the packets in flight,
  whether its sender and its receivers have a packet to count.\<close>

record nmeter =
  nm_count :: nat
  nm_unreported :: nat
  nm_at :: main_at
  nm_log :: "nat list"
  nm_lost :: nat

record nflow =
  nf_inflight :: nat
  nf_sender :: bool
  nf_readers :: "bool list"

record tally =
  ty_flows :: "nflow list"
  ty_tx :: nmeter
  ty_rx :: nmeter

definition nm_add :: "nmeter \<Rightarrow> nmeter" where
  "nm_add m = m\<lparr>nm_count := nm_count m + 1, nm_unreported := nm_unreported m + 1\<rparr>"

definition nm_main :: "nmeter \<Rightarrow> nmeter" where
  "nm_main m =
     (case nm_at m of
        AtSelect \<Rightarrow> m\<lparr>nm_at := AtStore, nm_log := nm_log m @ [nm_count m], nm_unreported := 0\<rparr>
      | AtStore \<Rightarrow> m\<lparr>nm_at := AtSelect, nm_count := 0, nm_unreported := 0, nm_lost := nm_lost m + nm_unreported m\<rparr>)"

fun tally_step :: "nat \<Rightarrow> traffic_op \<Rightarrow> tally \<Rightarrow> tally" where
  "tally_step cap (Sender i) a = (let f = ty_flows a ! i in
     if nf_sender f then a\<lparr>ty_flows := (ty_flows a)[i := f\<lparr>nf_sender := False\<rparr>], ty_tx := nm_add (ty_tx a)\<rparr>
     else if nf_inflight f < cap then a\<lparr>ty_flows := (ty_flows a)[i := f\<lparr>nf_inflight := nf_inflight f + 1, nf_sender := True\<rparr>]\<rparr>
     else a)"
| "tally_step cap (Receiver i j) a = (let f = ty_flows a ! i in
     if nf_readers f ! j then a\<lparr>ty_flows := (ty_flows a)[i := f\<lparr>nf_readers := (nf_readers f)[j := False]\<rparr>], ty_rx := nm_add (ty_rx a)\<rparr>
     else if 0 < nf_inflight f
     then a\<lparr>ty_flows := (ty_flows a)[i := f\<lparr>nf_inflight := nf_inflight f - 1, nf_readers := (nf_readers f)[j := True]\<rparr>]\<rparr>
     else a)"
| "tally_step cap SenderMain a = a\<lparr>ty_tx := nm_main (ty_tx a)\<rparr>"
| "tally_step cap ReceiverMain a = a\<lparr>ty_rx := nm_main (ty_rx a)\<rparr>"

definition tally_run :: "nat \<Rightarrow> traffic_op list \<Rightarrow> tally \<Rightarrow> tally" where
  "tally_run cap ops a = fold (tally_step cap) ops a"

definition nmeter_start :: nmeter where
  "nmeter_start = \<lparr> nm_count = 0, nm_unreported = 0, nm_at = AtSelect, nm_log = [], nm_lost = 0 \<rparr>"

definition tally_start :: "nat \<Rightarrow> tally" where
  "tally_start n = \<lparr> ty_flows = replicate n \<lparr> nf_inflight = 0, nf_sender = False, nf_readers = [False, False] \<rparr>,
     ty_tx = nmeter_start, ty_rx = nmeter_start \<rparr>"

text \<open>The threads there are.\<close>

fun traffic_op_ok :: "nat \<Rightarrow> traffic_op \<Rightarrow> bool" where
  "traffic_op_ok n (Sender i) \<longleftrightarrow> i < n"
| "traffic_op_ok n (Receiver i j) \<longleftrightarrow> i < n \<and> j < 2"
| "traffic_op_ok n SenderMain \<longleftrightarrow> True"
| "traffic_op_ok n ReceiverMain \<longleftrightarrow> True"

subsection \<open>Nothing is counted twice\<close>

text \<open>All a program has counted, reported or not; the packets that the receivers have yet to count and the
  sender has counted.\<close>

definition nm_total :: "nmeter \<Rightarrow> nat" where
  "nm_total m = sum_list (nm_log m) + nm_lost m + nm_unreported m"

definition nf_open :: "nflow \<Rightarrow> int" where
  "nf_open f = int (nf_inflight f) + (\<Sum>b\<leftarrow>nf_readers f. of_bool b) - of_bool (nf_sender f)"

definition nm_ok :: "nmeter \<Rightarrow> bool" where
  "nm_ok m \<longleftrightarrow> nm_at m = AtStore \<or> nm_unreported m = nm_count m"

definition tally_ok :: "nat \<Rightarrow> nat \<Rightarrow> tally \<Rightarrow> bool" where
  "tally_ok cap n a \<longleftrightarrow> length (ty_flows a) = n \<and> (\<forall>f\<in>set (ty_flows a). length (nf_readers f) = 2 \<and> nf_inflight f \<le> cap) \<and>
     nm_ok (ty_tx a) \<and> nm_ok (ty_rx a) \<and>
     int (nm_total (ty_tx a)) = int (nm_total (ty_rx a)) + (\<Sum>f\<leftarrow>ty_flows a. nf_open f)"

lemma sum_list_set:
  fixes g :: "'a \<Rightarrow> int"
  assumes "i < length xs"
  shows "(\<Sum>x\<leftarrow>xs[i := y]. g x) = (\<Sum>x\<leftarrow>xs. g x) + g y - g (xs ! i)"
  using assms by (induction xs arbitrary: i) (auto simp: less_Suc_eq_0_disj split: nat.splits)

lemma nm_total_simps [simp]:
  "nm_total (nm_add m) = nm_total m + 1" "nm_ok m \<Longrightarrow> nm_total (nm_main m) = nm_total m"
  "nm_ok m \<Longrightarrow> nm_ok (nm_add m)" "nm_ok (nm_main m)"
  by (auto simp: nm_total_def nm_ok_def nm_add_def nm_main_def split: main_at.splits)

lemma tally_ok_set:
  assumes "tally_ok cap n a" and "i < n" and "length (nf_readers f) = 2" "nf_inflight f \<le> cap" and "nm_ok tx" "nm_ok rx"
    and "int (nm_total tx) - int (nm_total (ty_tx a)) = int (nm_total rx) - int (nm_total (ty_rx a)) + (nf_open f - nf_open (ty_flows a ! i))"
  shows "tally_ok cap n (a\<lparr>ty_flows := (ty_flows a)[i := f], ty_tx := tx, ty_rx := rx\<rparr>)"
  using assms by (auto simp: tally_ok_def sum_list_set dest: set_update_subset_insert [THEN subsetD])

lemma tally_step_ok:
  assumes ok: "tally_ok cap n a" and op: "traffic_op_ok n op"
  shows "tally_ok cap n (tally_step cap op a)"
proof (cases op)
  case (Sender i)
  let ?f = "ty_flows a ! i"
  have i: "i < n" and f: "length (nf_readers ?f) = 2" "nf_inflight ?f \<le> cap" "nm_ok (ty_tx a)" "nm_ok (ty_rx a)"
    using ok op Sender by (auto simp: tally_ok_def)
  note S = tally_ok_set [OF ok i]
  show ?thesis
    using S [of "?f\<lparr>nf_sender := False\<rparr>" "nm_add (ty_tx a)" "ty_rx a"]
      S [of "?f\<lparr>nf_inflight := nf_inflight ?f + 1, nf_sender := True\<rparr>" "ty_tx a" "ty_rx a"] f ok
    by (auto simp: Sender Let_def nf_open_def)
next
  case (Receiver i j)
  let ?f = "ty_flows a ! i"
  have i: "i < n" and f: "length (nf_readers ?f) = 2" "nf_inflight ?f \<le> cap" "nm_ok (ty_tx a)" "nm_ok (ty_rx a)" and j: "j < length (nf_readers ?f)"
    using ok op Receiver by (auto simp: tally_ok_def)
  note S = tally_ok_set [OF ok i]
  show ?thesis
    using S [of "?f\<lparr>nf_readers := (nf_readers ?f)[j := False]\<rparr>" "ty_tx a" "nm_add (ty_rx a)"]
      S [of "?f\<lparr>nf_inflight := nf_inflight ?f - 1, nf_readers := (nf_readers ?f)[j := True]\<rparr>" "ty_tx a" "ty_rx a"] f ok
    by (auto simp: Receiver Let_def nf_open_def sum_list_set [OF j])
qed (use ok in \<open>simp_all add: tally_ok_def\<close>)

lemma tally_run_ok:
  assumes "tally_ok cap n a" and "list_all (traffic_op_ok n) ops"
  shows "tally_ok cap n (tally_run cap ops a)"
  using assms by (induction ops arbitrary: a) (simp_all add: tally_run_def tally_step_ok)

lemma tally_start_ok: "tally_ok cap n (tally_start n)"
  by (induction n) (simp_all add: tally_ok_def tally_start_def nmeter_start_def nm_ok_def nm_total_def nf_open_def sum_list_replicate)

section \<open>The programs follow the tally\<close>

definition meter_ok :: "meter \<Rightarrow> nmeter \<Rightarrow> bool" where
  "meter_ok m a \<longleftrightarrow> mt_ErrChan m = [] \<and> mt_pktCnt m = of_nat (nm_count a) \<and> mt_at m = nm_at a \<and> mt_log m = map of_nat (nm_log a)"

definition flow_ok :: "nat \<Rightarrow> (nat \<Rightarrow> nat) \<Rightarrow> nat \<Rightarrow> flow \<Rightarrow> nflow \<Rightarrow> bool" where
  "flow_ok k B bsz f a \<longleftrightarrow> s2m_inv k 0 B bsz (fl_chan f) \<and> \<not> p_QuitChan (ch_client (fl_chan f)) \<and>
     64 \<le> bsz \<and> bsz \<le> 2048 \<and> list_all (\<lambda>(pkt, _). length pkt = 2048) (fl_readers f) \<and>
     nf_inflight a = length (s2m_contents k 0 B (fl_chan f)) \<and> nf_sender a = fl_sender f \<and> nf_readers a = map snd (fl_readers f)"

definition traffic_ok :: "nat \<Rightarrow> (nat \<Rightarrow> nat) \<Rightarrow> nat \<Rightarrow> traffic \<Rightarrow> tally \<Rightarrow> bool" where
  "traffic_ok k B bsz t a \<longleftrightarrow> list_all2 (flow_ok k B bsz) (t_flows t) (ty_flows a) \<and> meter_ok (t_tx t) (ty_tx a) \<and> meter_ok (t_rx t) (ty_rx a)"

lemma meter_ok_add: "meter_ok m a \<Longrightarrow> meter_ok (m\<lparr>mt_pktCnt := count_packet (mt_pktCnt m)\<rparr>) (nm_add a)"
  by (simp add: meter_ok_def count_packet_def nm_add_def add.commute)

lemma meter_ok_main: "meter_ok m a \<Longrightarrow> \<exists>m'. meter_main m = Some m' \<and> meter_ok m' (nm_main a)"
  by (cases "mt_at m") (auto simp: meter_ok_def meter_main_def nm_main_def)

text \<open>A thread that does not count runs its loop body on the ring.\<close>

lemma flow_send_eq:
  assumes "client_write env (replicate 64 0) (fl_chan f) = Some (c, n)" and "\<not> p_QuitChan (ch_client (fl_chan f))" and "\<not> fl_sender f"
  shows "flow_send env f m = Some (f\<lparr>fl_chan := c, fl_sender := 0 < n\<rparr>, m)"
  using assms by (auto simp: flow_send_def dpdk_sendpkt_def bw_sendpkt_def client_write_def bind_eq_Some_conv)

lemma flow_recv_eq:
  assumes "server_read buf (fl_chan f) = Some (c, n, err, pkt)" and "fl_readers f ! j = (buf, False)"
  shows "flow_recv j f m = Some (f\<lparr>fl_chan := c, fl_readers := (fl_readers f)[j := (pkt, 0 < n)]\<rparr>, m)"
  using assms by (auto simp: flow_recv_def bw_recvpkt_def server_read_def bind_eq_Some_conv)

lemma flow_send_step:
  assumes ok: "flow_ok k B bsz f a" "meter_ok m x"
  shows "\<exists>f' m'. flow_send env f m = Some (f', m') \<and>
    (if nf_sender a then flow_ok k B bsz f' (a\<lparr>nf_sender := False\<rparr>) \<and> meter_ok m' (nm_add x)
     else meter_ok m' x \<and> flow_ok k B bsz f'
       (if nf_inflight a < 2 ^ k then a\<lparr>nf_inflight := nf_inflight a + 1, nf_sender := True\<rparr> else a))"
proof -
  have I: "s2m_inv k 0 B bsz (fl_chan f)" "packet_ok bsz (replicate 64 0)" "\<not> p_QuitChan (ch_client (fl_chan f))"
    "nf_inflight a = length (s2m_contents k 0 B (fl_chan f))" "nf_sender a = fl_sender f"
    using ok(1) by (simp_all add: flow_ok_def packet_ok_def)
  consider "nf_sender a" | "\<not> nf_sender a" "nf_inflight a < 2 ^ k" | "\<not> nf_sender a" "\<not> nf_inflight a < 2 ^ k" by blast
  then show ?thesis
  proof cases
    case 1
    then show ?thesis using ok I(5) meter_ok_add [OF ok(2)] by (simp add: flow_send_def flow_ok_def)
  next
    case 2
    from client_write_accept [OF I(1,2) 2(2) [unfolded I(4)], of env] obtain c where
      c: "client_write env (replicate 64 0) (fl_chan f) = Some (c, 64)" "s2m_inv k 0 B bsz c"
      "s2m_contents k 0 B c = s2m_contents k 0 B (fl_chan f) @ [replicate 64 0]"
      "p_QuitChan (ch_client c) = p_QuitChan (ch_client (fl_chan f))" by (auto simp: wrote_def)
    then show ?thesis using flow_send_eq [OF c(1) I(3)] ok I 2 by (simp add: flow_ok_def)
  next
    case 3
    from client_write_reject [OF I(1) 3(2) [unfolded I(4)], of env "replicate 64 0"] obtain c where
      c: "client_write env (replicate 64 0) (fl_chan f) = Some (c, 0)" "s2m_inv k 0 B bsz c"
      "s2m_contents k 0 B c = s2m_contents k 0 B (fl_chan f)" "p_QuitChan (ch_client c) = p_QuitChan (ch_client (fl_chan f))"
      by (auto simp: kept_def)
    then show ?thesis using flow_send_eq [OF c(1) I(3)] ok I 3 by (simp add: flow_ok_def)
  qed
qed

lemma flow_recv_step:
  assumes ok: "flow_ok k B bsz f a" "meter_ok m x" and j: "j < length (fl_readers f)"
  shows "\<exists>f' m'. flow_recv j f m = Some (f', m') \<and>
    (if nf_readers a ! j then flow_ok k B bsz f' (a\<lparr>nf_readers := (nf_readers a)[j := False]\<rparr>) \<and> meter_ok m' (nm_add x)
     else meter_ok m' x \<and> flow_ok k B bsz f'
       (if 0 < nf_inflight a then a\<lparr>nf_inflight := nf_inflight a - 1, nf_readers := (nf_readers a)[j := True]\<rparr> else a))"
proof -
  obtain buf b where r: "fl_readers f ! j = (buf, b)" by force
  have I: "s2m_inv k 0 B bsz (fl_chan f)" "nf_inflight a = length (s2m_contents k 0 B (fl_chan f))" "nf_readers a ! j = b"
    "length buf = 2048" "bsz \<le> length buf"
    using ok(1) j r by (auto simp: flow_ok_def list_all_length)
  have len: "list_all (\<lambda>(pkt, _). length pkt = 2048) ((fl_readers f)[j := (pkt, b')])" if "length pkt = 2048" for pkt b'
    using ok(1) that by (auto simp: flow_ok_def list_all_iff dest: set_update_subset_insert [THEN subsetD])
  have upd: "map snd ((fl_readers f)[j := (pkt, b')]) = (nf_readers a)[j := b']" for pkt b'
    using ok(1) by (simp add: flow_ok_def map_update)
  consider "b" | "\<not> b" "s2m_contents k 0 B (fl_chan f) = []" | pkt rest where "\<not> b" "s2m_contents k 0 B (fl_chan f) = pkt # rest"
    by (cases "s2m_contents k 0 B (fl_chan f)") blast+
  then show ?thesis
  proof cases
    case 1
    then show ?thesis using ok I r meter_ok_add [OF ok(2)] len upd by (simp add: flow_recv_def flow_ok_def)
  next
    case 2
    from server_read_none [OF I(1) 2(2), of buf] obtain c where
      c: "server_read buf (fl_chan f) = Some (c, 0, None, buf)" "s2m_inv k 0 B bsz c" "s2m_contents k 0 B c = []"
      "p_QuitChan (ch_client c) = p_QuitChan (ch_client (fl_chan f))" by (auto simp: kept_def)
    have "(nf_readers a)[j := False] = nf_readers a" using I(3) 2(1) by (metis list_update_id)
    then show ?thesis using flow_recv_eq [OF c(1), of j m] r c ok I 2 len [OF I(4)] upd by (simp add: flow_ok_def)
  next
    case 3
    from server_read_packet [OF I(1) 3(2) I(5)] obtain c pkt' where
      c: "server_read buf (fl_chan f) = Some (c, int (length pkt), None, pkt')" "0 < length pkt" "s2m_inv k 0 B bsz c"
      "s2m_contents k 0 B c = rest" "length pkt' = length buf" "p_QuitChan (ch_client c) = p_QuitChan (ch_client (fl_chan f))"
      by (auto simp: kept_def)
    then show ?thesis using flow_recv_eq [OF c(1), of j m] r ok I 3 len upd by (simp add: flow_ok_def)
  qed
qed

lemma traffic_step_refines:
  assumes ok: "traffic_ok k B bsz t a" "tally_ok (2 ^ k) n a" and op: "traffic_op_ok n op"
  shows "\<exists>t'. traffic_step env op t = Some t' \<and> traffic_ok k B bsz t' (tally_step (2 ^ k) op a)"
proof -
  have A: "list_all2 (flow_ok k B bsz) (t_flows t) (ty_flows a)" "meter_ok (t_tx t) (ty_tx a)" "meter_ok (t_rx t) (ty_rx a)"
    and n: "length (ty_flows a) = n" "length (t_flows t) = n"
    using ok by (auto simp: traffic_ok_def tally_ok_def dest: list_all2_lengthD)
  have at: "flow_ok k B bsz (t_flows t ! i) (ty_flows a ! i)" if "i < n" for i using list_all2_nthD [OF A(1)] that n by simp
  note upd = list_all2_update_cong [OF A(1)]
  have same: "list_all2 (flow_ok k B bsz) ((t_flows t)[i := f]) (ty_flows a)" if "flow_ok k B bsz f (ty_flows a ! i)" for i f
    using upd [OF that, of i] by simp
  show ?thesis
  proof (cases op)
    case (Sender i)
    then show ?thesis
      using flow_send_step [OF at A(2), of i env] op n A upd same by (fastforce simp: traffic_ok_def Let_def split: if_splits)
  next
    case (Receiver i j)
    then have i: "i < n" "j < 2" using op by simp_all
    have "length (nf_readers (ty_flows a ! i)) = 2" using ok(2) i n by (auto simp: tally_ok_def)
    then have j: "j < length (fl_readers (t_flows t ! i))" using at [OF i(1)] i(2) by (simp add: flow_ok_def)
    show ?thesis
      using flow_recv_step [OF at [OF i(1)] A(3) j] Receiver i j n A upd same by (fastforce simp: traffic_ok_def Let_def split: if_splits)
  next
    case SenderMain
    then show ?thesis using meter_ok_main [OF A(2)] A by (auto simp: traffic_ok_def)
  next
    case ReceiverMain
    then show ?thesis using meter_ok_main [OF A(3)] A by (auto simp: traffic_ok_def)
  qed
qed

lemma traffic_refines:
  assumes "traffic_ok k B bsz t a" "tally_ok (2 ^ k) n a" and "list_all (traffic_op_ok n) ops"
  shows "\<exists>t'. traffic_run env ops t = Some t' \<and> traffic_ok k B bsz t' (tally_run (2 ^ k) ops a)"
  using assms
proof (induction ops arbitrary: t a)
  case (Cons op ops)
  obtain t1 where t1: "traffic_step env op t = Some t1" "traffic_ok k B bsz t1 (tally_step (2 ^ k) op a)"
    using traffic_step_refines [OF Cons.prems(1,2), of op env] Cons.prems(3) by auto
  show ?case
    using Cons.IH [OF t1(2) tally_step_ok [OF Cons.prems(2)]] t1(1) Cons.prems(3) by (simp add: tally_run_def)
qed (simp add: tally_run_def)

text \<open>Ports that a handshake has connected, over the client's memory, with one queue pair.\<close>

definition connected_pair :: "MemoryConfig \<Rightarrow> nat \<Rightarrow> byte list \<times> port \<times> port \<Rightarrow> bool" where
  "connected_pair run k x \<longleftrightarrow> (case x of (d, p, srv) \<Rightarrow>
     p_run p = run \<and> \<not> cfg_IsServer (p_cfg p) \<and> \<not> p_QuitChan p \<and>
     (\<exists>qt qr sq. client_ready p k d qt qr \<and> p_rxQueues srv = [sq] \<and> peer_queue srv sq k 0 (length d)))"

lemma flow_start_ok:
  assumes "one_pair run k" and "64 \<le> unat (PacketBufferSize run)" "unat (PacketBufferSize run) \<le> 2048" and "connected_pair run k x"
  shows "\<exists>f. flow_start x = Some f \<and> flow_ok k (buffer_at run k) (unat (PacketBufferSize run)) f
    \<lparr> nf_inflight = 0, nf_sender = False, nf_readers = [False, False] \<rparr>"
proof -
  obtain d p srv qt qr sq where x: "x = (d, p, srv)" "p_run p = run" "\<not> cfg_IsServer (p_cfg p)" "\<not> p_QuitChan p"
    "client_ready p k d qt qr" "p_rxQueues srv = [sq]" "peer_queue srv sq k 0 (length d)"
    using assms(4) by (auto simp: connected_pair_def)
  have q: "p_txQueues p = [qt]" using x(5) by (simp add: client_ready_def)
  note U = s2m_established [OF _ x(5,3,7), of "[]", unfolded x(2), OF assms(1)]
  show ?thesis
    using U assms(2,3) x(4) traffic_threads(2) [OF x(6)] traffic_threads(3) [OF q] by (simp add: flow_start_def x(1) flow_ok_def)
qed

lemma traffic_start_ok:
  assumes "one_pair run k" and "64 \<le> unat (PacketBufferSize run)" "unat (PacketBufferSize run) \<le> 2048"
    and "\<forall>x\<in>set ports. connected_pair run k x"
  shows "\<exists>t. traffic_start ports = Some t \<and>
    traffic_ok k (buffer_at run k) (unat (PacketBufferSize run)) t (tally_start (length ports))"
proof -
  have "\<exists>fs. those (map flow_start ports) = Some fs \<and> list_all2 (flow_ok k (buffer_at run k) (unat (PacketBufferSize run))) fs
      (replicate (length ports) \<lparr> nf_inflight = 0, nf_sender = False, nf_readers = [False, False] \<rparr>)"
    using assms(4)
  proof (induction ports)
    case (Cons x xs)
    obtain f where "flow_start x = Some f" "flow_ok k (buffer_at run k) (unat (PacketBufferSize run)) f
      \<lparr> nf_inflight = 0, nf_sender = False, nf_readers = [False, False] \<rparr>"
      using flow_start_ok [OF assms(1-3), of x] Cons.prems by auto
    then show ?case using Cons by auto
  qed simp
  then show ?thesis by (auto simp: traffic_start_def traffic_ok_def tally_start_def meter_ok_def meter_start_def nmeter_start_def)
qed

end
