(* ===== verification/Queue_Pairs.thy ===== *)
theory Queue_Pairs
  imports Mem_Region
begin

text \<open>
  Ports with several queue pairs (\<open>initializeQueues\<close> of \<^verbatim>\<open>src/mem_region.go\<close>). The slot number that the
  inner loop writes to, \<open>qid*size + j\<close>, is right for the buffers but wrong for the ring of the queue. The
  theory follows the loops for any number of pairs: what each iteration leaves alone, that the
  initialisation returns, and what the second transmit ring looks like afterwards: an empty ring whose
  descriptors have not been written.
\<close>

section \<open>Queues by number\<close>

definition queue_no :: "MemoryConfig \<Rightarrow> ringType \<Rightarrow> int \<Rightarrow> int \<Rightarrow> queue" where
  "queue_no run rt qid fd =
     \<lparr> q_ring = (port_newRing run 0 rt qid)\<lparr>ring_rb := fresh_header\<rparr>, q_lastHead = 0, q_lastTail = 0, q_interruptFd = fd \<rparr>"

definition ring_no :: "MemoryConfig \<Rightarrow> ringType \<Rightarrow> nat \<Rightarrow> nat" where
  "ring_no run rt j = ((if rt = ringTypeS2M then 0 else unat (NumQueuePairs run)) + j) * ring_span (unat (Log2RingSize run))"

lemma queue_no_at:
  assumes "unat (Log2RingSize run) = k" "k \<le> 15" and "j < 65536"
  shows "q_at (queue_no run rt (int j) fd) k (ring_no run rt j)"
proof -
  have "ring_span k \<le> ring_span 15"
    using power_increasing [OF assms(2), of "2 :: nat"] by (simp add: ring_span_def)
  then have s: "ring_span k < 2 ^ 20" by (simp add: ring_span_def)
  have sp: "ring_bytes run = int (ring_span k)"
    using s assms(1,2) power_increasing [OF assms(2), of "2 :: int"]
    by (subst ring_bytes_def, subst wrap64_id) (simp_all add: shl1_small ring_span_def)
  have b: "a * ring_span k < 2 ^ 36" if "a \<le> 65536" for a
  proof -
    have "a * ring_span k \<le> 65536 * ring_span k" using that by (rule mult_right_mono) simp
    also have "\<dots> < 2 ^ 36" using s by simp
    finally show ?thesis .
  qed
  have n: "unat (NumQueuePairs run) \<le> 65536" using unsigned_less [of "NumQueuePairs run", where ?'a = nat] by simp
  have wr: "wrap64 (int m) = int m" if "m < 2 ^ 63" for m using that by (simp add: wrap64_id)
  have "wrap64 (int (a * ring_span k)) = int (a * ring_span k)" if "a \<le> 65536" for a
    using b [OF that] by (intro wr) simp
  note w = this
  have "wrap64 (int (a * ring_span k) + int (j * ring_span k)) = int ((a + j) * ring_span k)" if "a \<le> 65536" for a
    using b [OF that] b [of j] assms(3) wr [of "a * ring_span k + j * ring_span k"] by (simp add: algebra_simps)
  note w2 = this [of 0] this [OF n]
  have u: "uint (NumQueuePairs run) * int (ring_span k) = int (unat (NumQueuePairs run) * ring_span k)" by simp
  show ?thesis
    using w [of j] w [OF n] w2 assms
    by (simp add: q_at_def queue_no_def port_newRing_def Let_def sp u ring_no_def shl1_small del: of_nat_mult of_nat_add) (simp)
qed

lemma init_descs_above:
  assumes "init_descs n qid (int j) p q desc = Some (desc', p')" and "int lo \<le> qid * 2 ^ k"
    and "q_at q k off" and "region_data p 0 = Some d"
  shows "\<exists>d'. p' = put_region_data p 0 d' \<and> length d' = length d \<and>
    (\<forall>i m. i + m \<le> desc_base off lo \<longrightarrow> window d' i m = window d i m)"
  using assms
proof (induction n arbitrary: j p d desc)
  case 0
  then show ?case using put_region_data_same by (metis init_descs.simps(1) option.sel prod.sel(2))
next
  case (Suc n)
  let ?slot = "qid * ring_size (q_ring q) + int j"
  have q: "ring_region (q_ring q) = 0" "ring_size (q_ring q) = 2 ^ k" "ring_offset (q_ring q) = int off"
    using Suc.prems(3) by (simp_all add: q_at_def)
  from Suc.prems(1) obtain r d1 p1 where st: "go_nth (p_regions p) 0 = Some r"
    "desc_setOffset desc (uint (mr_packetBufferOffset r + word_of_int ?slot * PacketBufferSize (p_run p))) = Some d1"
    "putDescBuf p q ?slot d1 = Some p1" "init_descs n qid (int (Suc j)) p1 q d1 = Some (desc', p')"
    by (auto simp: bind_eq_Some_conv Let_def add.commute)
  let ?i = "nat (desc_pos q ?slot)"
  have "int (desc_base off lo) \<le> desc_pos q ?slot"
    using Suc.prems(2) by (simp add: desc_pos_def desc_base_def q)
  then have i: "desc_base off lo \<le> ?i" by (metis nat_int nat_mono)
  from st(3) obtain x where p1: "desc_pos q ?slot \<le> int (length d)"
    "p1 = put_region_data p 0 (overlay d ?i (take x d1))" "x \<le> length d - ?i"
    by (auto simp: putDescBuf_def q(1) Suc.prems(4) go_copy_from_def Let_def split: if_splits)
  let ?d = "overlay d ?i (take x d1)"
  have fit: "?i + length (take x d1) \<le> length d" using p1(1,3) i by auto
  then have rd: "region_data p1 0 = Some ?d" using Suc.prems(4) p1(2) by (simp add: region_data_put)
  have w: "window ?d a m = window d a m" if "a + m \<le> desc_base off lo" for a m
    using that i fit by (intro window_overlay_other) auto
  have "put_region_data p1 0 x = put_region_data p 0 x" for x
    using Suc.prems(4) by (simp add: p1(2) put_region_data_put)
  with Suc.IH [OF st(4) Suc.prems(2,3) rd] w fit show ?case by auto
qed

lemma init_queue_event:
  assumes "init_queue env rt qid desc p tr = Some (None, desc', p', tr')"
  obtains fd where "eventFd env tr = (Inr fd, tr')"
proof (cases "eventFd env tr")
  case (Pair x t)
  with assms that show thesis by (cases x) (auto simp: init_queue_def bind_eq_Some_conv Let_def)
qed

lemma init_queue_above:
  assumes "init_queue env rt (int j) desc p tr = Some (None, desc', p', tr')" and rd: "region_data p 0 = Some d"
    and qa: "\<And>fd. q_at (queue_no (p_run p) rt (int j) fd) k off" and b: "off + ring_span k \<le> length d"
  obtains fd d' where "p' = append_queue rt (queue_no (p_run p) rt (int j) fd) (put_region_data p 0 d')" "length d' = length d"
    "\<And>i m. i + m \<le> off \<Longrightarrow> window d' i m = window d i m" "window d' off 128 = fresh_header"
    "\<And>i m. 1 \<le> j \<Longrightarrow> off + 128 \<le> i \<Longrightarrow> i + m \<le> off + ring_span k \<Longrightarrow> window d' i m = window d i m"
proof -
  have fits: "off + 128 \<le> length d" using b by (simp add: ring_span_def)
  obtain r1 where r1: "ring_setCookie (port_newRing (p_run p) 0 rt (int j)) cookie = Some r1"
    "ring_setFlags r1 1 = Some ((port_newRing (p_run p) 0 rt (int j))\<lparr>ring_rb := fresh_header\<rparr>)" by (rule fresh_ring)
  obtain fd where fd: "eventFd env tr = (Inr fd, tr')" by (rule init_queue_event [OF assms(1)])
  define q where "q = queue_no (p_run p) rt (int j) fd"
  have q: "ring_region (q_ring q) = 0" "ring_offset (q_ring q) = int off" "ring_rb (q_ring q) = fresh_header" "q_at q k off"
    using qa [of fd] by (simp_all add: q_def q_at_def) (simp add: queue_no_def)
  let ?d = "overlay d off fresh_header"
  let ?p1 = "put_region_data p 0 ?d"
  have put: "putRing p q = Some ?p1"
    using rd fits by (simp add: putRing_def q go_copy_from_def Let_def)
  have ld: "length ?d = length d" using fits by simp
  have rd1: "region_data (append_queue rt q ?p1) 0 = Some ?d" using rd ld by (simp add: region_data_put)
  obtain n where "init_descs n (int j) (int 0) (append_queue rt q ?p1) q desc = Some (desc', p')"
    using assms(1) r1 fd put unfolding q_def queue_no_def by (auto simp: init_queue_def bind_eq_Some_conv Let_def)
  note run = this
  have pp: "put_region_data ?p1 0 x = put_region_data p 0 x" for x using rd by (simp add: put_region_data_put)
  have lo: "int (j * 2 ^ k) \<le> int j * 2 ^ k" by simp
  obtain d' where d': "p' = append_queue rt q (put_region_data p 0 d')" "length d' = length ?d"
    "\<And>i m. i + m \<le> desc_base off (j * 2 ^ k) \<Longrightarrow> window d' i m = window ?d i m"
    using init_descs_above [OF run lo q(4) rd1] by (auto simp: pp)
  have below: "off + 128 \<le> desc_base off (j * 2 ^ k)" by (simp add: desc_base_def)
  have "window d' i m = window d i m" if "i + m \<le> off" for i m
    using that d'(3) [of i m] below fits by (simp add: window_overlay_other)
  moreover have "window d' off 128 = fresh_header"
    using d'(3) [OF below] fits by (simp add: window_overlay_same)
  moreover have "window d' i m = window d i m" if h: "1 \<le> j" "off + 128 \<le> i" "i + m \<le> off + ring_span k" for i m
  proof -
    have "1 * 2 ^ k \<le> j * 2 ^ k" using h(1) by (rule mult_right_mono) simp
    then have "off + ring_span k \<le> desc_base off (j * 2 ^ k)" by (simp add: desc_base_def ring_span_def)
    then show ?thesis using d'(3) [of i m] h fits by (simp add: window_overlay_other)
  qed
  ultimately show thesis using d'(1,2) ld that [of fd d'] unfolding q_def by simp
qed

lemma init_loop_above:
  assumes "init_loop n env rt (int j) desc p tr = Some (None, desc', p', tr')" and "region_data p 0 = Some d"
    and "unat (Log2RingSize (p_run p)) = k" "k \<le> 15" and "j + n \<le> 65536" and "ring_no (p_run p) rt (j + n) \<le> length d"
  shows "\<exists>d' ts. region_data p' 0 = Some d' \<and> length d' = length d \<and> p_run p' = p_run p \<and> p_cfg p' = p_cfg p \<and>
    p_txQueues p' = p_txQueues p @ ts \<and> (\<forall>i m. i + m \<le> ring_no (p_run p) rt j \<longrightarrow> window d' i m = window d i m)"
  using assms
proof (induction n arbitrary: j desc p d tr)
  case 0
  then show ?case by simp
next
  case (Suc n)
  obtain desc1 p1 tr1 where I: "init_queue env rt (int j) desc p tr = Some (None, desc1, p1, tr1)"
    "init_loop n env rt (int (Suc j)) desc1 p1 tr1 = Some (None, desc', p', tr')"
    using Suc.prems(1) by (auto simp: bind_eq_Some_conv add.commute split: option.splits)
  let ?off = "ring_no (p_run p) rt"
  have step: "?off (Suc i) = ?off i + ring_span k" for i using Suc.prems(3) by (simp add: ring_no_def)
  have mono: "?off (Suc j) \<le> ?off (j + Suc n)" unfolding ring_no_def by (intro mult_right_mono) simp_all
  have qa: "\<And>fd. q_at (queue_no (p_run p) rt (int j) fd) k (?off j)" using Suc.prems(3-5) by (intro queue_no_at) simp_all
  have b: "?off j + ring_span k \<le> length d" using mono Suc.prems(6) by (simp add: step)
  obtain fd d1 where p1: "p1 = append_queue rt (queue_no (p_run p) rt (int j) fd) (put_region_data p 0 d1)" "length d1 = length d"
    "\<And>i m. i + m \<le> ?off j \<Longrightarrow> window d1 i m = window d i m"
    using init_queue_above [OF I(1) Suc.prems(2) qa b] by blast
  have rd: "region_data p1 0 = Some d1" using Suc.prems(2) p1(2) by (simp add: p1(1) region_data_put)
  have run: "p_run p1 = p_run p" "p_cfg p1 = p_cfg p" by (simp_all add: p1(1))
  obtain ts where ts: "p_txQueues p1 = p_txQueues p @ ts" by (cases rt) (simp_all add: p1(1) append_queue_def)
  obtain d' ts' where d': "region_data p' 0 = Some d'" "length d' = length d1" "p_run p' = p_run p" "p_cfg p' = p_cfg p"
    "p_txQueues p' = p_txQueues p1 @ ts'" "\<And>i m. i + m \<le> ?off (Suc j) \<Longrightarrow> window d' i m = window d1 i m"
    using Suc.IH [OF I(2) rd] Suc.prems(3-6) p1(2) unfolding run by auto
  have "window d' i m = window d i m" if "i + m \<le> ?off j" for i m
    using that d'(6) [of i m] p1(3) [of i m] by (simp add: step)
  then show ?case using d'(1-5) p1(2) ts by auto
qed

section \<open>The initialisation returns\<close>

text \<open>The initialisation returns when the region has room for the rings and the misplaced descriptors, and
  event descriptors can be created.\<close>

lemma init_descs_runs:
  assumes "go_nth (p_regions p) 0 = Some r" "mr_data r = Some d" and "desc_is desc f rg l o0" and "q_at q k off"
    and "desc_base off (i * 2 ^ k + j + n) \<le> length d"
  shows "\<exists>desc' d' o'. init_descs n (int i) (int j) p q desc = Some (desc', put_region_data p 0 d') \<and>
    length d' = length d \<and> desc_is desc' f rg l o'"
  using assms
proof (induction n arbitrary: j p d desc r o0)
  case 0
  then have "put_region_data p 0 d = p" by (intro put_region_data_same) (simp add: region_data_def bytes_of_def)
  with 0 show ?case by (metis init_descs.simps(1))
next
  case (Suc n)
  let ?s = "i * 2 ^ k + j"
  let ?o = "uint (mr_packetBufferOffset r + word_of_int (int ?s) * PacketBufferSize (p_run p))"
  obtain d1 o1 where d1: "desc_setOffset desc ?o = Some d1" "desc_is d1 f rg l o1"
    using desc_is_setOffset [OF Suc.prems(3), of ?o] by blast
  have rd: "region_data p 0 = Some d" using Suc.prems(1,2) by (simp add: region_data_def bytes_of_def)
  have q: "ring_region (q_ring q) = 0" "int i * ring_size (q_ring q) + int j = int ?s" "desc_pos q (int ?s) = int (desc_base off ?s)"
    using Suc.prems(4) by (simp_all add: q_at_def desc_pos_def desc_base_def)
  have b: "desc_base off ?s + 16 \<le> length d" "desc_base off (i * 2 ^ k + Suc j + n) \<le> length d"
    using Suc.prems(5) by (simp_all add: desc_base_def)
  let ?d = "overlay d (desc_base off ?s) d1"
  have l1: "length d1 = 16" using desc_isD(1) [OF d1(2)] by simp
  have put: "putDescBuf p q (int ?s) d1 = Some (put_region_data p 0 ?d)"
    unfolding putDescBuf_def q(1) using b(1) l1 by (simp add: rd q(3) go_copy_from_def Let_def del: of_nat_add)
  have ld: "length ?d = length d" using b(1) l1 by simp
  have go: "go_nth (p_regions (put_region_data p 0 ?d)) 0 = Some (r\<lparr>mr_data := Some ?d\<rparr>)"
    using go_nth_put [OF Suc.prems(1)] Suc.prems(2) by simp
  have m: "mr_data (r\<lparr>mr_data := Some ?d\<rparr>) = Some ?d" by simp
  obtain desc' d' o' where IH: "init_descs n (int i) (int (Suc j)) (put_region_data p 0 ?d) q d1 =
      Some (desc', put_region_data (put_region_data p 0 ?d) 0 d')" "length d' = length ?d" "desc_is desc' f rg l o'"
    using Suc.IH [OF go m d1(2) Suc.prems(4) b(2) [folded ld]] by blast
  have step: "int j + 1 = int (Suc j)" by simp
  have "init_descs (Suc n) (int i) (int j) p q desc = Some (desc', put_region_data p 0 d')"
    by (simp only: init_descs.simps(2) Let_def q(2) step Suc.prems(1) d1(1) put IH(1) put_region_data_put [OF rd] Option.bind.simps)
  then show ?case using IH(2,3) ld by auto
qed

lemma init_queue_runs:
  assumes "go_nth (p_regions p) 0 = Some r" "mr_data r = Some d" and "desc_is desc f rg l o0"
    and "\<And>fd. q_at (queue_no (p_run p) rt (int j) fd) k off" and "off + ring_span k + j * (16 * 2 ^ k) \<le> length d"
    and "eventFd env tr = (Inr fd, tr')"
  shows "\<exists>desc' d' o'. init_queue env rt (int j) desc p tr =
      Some (None, desc', append_queue rt (queue_no (p_run p) rt (int j) fd) (put_region_data p 0 d'), tr') \<and>
    length d' = length d \<and> desc_is desc' f rg l o'"
proof -
  obtain r1 where r1: "ring_setCookie (port_newRing (p_run p) 0 rt (int j)) cookie = Some r1"
    "ring_setFlags r1 1 = Some ((port_newRing (p_run p) 0 rt (int j))\<lparr>ring_rb := fresh_header\<rparr>)" by (rule fresh_ring)
  define q where "q = queue_no (p_run p) rt (int j) fd"
  have q: "ring_region (q_ring q) = 0" "ring_offset (q_ring q) = int off" "nat (ring_size (q_ring q)) = 2 ^ k"
    "ring_rb (q_ring q) = fresh_header" "q_at q k off"
    using assms(4) [of fd] by (simp_all add: q_def q_at_def) (simp add: queue_no_def)
  have rd: "region_data p 0 = Some d" using assms(1,2) by (simp add: region_data_def bytes_of_def)
  let ?d = "overlay d off fresh_header"
  have fits: "off + 128 \<le> length d" using assms(5) by (simp add: ring_span_def)
  then have ld: "length ?d = length d" by simp
  have put: "putRing p q = Some (put_region_data p 0 ?d)" using rd fits by (simp add: putRing_def q go_copy_from_def Let_def)
  let ?p = "append_queue rt q (put_region_data p 0 ?d)"
  have go: "go_nth (p_regions ?p) 0 = Some (r\<lparr>mr_data := Some ?d\<rparr>)" using go_nth_put [OF assms(1)] assms(2) by simp
  have m: "mr_data (r\<lparr>mr_data := Some ?d\<rparr>) = Some ?d" by simp
  have b: "desc_base off (j * 2 ^ k + 0 + 2 ^ k) \<le> length ?d"
    using assms(5) ld by (simp add: desc_base_def ring_span_def algebra_simps)
  obtain desc' d' o' where D: "init_descs (2 ^ k) (int j) (int 0) ?p q desc = Some (desc', put_region_data ?p 0 d')"
    "length d' = length ?d" "desc_is desc' f rg l o'"
    using init_descs_runs [OF go m assms(3) q(5) b] by blast
  have pp: "put_region_data (put_region_data p 0 ?d) 0 d' = put_region_data p 0 d'" using rd by (simp add: put_region_data_put)
  have qe: "\<lparr> q_ring = (port_newRing (p_run p) 0 rt (int j))\<lparr>ring_rb := fresh_header\<rparr>, q_lastHead = 0, q_lastTail = 0, q_interruptFd = fd \<rparr> = q"
    by (simp add: q_def queue_no_def)
  have sz: "nat (ring_size (port_newRing (p_run p) 0 rt (int j))) = 2 ^ k" using q(3) by (simp add: q_def queue_no_def)
  have "init_queue env rt (int j) desc p tr = Some (None, desc', append_queue rt q (put_region_data p 0 d'), tr')"
    using D(1) put by (simp add: init_queue_def r1 assms(6) Let_def qe sz pp)
  then show ?thesis using D(2,3) ld unfolding q_def by auto
qed

lemma init_loop_runs:
  assumes "\<And>tr. \<exists>fd tr'. eventFd env tr = (Inr fd, tr')"
    and "go_nth (p_regions p) 0 = Some r" "mr_data r = Some d" and "desc_is desc f rg l o0"
    and "unat (Log2RingSize (p_run p)) = k" "k \<le> 15" and "j + n \<le> unat (NumQueuePairs (p_run p))"
    and "2 * unat (NumQueuePairs (p_run p)) * ring_span k + unat (NumQueuePairs (p_run p)) * (16 * 2 ^ k) \<le> length d"
  shows "\<exists>desc' p' tr' d' o'. init_loop n env rt (int j) desc p tr = Some (None, desc', p', tr') \<and> p_run p' = p_run p \<and>
    go_nth (p_regions p') 0 = Some (r\<lparr>mr_data := Some d'\<rparr>) \<and> length d' = length d \<and> desc_is desc' f rg l o'"
  using assms(2-)
proof (induction n arbitrary: j p r d desc o0 tr)
  case 0
  then have "r\<lparr>mr_data := Some d\<rparr> = r" by simp
  with 0 show ?case by (metis init_loop.simps(1))
next
  case (Suc n)
  let ?N = "unat (NumQueuePairs (p_run p))"
  have "?N < 65536" using unsigned_less [of "NumQueuePairs (p_run p)", where ?'a = nat] by simp
  then have qa: "\<And>fd. q_at (queue_no (p_run p) rt (int j) fd) k (ring_no (p_run p) rt j)"
    using Suc.prems(4-6) by (intro queue_no_at) simp_all
  have "ring_no (p_run p) rt j + ring_span k \<le> 2 * ?N * ring_span k"
  proof -
    have "ring_no (p_run p) rt j + ring_span k = Suc ((if rt = ringTypeS2M then 0 else ?N) + j) * ring_span k"
      by (simp add: ring_no_def Suc.prems(4))
    also have "\<dots> \<le> 2 * ?N * ring_span k" using Suc.prems(6) by (intro mult_le_mono1) auto
    finally show ?thesis .
  qed
  moreover have "j * (16 * 2 ^ k) \<le> ?N * (16 * 2 ^ k)" using Suc.prems(6) by (intro mult_le_mono1) simp
  ultimately have b: "ring_no (p_run p) rt j + ring_span k + j * (16 * 2 ^ k) \<le> length d" using Suc.prems(7) by linarith
  obtain fd t where ev: "eventFd env tr = (Inr fd, t)" using assms(1) by blast
  obtain desc1 d1 o1 where I: "init_queue env rt (int j) desc p tr =
      Some (None, desc1, append_queue rt (queue_no (p_run p) rt (int j) fd) (put_region_data p 0 d1), t)"
    "length d1 = length d" "desc_is desc1 f rg l o1"
    using init_queue_runs [OF Suc.prems(1-3) qa b ev] by blast
  let ?p = "append_queue rt (queue_no (p_run p) rt (int j) fd) (put_region_data p 0 d1)"
  have go: "go_nth (p_regions ?p) 0 = Some (r\<lparr>mr_data := Some d1\<rparr>)" using go_nth_put [OF Suc.prems(1)] Suc.prems(2) by simp
  have m: "mr_data (r\<lparr>mr_data := Some d1\<rparr>) = Some d1" and run: "p_run ?p = p_run p" by simp_all
  have "Suc j + n \<le> ?N" "2 * ?N * ring_span k + ?N * (16 * 2 ^ k) \<le> length d1" using Suc.prems(6,7) I(2) by simp_all
  from Suc.IH [OF go m I(3), unfolded run, OF Suc.prems(4,5) this, of t] obtain desc' p' tr' d' o' where
    "init_loop n env rt (int (Suc j)) desc1 ?p t = Some (None, desc', p', tr')" "p_run p' = p_run p"
    "go_nth (p_regions p') 0 = Some (r\<lparr>mr_data := Some d'\<rparr>)" "length d' = length d" "desc_is desc' f rg l o'"
    using I(2) by auto
  moreover from this(1) have "init_loop (Suc n) env rt (int j) desc p tr = Some (None, desc', p', tr')"
    using I(1) by (simp add: add.commute)
  ultimately show ?case by blast
qed

lemma initializeQueues_returns:
  assumes "\<And>tr. \<exists>fd tr'. eventFd env tr = (Inr fd, tr')"
    and "go_nth (p_regions p) 0 = Some r" "mr_data r = Some d"
    and "unat (Log2RingSize (p_run p)) = k" "k \<le> 15"
    and "2 * unat (NumQueuePairs (p_run p)) * ring_span k + unat (NumQueuePairs (p_run p)) * (16 * 2 ^ k) \<le> length d"
  shows "\<exists>p1 tr1. initializeQueues env p tr = Some (None, p1, tr1)"
proof -
  let ?n = "unat (NumQueuePairs (p_run p))"
  obtain i1 i2 d3 where D: "desc_setFlags newDescBuf 0 = Some i1" "desc_setRegion i1 0 = Some i2"
    "desc_setLength i2 (uint (PacketBufferSize (p_run p))) = Some d3" "desc_is d3 0 0 (uint (PacketBufferSize (p_run p))) 0"
    by (rule initial_desc)
  have n: "0 + ?n \<le> ?n" by simp
  obtain d4 m1 t1 m o4 where L: "init_loop ?n env ringTypeS2M (int 0) d3 p tr = Some (None, d4, m1, t1)" "p_run m1 = p_run p"
    "go_nth (p_regions m1) 0 = Some (r\<lparr>mr_data := Some m\<rparr>)" "length m = length d" "desc_is d4 0 0 (uint (PacketBufferSize (p_run p))) o4"
    using init_loop_runs [OF assms(1-3) D(4) assms(4,5) n assms(6)] by blast
  have "\<exists>d5 p1 tr1. init_loop ?n env ringTypeM2S (int 0) d4 m1 t1 = Some (None, d5, p1, tr1)"
    using init_loop_runs [OF assms(1) L(3) _ L(5), of m k 0 ?n ringTypeM2S t1] assms(4-6) L(2,4) by auto
  then show ?thesis using D L(1,2) by (auto simp: initializeQueues_def)
qed

section \<open>The second queue\<close>

lemma first_two_queues:
  assumes k: "unat (Log2RingSize (p_run p)) = k" "k \<le> 15"
    and r: "go_nth (p_regions p) 0 = Some r" "mr_data r = Some d" "2 * ring_span k \<le> length d" and tx: "p_txQueues p = []"
    and desc: "desc_is desc 0 0 l o0"
    and run: "init_queue env ringTypeS2M 0 desc p tr = Some (None, e1, a1, u1)"
      "init_queue env ringTypeS2M (int 1) e1 a1 u1 = Some (None, e2, a2, u2)"
  shows "\<exists>c q0 q1. region_data a2 0 = Some c \<and> length c = length d \<and> p_run a2 = p_run p \<and> p_cfg a2 = p_cfg p \<and>
    p_txQueues a2 = [q0, q1] \<and> q_at q0 k 0 \<and> q_at q1 k (ring_span k) \<and> cookie_of c 0 = cookie \<and>
    window c (ring_span k) 128 = fresh_header \<and> (\<forall>s<2 ^ k. desc_of c (ring_span k) s = desc_of d (ring_span k) s)"
proof -
  let ?run = "p_run p"
  have off: "ring_no ?run ringTypeS2M j = j * ring_span k" for j by (simp add: ring_no_def k)
  obtain f0 where f0: "eventFd env tr = (Inr f0, u1)" by (rule init_queue_event [OF run(1)])
  define q0 where "q0 = new_queue ?run ringTypeS2M f0"
  have q0: "q_at q0 k 0"
    using queue_no_at [OF k, of 0 ringTypeS2M f0] off [of 0] by (simp add: q0_def new_queue_def queue_no_def)
  have rd: "region_data p 0 = Some d" using r by (simp add: region_data_def bytes_of_def)
  have ra: "ring_at p q0 k 0 d" using r(3) by (intro ring_atI [OF rd q0 k(2)]) simp
  obtain b where A: "a1 = append_queue ringTypeS2M q0 (put_region_data p 0 b)" "length b = length d" "cookie_of b 0 = cookie"
    "\<And>i m. ring_span k \<le> i \<Longrightarrow> window b i m = window d i m"
    using init_queue_at [OF ra q0_def r(1) _ desc f0] run(1) r(2) by (auto simp: ring_ready_def)
  have rd1: "region_data a1 0 = Some b" "p_run a1 = ?run" "p_cfg a1 = p_cfg p" "p_txQueues a1 = [q0]"
    using rd A(2) tx by (simp_all add: A(1) region_data_put) (simp add: append_queue_def)
  have q1: "\<And>fd. q_at (queue_no (p_run a1) ringTypeS2M (int 1) fd) k (ring_span k)"
    using queue_no_at [OF k, of 1 ringTypeS2M] off [of 1] by (simp add: rd1(2))
  have b1: "ring_span k + ring_span k \<le> length b" using r(3) A(2) by simp
  obtain f1 c where C: "a2 = append_queue ringTypeS2M (queue_no (p_run a1) ringTypeS2M (int 1) f1) (put_region_data a1 0 c)"
    "length c = length b" "\<And>i m. i + m \<le> ring_span k \<Longrightarrow> window c i m = window b i m" "window c (ring_span k) 128 = fresh_header"
    "\<And>i m. ring_span k + 128 \<le> i \<Longrightarrow> i + m \<le> ring_span k + ring_span k \<Longrightarrow> window c i m = window b i m"
    using init_queue_above [OF run(2) rd1(1) q1 b1] by (metis le_refl)
  have "region_data a2 0 = Some c" "p_run a2 = ?run" "p_cfg a2 = p_cfg p"
    "p_txQueues a2 = [q0, queue_no (p_run a1) ringTypeS2M (int 1) f1]"
    using rd1 C(2) by (simp_all add: C(1) region_data_put) (simp add: append_queue_def)
  moreover have "cookie_of c 0 = cookie" using A(3) C(3) [of 0 4] by (simp add: cookie_of_def ring_span_def)
  moreover have "desc_of c (ring_span k) s = desc_of d (ring_span k) s" if "s < 2 ^ k" for s
    using that C(5) [of "desc_base (ring_span k) s" 16] A(4) [of "desc_base (ring_span k) s" 16]
    by (simp add: desc_of_def desc_base_def ring_span_def)
  ultimately show ?thesis using C(2,4) A(2) q0 q1 by auto
qed

text \<open>The second transmit ring after the whole initialisation: an empty ring whose descriptors are still the
  bytes of the fresh region.\<close>

lemma second_ring:
  assumes n: "2 \<le> unat (NumQueuePairs (p_run p))" and k: "unat (Log2RingSize (p_run p)) = k" "k \<le> 15"
    and r: "go_nth (p_regions p) 0 = Some r" "mr_data r = Some d"
    and fits: "2 * unat (NumQueuePairs (p_run p)) * ring_span k \<le> length d" and tx: "p_txQueues p = []"
    and run: "initializeQueues env p tr = Some (None, p1, tr1)"
  shows "\<exists>d1 q0 q1 ts. region_data p1 0 = Some d1 \<and> length d1 = length d \<and> p_run p1 = p_run p \<and> p_cfg p1 = p_cfg p \<and>
    p_txQueues p1 = q0 # q1 # ts \<and> q_at q0 k 0 \<and> q_at q1 k (ring_span k) \<and>
    cookie_of d1 0 = cookie \<and> head_of d1 (ring_span k) = 0 \<and> tail_of d1 (ring_span k) = 0 \<and>
    (\<forall>s<2 ^ k. desc_of d1 (ring_span k) s = desc_of d (ring_span k) s)"
proof -
  let ?n = "unat (NumQueuePairs (p_run p))" and ?run = "p_run p"
  have n16: "?n < 65536" using unsigned_less [of "NumQueuePairs (p_run p)", where ?'a = nat] by simp
  obtain n' where n': "?n = Suc (Suc n')" using n by (metis numeral_2_eq_2 le_Suc_ex add_Suc)
  have off: "ring_no ?run ringTypeS2M j = j * ring_span k" "ring_no ?run ringTypeM2S j = (?n + j) * ring_span k" for j
    by (simp_all add: ring_no_def k)
  have mul: "a * ring_span k \<le> length d" if "a \<le> 2 * ?n" for a
    using mult_le_mono1 [OF that, of "ring_span k"] fits by linarith
  obtain i1 i2 d3 where D: "desc_setFlags newDescBuf 0 = Some i1" "desc_setRegion i1 0 = Some i2"
    "desc_setLength i2 (uint (PacketBufferSize ?run)) = Some d3" "desc_is d3 0 0 (uint (PacketBufferSize ?run)) 0"
    by (rule initial_desc)
  obtain d4 d5 m1 t1 where L: "init_loop ?n env ringTypeS2M 0 d3 p tr = Some (None, d4, m1, t1)"
    "init_loop (unat (NumQueuePairs (p_run m1))) env ringTypeM2S (int 0) d4 m1 t1 = Some (None, d5, p1, tr1)"
    using run D(1-3) by (auto simp: initializeQueues_def bind_eq_Some_conv split: option.splits)
  obtain e1 e2 a1 a2 u1 u2 where I: "init_queue env ringTypeS2M 0 d3 p tr = Some (None, e1, a1, u1)"
    "init_queue env ringTypeS2M (int 1) e1 a1 u1 = Some (None, e2, a2, u2)"
    "init_loop n' env ringTypeS2M (int 2) e2 a2 u2 = Some (None, d4, m1, t1)"
    using L(1) unfolding n' by (auto simp: bind_eq_Some_conv split: option.splits)
  obtain c q0 q1 where C: "region_data a2 0 = Some c" "length c = length d" "p_run a2 = ?run" "p_cfg a2 = p_cfg p"
    "p_txQueues a2 = [q0, q1]" "q_at q0 k 0" "q_at q1 k (ring_span k)" "cookie_of c 0 = cookie"
    "window c (ring_span k) 128 = fresh_header" "\<forall>s<2 ^ k. desc_of c (ring_span k) s = desc_of d (ring_span k) s"
    using first_two_queues [OF k r mul tx D(4) I(1,2)] n by auto
  have b2: "ring_no (p_run a2) ringTypeS2M (2 + n') \<le> length c" "2 + n' \<le> 65536"
    using mul [of "2 + n'"] n' n16 C(2) by (simp_all add: C(3) off)
  obtain m ts where M: "region_data m1 0 = Some m" "length m = length c" "p_run m1 = ?run" "p_cfg m1 = p_cfg p"
    "p_txQueues m1 = [q0, q1] @ ts" "\<And>i l. i + l \<le> 2 * ring_span k \<Longrightarrow> window m i l = window c i l"
    using init_loop_above [OF I(3) C(1) _ k(2) b2(2,1)] k(1) unfolding C(3-5) off by auto
  have b3: "ring_no (p_run m1) ringTypeM2S (0 + ?n) \<le> length m" "0 + ?n \<le> 65536"
    using mul [of "?n + ?n"] n16 C(2) M(2) by (simp_all add: M(3) off)
  obtain w ts' where W: "region_data p1 0 = Some w" "length w = length m" "p_run p1 = ?run" "p_cfg p1 = p_cfg p"
    "p_txQueues p1 = ([q0, q1] @ ts) @ ts'" "\<And>i l. i + l \<le> ?n * ring_span k \<Longrightarrow> window w i l = window m i l"
    using init_loop_above [OF L(2) M(1) _ k(2), unfolded M(3)] k(1) b3 unfolding M(3-5) off by auto
  have two: "2 * ring_span k \<le> ?n * ring_span k" using n by (rule mult_le_mono1)
  have same: "window w i l = window c i l" if "i + l \<le> 2 * ring_span k" for i l
    using W(6) [OF order_trans [OF that two]] M(6) [OF that] by simp
  have h: "window w (ring_span k) 128 = fresh_header" using same [of "ring_span k" 128] C(9) by (simp add: ring_span_def)
  have hd: "window w (ring_span k + i) 2 = [0, 0]" if "6 \<le> i" "i + 2 \<le> 128" for i
    using window_window [of i 2 128 w "ring_span k"] that by (simp add: h window_fresh_header)
  have "head_of w (ring_span k) = 0" "tail_of w (ring_span k) = 0"
    using hd [of 6] hd [of 64] by (simp_all add: head_of_def tail_of_def)
  moreover have "cookie_of w 0 = cookie" using C(8) same [of 0 4] by (simp add: cookie_of_def ring_span_def)
  moreover have "desc_of w (ring_span k) s = desc_of d (ring_span k) s" if "s < 2 ^ k" for s
    using that C(10) same [of "desc_base (ring_span k) s" 16] by (simp add: desc_of_def desc_base_def ring_span_def)
  ultimately show ?thesis using W(1-5) M(2) C(2,6,7) by auto
qed

text \<open>So the first packet written to the second queue goes to offset 0 of the region, over the header of the
  first ring.\<close>

lemma second_queue_writes_at_0:
  assumes n: "2 \<le> unat (NumQueuePairs (p_run p))" and k: "unat (Log2RingSize (p_run p)) = k" "k \<le> 15"
    and r: "go_nth (p_regions p) 0 = Some r" "mr_data r = Some (replicate N 0)"
    and fits: "2 * unat (NumQueuePairs (p_run p)) * ring_span k \<le> N" and tx: "p_txQueues p = []" and cl: "\<not> cfg_IsServer (p_cfg p)"
    and run: "initializeQueues env p tr = Some (None, p1, tr1)"
    and pkt: "length pkt \<le> unat (PacketBufferSize (p_run p))" "unat (PacketBufferSize (p_run p)) \<le> N" "length pkt \<le> ring_span k"
  shows "\<exists>q0 q1 ts d1 p2 tr2 d2. p_txQueues p1 = q0 # q1 # ts \<and> q_at q0 k 0 \<and> region_data p1 0 = Some d1 \<and> cookie_of d1 0 = cookie \<and>
    WritePacket env' p1 q1 pkt tr' = Some (int (length pkt), p2, tr2) \<and> region_data p2 0 = Some d2 \<and> window d2 0 (length pkt) = pkt"
proof -
  obtain d1 q0 q1 ts where S: "region_data p1 0 = Some d1" "length d1 = N" "p_run p1 = p_run p" "p_cfg p1 = p_cfg p"
    "p_txQueues p1 = q0 # q1 # ts" "q_at q0 k 0" "q_at q1 k (ring_span k)"
    "cookie_of d1 0 = cookie" "head_of d1 (ring_span k) = 0" "tail_of d1 (ring_span k) = 0"
    "\<forall>s<2 ^ k. desc_of d1 (ring_span k) s = desc_of (replicate N 0) (ring_span k) s"
    using second_ring [OF n k r _ tx run] fits by auto
  have two: "2 * ring_span k \<le> N"
    using mult_le_mono1 [of 2 "2 * unat (NumQueuePairs (p_run p))" "ring_span k"] n fits by linarith
  then have ra: "ring_at p1 q1 k (ring_span k) d1" using S(2) by (intro ring_atI [OF S(1,7) k(2)]) simp
  have reg: "ring_region (q_ring q1) = 0" using S(7) by (simp add: q_at_def)
  have sp: "144 \<le> ring_span k" by (simp add: ring_span_def)
  then have "desc_of d1 (ring_span k) 0 = replicate 16 0"
    using S(11) [rule_format, of 0] two by (simp add: desc_of_def desc_base_def window_replicate)
  moreover have "desc_is (replicate 16 0) 0 0 0 0" by (simp add: desc_is_def) code_simp
  ultimately have di: "desc_is (desc_of d1 (ring_span k) 0) 0 (ring_region (q_ring q1)) 0 (int 0)" by (simp add: reg)
  have free: "client_free d1 (ring_span k) k \<noteq> 0"
    using k(2) by (simp add: client_free_def S(9,10))
  have s0: "0 = unat (head_of d1 (ring_span k)) mod 2 ^ k" and c1: "\<not> cfg_IsServer (p_cfg p1)" using cl S(4,9) by simp_all
  obtain db where W: "WritePacket env' p1 q1 pkt tr' = Some (int (length pkt), put_region_data p1 0
      (commit_mem d1 (ring_span k) 0 pkt 0 db ringHeadOffset (head_of d1 (ring_span k) + 1)), SysWrite (q_interruptFd q1) uvarint_one # tr')"
    "desc_is db 0 0 (int (length pkt)) (int 0)"
    using WritePacket_client_at [OF ra c1 free s0 di, of pkt env' tr'] pkt S(2,3) unfolding reg by auto
  let ?d = "commit_mem d1 (ring_span k) 0 pkt 0 db ringHeadOffset (head_of d1 (ring_span k) + 1)"
  have len: "length pkt \<le> length d1" "length db = 16" "desc_base (ring_span k) 0 + 16 \<le> length d1" "ring_span k + 8 \<le> length d1"
    using pkt(1,2) S(2) desc_isD(1) [OF W(2)] two sp by (simp_all add: desc_base_def)
  have "window ?d 0 (length pkt) = pkt"
    using len pkt(3) by (simp add: commit_mem_def window_overlay_other window_overlay_same desc_base_def)
  moreover have "region_data (put_region_data p1 0 ?d) 0 = Some ?d"
    using S(1) len by (simp add: region_data_put commit_mem_def)
  ultimately show ?thesis using S(1,5,6,8) W(1) by auto
qed

end
