(* ===== verification/Samples.thy ===== *)
theory Samples
  imports Session Chain Traffic Queue_Pairs
begin

text \<open>
  Concrete instances for the properties: a world in which every system call and callback succeeds
  and mappings are zeroed, a configuration with one queue pair of two slots and 64-byte buffers, and
  ports, channels and sockets built from them.
\<close>

definition w_env :: env where
  "w_env = \<lparr> memfd_create = \<lambda>_. Inr 5, add_seals = \<lambda>_ _. None, ftruncate = \<lambda>_ _ _. None,
     mmap = \<lambda>_ _ n. Inr (replicate (nat n) 0), munmap = \<lambda>_ _. None, close_fd = \<lambda>_ _. None,
     eventfd2 = \<lambda>_. Inr 6, write_fd = \<lambda>_ _ _. Inr 8, epoll_create = \<lambda>_. Inr 3,
     epoll_add = \<lambda>_ _ _. None, epoll_del = \<lambda>_ _ _. None, epoll_wait = \<lambda>_ _. Inr [],
     socket_create = \<lambda>_. Inr 7, setsockopt = \<lambda>_ _. None, bind_fd = \<lambda>_ _ _. None,
     listen_fd = \<lambda>_ _. None, accept_fd = \<lambda>_ _. Inr 8, connect_fd = \<lambda>_ _ _. None,
     sendmsg = \<lambda>_ _ _ _. None, sendmsg_tail = \<lambda>_ _. 0, recvmsg = \<lambda>_ _. Inl ''no message'',
     remove_file = \<lambda>_ _. None, connectedFunc = \<lambda>_ _. None, disconnectedFunc = \<lambda>_ _. None \<rparr>"

definition w_mem :: MemoryConfig where
  "w_mem = \<lparr> NumQueuePairs = 1, Log2RingSize = 1, PacketBufferSize = 64 \<rparr>"

definition w_cfg :: "bool \<Rightarrow> PortCfg" where
  "w_cfg srv = \<lparr> cfg_Id = 1, cfg_IsServer = srv, cfg_Name = ''port'', cfg_Secret = replicate 24 0,
     cfg_MemoryConfig = w_mem, cfg_ConnectedFunc = UserFunc, cfg_DisconnectedFunc = UserFunc,
     cfg_ExtendData = None \<rparr>"

definition w_port :: "bool \<Rightarrow> port" where
  "w_port srv = \<lparr> p_cfg = w_cfg srv, p_run = w_mem, p_ExtendData = None, p_cc = None, p_remoteName = [],
     p_peerName = [], p_regions = [], p_txQueues = [], p_rxQueues = [], p_ErrChan = False, p_QuitChan = False \<rparr>"

definition w_region :: "byte list option \<Rightarrow> memoryRegion" where
  "w_region d = \<lparr> mr_data = d, mr_size = 576, mr_fd = 9, mr_packetBufferOffset = 320 \<rparr>"

definition w_queue :: "ringType \<Rightarrow> int \<Rightarrow> queue" where
  "w_queue rt off = \<lparr> q_ring = \<lparr> ring_ringType = rt, ring_size = 2, ring_log2Size = 1, ring_region = 0,
     ring_rb = replicate 128 0, ring_offset = off \<rparr>, q_lastHead = 0, q_lastTail = 0, q_interruptFd = 10 \<rparr>"

definition w_server :: port where
  "w_server = (w_port True)\<lparr>p_regions := [w_region (Some (replicate 576 0))]\<rparr>"

definition w_cc :: "nat option \<Rightarrow> byte list \<Rightarrow> controlChannel" where
  "w_cc po dt = \<lparr> cc_port = po, cc_fd = 20, cc_data = dt, cc_control = replicate 256 0, cc_controlLen = 0,
     cc_msgQueue = [], cc_isConnected = False \<rparr>"

definition w_socket :: "port \<Rightarrow> controlChannel \<Rightarrow> socket" where
  "w_socket p cc = \<lparr> s_appName = ''app'', s_filename = ''/s'', s_listener = None, s_portList = [0], s_ccList = [1],
     s_epfd = 3, s_wakeFd = 6, s_stopPollChan = None, s_ErrChan = [], s_ports = [0 \<mapsto> p], s_ccs = [1 \<mapsto> cc],
     s_next = 2, s_trace = [] \<rparr>"

definition w_two_ports :: socket where
  "w_two_ports = (w_socket (w_port True) (w_cc None (replicate 128 0)))\<lparr>s_portList := [0, 2], s_ccList := [],
     s_ports := [0 \<mapsto> w_port True, 2 \<mapsto> w_port False], s_next := 3\<rparr>"

lemmas w_defs = w_env_def w_mem_def w_cfg_def w_port_def w_region_def w_queue_def w_server_def w_cc_def w_socket_def

lemma w_one_pair: "one_pair w_mem 1"
  by (simp add: one_pair_def w_mem_def ring_span_def)

lemma w_mmap_full: "mmap_full w_env"
  by (simp add: mmap_full_def w_env_def)

lemma w_sizes: "packet_buffer_offset w_mem True = 320" "region_size w_mem True True = 576"
  by (simp_all add: packet_buffer_offset_def region_size_def w_mem_def)

lemma w_regions:
  "\<exists>tr'. initializeRegions w_env ((w_port b)\<lparr>p_remoteName := nm\<rparr>) tr =
     (None, (w_port b)\<lparr>p_remoteName := nm, p_regions := [\<lparr> mr_data = Some (replicate 576 0), mr_size = 576, mr_fd = 5,
        mr_packetBufferOffset = 320 \<rparr>]\<rparr>, tr')"
  using w_sizes by (simp add: initializeRegions_def addRegion_def memfdCreate_def w_env_def w_port_def)

lemma w_eventFd: "eventFd w_env tr = (Inr 6, SysEventfd # tr)"
  by (simp add: eventFd_def w_env_def)

text \<open>A client port that went through the set-up.\<close>

lemma w_client:
  obtains p d where "client_ready p 1 d (new_queue w_mem ringTypeS2M 6) (new_queue w_mem ringTypeM2S 6)"
    "p_cfg p = w_cfg False" "p_run p = w_mem" "length d = 576"
proof -
  obtain tr1 where i: "initializeRegions w_env (w_port False) [] =
     (None, (w_port False)\<lparr>p_regions := [\<lparr> mr_data = Some (replicate 576 0), mr_size = 576, mr_fd = 5,
        mr_packetBufferOffset = 320 \<rparr>]\<rparr>, tr1)"
    using w_regions [where b = False and nm = "[]" and tr = "[]"] by (auto simp: w_port_def)
  have f: "p_regions (w_port False) = []" "p_txQueues (w_port False) = []" "p_rxQueues (w_port False) = []"
    "one_pair (p_run (w_port False)) 1" "p_run (w_port False) = w_mem" "p_cfg (w_port False) = w_cfg False"
    using w_one_pair by (simp_all add: w_port_def)
  obtain d p2 r where c: "p2 = (w_port False)\<lparr>p_regions := [r\<lparr>mr_data := Some d\<rparr>],
      p_txQueues := [new_queue w_mem ringTypeS2M 6], p_rxQueues := [new_queue w_mem ringTypeM2S 6]\<rparr>"
    "client_ready p2 1 d (new_queue w_mem ringTypeS2M 6) (new_queue w_mem ringTypeM2S 6)"
    using client_setup [OF f(4,1-3) w_mmap_full i w_eventFd w_eventFd] unfolding f(5) by blast
  then have "length d = 576" by (simp add: client_ready_def f(5)) (simp add: w_mem_def ring_span_def)
  then show thesis using that c by (simp add: f)
qed

lemma w_peer: "peer_queue w_server (w_queue ringTypeS2M 0) 1 0 576" "peer_queue w_server (w_queue ringTypeM2S 160) 1 160 576"
  by (simp_all add: peer_queue_def w_defs maps_region_def region_data_def go_nth_def bytes_of_def q_at_def)

text \<open>A ring of two slots with 4-byte buffers in 168 bytes, with the given head byte and tail bytes. The
  first descriptor announces a continuation.\<close>

definition w_ring_mem :: "byte \<Rightarrow> byte list \<Rightarrow> byte list" where
  "w_ring_mem h t = replicate 6 0 @ [h, 0] @ replicate 56 0 @ t @ replicate 62 0 @
     [1, 0, 0, 0, 4, 0, 0, 0, 160, 0, 0, 0, 0, 0, 0, 0] @ [0, 0, 0, 0, 4, 0, 0, 0, 164, 0, 0, 0, 0, 0, 0, 0] @
     [9, 8, 7, 6, 5, 4, 3, 2]"

definition w_ring_port :: "bool \<Rightarrow> byte list \<Rightarrow> port" where
  "w_ring_port srv d = (w_port srv)\<lparr>p_regions := [w_region (Some d)], p_run := w_mem\<lparr>PacketBufferSize := 4\<rparr>\<rparr>"

text \<open>A server port with one ring, its cookie in place, whose receive queue was used before.\<close>

definition w_greeted_port :: port where
  "w_greeted_port = w_server\<lparr>p_regions := [w_region (Some ([0x20, 0x1F, 0xE3, 0x03] @ replicate 572 0))],
     p_rxQueues := [(w_queue ringTypeS2M 0)\<lparr>q_lastHead := 7\<rparr>]\<rparr>"

lemma w_ring_at: "length t = 2 \<Longrightarrow> ring_at (w_ring_port b (w_ring_mem h t)) (w_queue rt 0) 1 0 (w_ring_mem h t)"
  by (simp add: ring_at_def w_ring_port_def w_port_def w_region_def w_queue_def region_data_def go_nth_def bytes_of_def
      ring_span_def) (simp add: w_ring_mem_def)

lemma w_ring_header:
  "head_of (w_ring_mem 1 [255, 255]) 0 = 1" "tail_of (w_ring_mem 1 [255, 255]) 0 = 65535"
  "head_of (w_ring_mem 0 [0, 0]) 0 = 0" "tail_of (w_ring_mem 0 [0, 0]) 0 = 0"
  by code_simp+

lemma w_ring_descs:
  "desc_is (desc_of (w_ring_mem 1 [255, 255]) 0 0) 1 0 4 160"
  "desc_is (desc_of (w_ring_mem 0 [0, 0]) 0 0) 1 0 4 160" "desc_is (desc_of (w_ring_mem 0 [0, 0]) 0 1) 0 0 4 164"
  by (simp_all add: desc_is_def) code_simp+

lemma w_ring_chain: "packet_at False (w_ring_mem 2 [0, 0]) 0 1 0 0 [(160, 4), (164, 4)]" "head_of (w_ring_mem 2 [0, 0]) 0 = 2"
  "payload (w_ring_mem 2 [0, 0]) [(160, 4), (164, 4)] = [9, 8, 7, 6, 5, 4, 3, 2]"
proof -
  have l: "length (w_ring_mem 2 [0, 0]) = 168" by (simp add: w_ring_mem_def)
  have "desc_is (desc_of (w_ring_mem 2 [0, 0]) 0 0) 1 0 (int 4) (int 160)" "desc_is (desc_of (w_ring_mem 2 [0, 0]) 0 1) 0 0 (int 4) (int 164)"
    by (simp_all add: desc_is_def) code_simp+
  then show "packet_at False (w_ring_mem 2 [0, 0]) 0 1 0 0 [(160, 4), (164, 4)]"
    by (fastforce simp: l descFlagNext_def)
qed code_simp+

text \<open>A client and a server whose kernel passes descriptors on unchanged.\<close>

definition w_link :: link where
  "w_link = \<lparr> lk_cenv = w_env, lk_senv = w_env, lk_pass = id, lk_dup = id, lk_port = 2, lk_cchan = 3, lk_schan = 2 \<rparr>"

lemma w_new_client:
  "\<exists>cs. NewPort w_env ((w_cfg False)\<lparr>cfg_MemoryConfig := m\<rparr>) (w_socket (w_port True) (w_cc None [])) = Some (Inr 2, cs) \<and>
     map_option p_cc (s_ports cs 2) = Some (Some 3)"
proof -
  let ?s = "w_socket (w_port True) (w_cc None [])" and ?p = "new_port ((w_cfg False)\<lparr>cfg_MemoryConfig := m\<rparr>)"
  let ?s1 = "add_port ((w_cfg False)\<lparr>cfg_MemoryConfig := m\<rparr>) ?s"
  have e: "socket_NewPort w_env ((w_cfg False)\<lparr>cfg_MemoryConfig := m\<rparr>) ?s = Some (Inr 2, ?s1)"
    by (simp add: socket_NewPort_def id_taken_def w_socket_def w_port_def w_cfg_def Let_def)
  have p: "s_ports ?s1 2 = Some ?p" "\<not> cfg_IsServer (p_cfg ?p)" "\<not> IsConnecting ?p" "\<not> IsServer ?p" "s_next ?s1 = 3"
    by (simp_all add: add_port_def w_socket_def new_port_def default_cfg_def IsConnecting_def IsServer_def w_cfg_def)
  have "\<exists>s'. RequestConnection w_env 2 ?s1 = Some (None, s') \<and> map_option p_cc (s_ports s' 2) = Some (Some 3)"
    using p by (simp add: RequestConnection_def addControlChannel_def addEvent_def w_env_def and_then_def sys_step_def wrap_err_def Let_def)
  then show ?thesis
    using e p connect_loop_unfold [OF p(1,2), of w_env] by (auto simp: NewPort_def wrap_err_def)
qed

lemma w_cfg_mem: "(w_cfg b)\<lparr>cfg_MemoryConfig := w_mem\<rparr> = w_cfg b"
  by (simp add: w_cfg_def)

lemma w_setup: "setup_ok w_env" "passes_fds w_link"
  "server_listens w_env (w_socket (w_port True) (w_cc None [])) 4 0 (w_port True) 1"
  by (simp_all add: setup_ok_def mmap_full_def sends_ok_def fd_ok_def w_env_def passes_fds_def w_link_def unixRights_gives_fd
      server_listens_def) (simp add: w_defs)

text \<open>A connection with buffers of 1024 bytes, for packets of 800 bytes.\<close>

definition w_big :: MemoryConfig where "w_big = w_mem\<lparr>PacketBufferSize := 1024\<rparr>"

definition w_big_server :: port where
  "w_big_server = (w_port True)\<lparr>p_regions := [w_region (Some (replicate 4416 0))], p_rxQueues := [w_queue ringTypeS2M 0],
     p_txQueues := [w_queue ringTypeM2S 160]\<rparr>"

text \<open>A client port with a fresh region for two queue pairs.\<close>

definition w_two_pairs :: port where
  "w_two_pairs = (w_port False)\<lparr>p_run := w_mem\<lparr>NumQueuePairs := 2\<rparr>,
     p_regions := [\<lparr> mr_data = Some (replicate 1152 0), mr_size = 1152, mr_fd = 10, mr_packetBufferOffset = 640 \<rparr>]\<rparr>"

lemma w_big_pair: "one_pair w_big 1"
  by (simp add: one_pair_def w_big_def w_mem_def ring_span_def)

lemma w_big_client:
  obtains p d where "client_ready p 1 d (new_queue w_big ringTypeS2M 6) (new_queue w_big ringTypeM2S 6)"
    "p_run p = w_big" "length d = 4416" "\<not> cfg_IsServer (p_cfg p)" "\<not> p_QuitChan p"
proof -
  let ?p = "(w_port False)\<lparr>p_run := w_big\<rparr>"
  have f: "one_pair (p_run ?p) 1" "p_regions ?p = []" "p_txQueues ?p = []" "p_rxQueues ?p = []" "p_run ?p = w_big"
    "\<not> cfg_IsServer (p_cfg ?p)" "\<not> p_QuitChan ?p"
    using w_big_pair by (simp_all add: w_port_def w_cfg_def)
  obtain r tr where i: "initializeRegions w_env ?p [] = (None, ?p\<lparr>p_regions := p_regions ?p @ [r]\<rparr>, tr)"
    using setup_regions [OF w_setup(1), of ?p "[]"] by blast
  obtain d p2 r2 where c: "p2 = ?p\<lparr>p_regions := [r2\<lparr>mr_data := Some d\<rparr>],
      p_txQueues := [new_queue w_big ringTypeS2M 6], p_rxQueues := [new_queue w_big ringTypeM2S 6]\<rparr>"
    "client_ready p2 1 d (new_queue w_big ringTypeS2M 6) (new_queue w_big ringTypeM2S 6)"
    using client_setup [OF f(1-4) w_mmap_full i w_eventFd w_eventFd] unfolding f(5) by blast
  have p2: "p_run p2 = w_big" "\<not> cfg_IsServer (p_cfg p2)" "\<not> p_QuitChan p2" using c(1) f(6,7) by simp_all
  have "length d = 4416" using c(2) by (simp add: client_ready_def p2(1)) (simp add: w_big_def ring_span_def)
  then show thesis using that c(2) p2 by blast
qed

lemma w_big_peer: "peer_queue w_big_server (w_queue ringTypeS2M 0) 1 0 4416" "peer_queue w_big_server (w_queue ringTypeM2S 160) 1 160 4416"
  by (simp_all add: peer_queue_def w_big_server_def w_defs maps_region_def region_data_def go_nth_def bytes_of_def q_at_def)

end
