(* ===== verification/Spec2Isabelle.thy ===== *)
theory Spec2Isabelle
  imports Samples
begin

text \<open>
  A verification of zmemif, a Go implementation of the memif protocol: packet interfaces between two
  processes over shared memory, set up through a Unix socket.

  \<^bold>\<open>The program.\<close> A \<^emph>\<open>socket\<close> (\<^verbatim>\<open>src/socket.go\<close>, \<^verbatim>\<open>src/main.go\<close>) owns an epoll instance, a listener,
  a list of \<^emph>\<open>ports\<close> and a list of \<^emph>\<open>control channels\<close>. Its polling goroutine hands every epoll event to
  the listener, which accepts a peer, or to a control channel (\<^verbatim>\<open>src/control_msg.go\<close>), which receives a
  frame of 128 bytes and acts on the message in it. A server greets a new peer (Hello). A client answers by
  creating one region of shared memory that holds its rings and packet buffers (\<^verbatim>\<open>src/mem_region.go\<close>) and
  by announcing itself (Init), the region (AddRegion) and the rings (AddRing) with their file descriptors
  attached, and asks for the connection (Connect). The server builds its queues over the same memory,
  maps it, checks the cookies of the rings (\<^verbatim>\<open>src/port.go\<close>) and confirms (Connected). From then on packets
  flow through the rings (\<^verbatim>\<open>src/ring.go\<close>, \<^verbatim>\<open>src/descriptor.go\<close>, \<^verbatim>\<open>src/queue.go\<close>,
  \<^verbatim>\<open>src/packet_processing.go\<close>) without the socket: a writer fills the buffers its descriptors point to and
  moves the head or the tail of the ring, a reader follows. A disconnect message, an error or a hang-up
  releases the memory and the descriptors. Beside the library are example programs (\<^verbatim>\<open>src/example\<close>): an echo
  client and server, and traffic generators that count packets.

  \<^bold>\<open>The theories.\<close>
  \<^item> \<open>Prelude\<close>: Go values, slices and panics; little-endian fields as the locales \<open>le_field\<close> and
    \<open>le_field_pair\<close>; the byte-list operations \<open>window\<close> and \<open>overlay\<close> all memory lemmas are stated with.
  \<^item> \<open>Descriptor\<close> (\<^verbatim>\<open>src/descriptor.go\<close>) and \<open>Ring\<close> (\<^verbatim>\<open>src/ring.go\<close>): the accessors of descriptors and
    ring headers, interpreted as independent fields.
  \<^item> \<open>Os\<close>: the system calls and application callbacks as a record \<open>env\<close> of functions, and the trace of
    requests; \<open>eventFd\<close> (\<^verbatim>\<open>src/util.go\<close>) and \<open>memfdCreate\<close>.
  \<^item> \<open>Port_Types\<close>: the structs of \<^verbatim>\<open>src/main.go\<close>, \<^verbatim>\<open>src/queue.go\<close>, \<^verbatim>\<open>src/mem_region.go\<close>.
  \<^item> \<open>Queue\<close> (\<^verbatim>\<open>src/queue.go\<close>): head, tail and descriptors in shared memory, interrupts.
  \<^item> \<open>Packet\<close> (\<^verbatim>\<open>src/packet_processing.go\<close>): \<open>ReadPacket\<close> and \<open>WritePacket\<close> with their loops; the exact
    effect of a call on the shared bytes. \<open>Chain\<close>: reads of packets that a peer has split over several slots.
  \<^item> \<open>Channel\<close>: both directions of a connection as instances of the locale \<open>fifo_channel\<close>, the contract
    of a bounded channel with credit; its lemma \<open>run_refines\<close> says that any interleaving of the two ends
    is a run of the abstract channel \<open>fifo_run\<close>. \<open>Duplex\<close>: both directions at once; since they share their
    buffers, when an operation of one leaves the packets of the other alone.
  \<^item> \<open>Mem_Region\<close> (\<^verbatim>\<open>src/mem_region.go\<close>): \<open>addRegion\<close>, \<open>initializeRegions\<close>, \<open>initializeQueues\<close>; that the
    set-up of one queue pair establishes the invariants of \<open>Channel\<close>. \<open>Queue_Pairs\<close>: the set-up of several
    queue pairs, which returns but leaves the second ring without descriptors.
  \<^item> \<open>Messages\<close>, \<open>Cmsg\<close>, \<open>Control\<close> (\<^verbatim>\<open>src/control_msg.go\<close>, and the life cycle of a port in
    \<^verbatim>\<open>src/port.go\<close>): the wire formats as instances of the locale \<open>codec\<close>, the ancillary data, every
    handler of the protocol.
  \<^item> \<open>Safety\<close>: the invariant \<open>sock_ok\<close> of a socket with everything it points to, and that every operation
    keeps it, by rules for the ways the code composes operations.
  \<^item> \<open>Port\<close> (accessors of \<^verbatim>\<open>src/port.go\<close>) and \<open>Socket\<close> (\<^verbatim>\<open>src/socket.go\<close>, \<^verbatim>\<open>src/main.go\<close>): creation,
    event dispatch, polling, deletion; the step relation \<open>sock_step\<close> and the reachable sockets.
  \<^item> \<open>Handshake\<close> and \<open>Teardown\<close>: the protocol from the greeting to a connection on each side, and its end.
    \<open>Session\<close>: the two sides as one system, with the frames in flight between them, and its reuse; there the
    server's \<open>mmap\<close> gives as many bytes of the client's region as it asks for.
  \<^item> \<open>Echo\<close> (\<^verbatim>\<open>src/example/simple_echo\<close>): the loops of the client and of the server, as an instance of the locale
    \<open>loopback\<close>, the contract of an echo service. \<open>Programs\<close> (the other directories of \<^verbatim>\<open>src/example\<close>, and all
    main programs): set-up, sending and receiving threads, the main loop. \<open>Traffic\<close>: a sending and a receiving
    program over several ports, with all threads and the shared counters, and the tally they refine.
  \<^item> \<open>Samples\<close>: concrete worlds, ports and sockets at which the properties are applied.

  \<^bold>\<open>The properties\<close> below: the data path as a FIFO channel in both directions (C1, C2); the handshake of
  client and server together (C3) and followed by the echo example (C4, with what is lost before the client's
  first read), on each side and the negotiation (C5 to C7); the invariant of all reachable sockets and the
  creation of ports (C8 to C11); messages, descriptor passing, frames and errors of the protocol (C12 to C16);
  the end of a connection and the reuse of both ports (C17 to C22); full rings, chains read, broken and written (C23 to C26); the memory layout and its
  limits (C27 to C30); fields, announced rings and interrupts (C31 to C33); \<open>connect\<close> and polling (C34, C35);
  the example programs (C36 to C39) and the use of queues after a disconnect (C40).

  \<^bold>\<open>Conventions.\<close> A panic is \<open>None\<close>, an error is a value. Fixed-width integers are words, so the 16-bit
  counters of the rings wrap around as in the code; \<open>int\<close> is unbounded and wrapped to 64 bits where it
  can overflow. The loops over a 16-bit slot count are recursions on that count and need no fuel. The
  connection loop of \<open>NewPort\<close> and the loops of \<open>Delete\<close> may run forever in principle: they are partial
  functions into \<open>option\<close>, and C9 and the invariant of the reachable sockets show or use that they
  return. The world is arbitrary unless a property names what it needs of it (for example that system
  calls succeed): any answer may depend on all requests made before.

  A dialogue of client and server is bounded by a number of deliveries; C3 gives the number after which
  nothing is in flight. The loops of the example programs are modelled by their bodies; a property holds for
  any sequence of iterations.

  \<^bold>\<open>Not modelled.\<close> The DPDK code (C) beside the library; log output; the scheduling of goroutines and the
  wait groups, except that steps of the polling goroutine, public operations and iterations of the example
  loops may interleave in any order; the callbacks of an application are functions to an error that do not
  change the port; the interleaving of single memory accesses of two processes or of two goroutines on one
  queue: an operation on a ring is one step. The properties of the data path are for one queue pair and
  writes that fit one buffer, the case in which the code works (so C38 is about the sender that uses one pair); C26, C28, C29, C30 and C37 say what it does
  beyond. In particular several queue pairs do not work (C30), so there is no data path to verify for them.
\<close>

section \<open>Both directions of a connection\<close>

text \<open>C1: From a client port set up by \<open>initializeRegions\<close> and \<open>initializeQueues\<close> and a server port
  over the same memory, any interleaving of \<open>WritePacket\<close> on the client's transmit queue (packets of 1
  to \<open>PacketBufferSize\<close> bytes) and \<open>ReadPacket\<close> on the server's receive queue runs without panic and
  does what the abstract channel of capacity \<open>2 ^ k\<close> does: it accepts a packet unless \<open>2 ^ k\<close> are in the
  ring, and delivers the oldest packet whenever there is one. The packets delivered, followed by the
  packets still in the ring, are the packets accepted, in order.\<close>

theorem client_to_server_fifo:
  assumes "one_pair (p_run p) k" and "client_ready p k d qt qr" and "\<not> cfg_IsServer (p_cfg p)"
    and "peer_queue srv sq k 0 (length d)"
    and "list_all (op_ok (packet_ok (unat (PacketBufferSize (p_run p))))) ops"
  shows "\<exists>c' ins outs.
    channel_run (\<lambda>pkt c. accepted (client_write env pkt c))
      (\<lambda>c. delivered (server_read (replicate (unat (PacketBufferSize (p_run p))) 0) c)) ops
      \<lparr> ch_mem = d, ch_client = p, ch_cq = qt, ch_server = srv, ch_sq = sq, ch_trace = tr \<rparr> = Some (c', ins, outs) \<and>
    fifo_run (2 ^ k) ops (2 ^ k) [] = (s2m_contents k 0 (buffer_at (p_run p) k) c', ins, outs) \<and>
    ins = outs @ s2m_contents k 0 (buffer_at (p_run p) k) c' \<and>
    length (s2m_contents k 0 (buffer_at (p_run p) k) c') \<le> 2 ^ k"
proof -
  note est = s2m_established [OF assms(1-4), of tr]
  from s2m.run_refines [OF est(1) assms(5), of env] est(2) show ?thesis
    by (fastforce dest: fifo_run_order fifo_run_bounded)
qed

theorem client_to_server_fifo_witness:
  "\<exists>p d c'. client_ready p 1 d (new_queue w_mem ringTypeS2M 6) (new_queue w_mem ringTypeM2S 6) \<and>
    channel_run (\<lambda>pkt c. accepted (client_write w_env pkt c)) (\<lambda>c. delivered (server_read (replicate 64 0) c))
      [Send [1, 2], Send [3], Send [5], Recv, Send [4]]
      \<lparr> ch_mem = d, ch_client = p, ch_cq = new_queue w_mem ringTypeS2M 6, ch_server = w_server,
        ch_sq = w_queue ringTypeS2M 0, ch_trace = [] \<rparr> = Some (c', [[1, 2], [3], [4]], [[1, 2]])"
proof -
  obtain p d where w: "client_ready p 1 d (new_queue w_mem ringTypeS2M 6) (new_queue w_mem ringTypeM2S 6)"
    "p_cfg p = w_cfg False" "p_run p = w_mem" "length d = 576" by (rule w_client)
  have "list_all (op_ok (packet_ok (unat (PacketBufferSize (p_run p))))) [Send [1, 2], Send [3], Send [5], Recv, Send [4]]"
    by (simp add: w(3) w_mem_def packet_ok_def)
  note ops = this
  have h: "one_pair (p_run p) 1" "\<not> cfg_IsServer (p_cfg p)" "peer_queue w_server (w_queue ringTypeS2M 0) 1 0 (length d)"
    using w(2-4) w_one_pair w_peer(1) by (simp_all add: w_cfg_def)
  have b: "unat (PacketBufferSize (p_run p)) = 64" by (simp add: w(3) w_mem_def)
  from client_to_server_fifo [OF h(1) w(1) h(2,3) ops, of w_env "[]"] w(1) show ?thesis unfolding b by auto
qed

text \<open>C2: The same for the other direction: \<open>WritePacket\<close> on the server's transmit queue and
  \<open>ReadPacket\<close>, with its refill of the ring, on the client's receive queue, for packet buffers below
  64 KiB. The abstract channel starts without credit: the server can write only after the client's first
  read has made the buffers available; from then on \<open>2 ^ k\<close> packets fit.\<close>

theorem server_to_client_fifo:
  assumes "one_pair (p_run p) k" and "client_ready p k d qt qr" and "\<not> cfg_IsServer (p_cfg p)"
    and "peer_queue srv sq k (ring_span k) (length d)" and "unat (PacketBufferSize (p_run p)) < 65536"
    and "list_all (op_ok (packet_ok (unat (PacketBufferSize (p_run p))))) ops"
  shows "\<exists>c' ins outs.
    channel_run (\<lambda>pkt c. accepted (server_write env pkt c))
      (\<lambda>c. delivered (client_read (replicate (unat (PacketBufferSize (p_run p))) 0) c)) ops
      \<lparr> ch_mem = d, ch_client = p, ch_cq = qr, ch_server = srv, ch_sq = sq, ch_trace = tr \<rparr> = Some (c', ins, outs) \<and>
    fifo_run (2 ^ k) ops 0 [] = (m2s_contents k (ring_span k) (buffer_at (p_run p) k) c', ins, outs) \<and>
    ins = outs @ m2s_contents k (ring_span k) (buffer_at (p_run p) k) c' \<and>
    length (m2s_contents k (ring_span k) (buffer_at (p_run p) k) c') \<le> 2 ^ k"
proof -
  note est = m2s_established [OF assms(1-5), of tr]
  from m2s.run_refines [OF est(1) assms(6), of env] est(2,3) show ?thesis
    by (fastforce dest: fifo_run_order fifo_run_bounded)
qed

theorem server_to_client_fifo_witness:
  "\<exists>p d c'. client_ready p 1 d (new_queue w_mem ringTypeS2M 6) (new_queue w_mem ringTypeM2S 6) \<and>
    channel_run (\<lambda>pkt c. accepted (server_write w_env pkt c)) (\<lambda>c. delivered (client_read (replicate 64 0) c))
      [Send [9], Recv, Send [1, 2], Send [3], Send [4], Recv]
      \<lparr> ch_mem = d, ch_client = p, ch_cq = new_queue w_mem ringTypeM2S 6, ch_server = w_server,
        ch_sq = w_queue ringTypeM2S 160, ch_trace = [] \<rparr> = Some (c', [[1, 2], [3]], [[1, 2]])"
proof -
  obtain p d where w: "client_ready p 1 d (new_queue w_mem ringTypeS2M 6) (new_queue w_mem ringTypeM2S 6)"
    "p_cfg p = w_cfg False" "p_run p = w_mem" "length d = 576" by (rule w_client)
  have "list_all (op_ok (packet_ok (unat (PacketBufferSize (p_run p))))) [Send [9], Recv, Send [1, 2], Send [3], Send [4], Recv]"
    by (simp add: w(3) w_mem_def packet_ok_def)
  note ops = this
  have b: "unat (PacketBufferSize (p_run p)) = 64" by (simp add: w(3) w_mem_def)
  have h: "one_pair (p_run p) 1" "\<not> cfg_IsServer (p_cfg p)"
    "peer_queue w_server (w_queue ringTypeM2S 160) 1 (ring_span 1) (length d)" "unat (PacketBufferSize (p_run p)) < 65536"
    using w(2-4) w_one_pair w_peer(2) b by (simp_all add: w_cfg_def ring_span_def)
  from server_to_client_fifo [OF h(1) w(1) h(2-4) ops, of w_env "[]"] w(1) show ?thesis unfolding b by auto
qed

section \<open>The handshake\<close>



text \<open>C4: From nothing to echoed packets: under the same hypotheses, for packet buffers of 800 to 2048 bytes,
  the ports that the handshake leaves behind are ready for the echo example. The queues its threads fetch
  from the two ports exist. If the first step is a read of the client's receiving loop, which makes the receive
  buffers available to the server, every continuation over the client's memory, that is any interleaving of the
  client's sending loop, the server's loop and the client's receiving loop with at most \<open>2 ^ k\<close> packets
  outstanding, runs without panic and is a run of the abstract echo service: every time stamp comes back once,
  unchanged and in order. The condition is needed: if a time stamp is sent and served before the client's first
  read, the server has no buffer to write to and the stamp is lost.\<close>

theorem session_echoes:
  assumes new: "NewPort (lk_cenv lk) cfg cs0 = Some (Inr (lk_port lk), cs)" "\<not> cfg_IsServer cfg"
      "map_option p_cc (s_ports cs (lk_port lk)) = Some (Some (lk_cchan lk))"
    and app: "cfg_ConnectedFunc cfg = UserFunc" "\<forall>tr. connectedFunc (lk_cenv lk) tr (lk_port lk) = None"
    and os: "setup_ok (lk_cenv lk)" "passes_fds lk" "lk_schan lk = s_next ss0"
    and srv: "server_listens (lk_senv lk) ss0 lfd j sp (cfg_Id cfg)"
    and run: "run = hello_run (default_memory (cfg_MemoryConfig cfg)) (hello_msg (s_appName ss0))" "one_pair run k"
      "800 \<le> unat (PacketBufferSize run)" "unat (PacketBufferSize run) \<le> 2048"
    and ops: "within (2 ^ k) ops 0 0"
  shows "\<exists>ss cs' ss' p' sp' d qt qr sqr sqt e outs.
    listener_handleEvent (lk_senv lk) lfd EPOLLIN ss0 = Some (None, ss) \<and>
    dialogue 11 lk \<lparr> se_client = cs, se_server = ss, se_up = [], se_down = sent ss0 ss \<rparr> =
      Some \<lparr> se_client = cs', se_server = ss', se_up = [], se_down = [] \<rparr> \<and>
    s_ports cs' (lk_port lk) = Some p' \<and> s_ports ss' j = Some sp' \<and> region_data p' 0 = Some d \<and>
    echo_send_queue p' = Some (Inr qt) \<and> echo_recv_queue p' = Some (Inr qr) \<and> echo_server_queues sp' = Some (Inr (sqr, sqt)) \<and>
    service_run (echo_submit env) (echo_serve env) echo_fetch (Fetch # ops) (echo_start d p' qt qr sp' sqr sqt []) = Some (e, outs) \<and>
    submitted ops = outs @ echo_downs k (buffer_at run k) e @ echo_ups k (buffer_at run k) e \<and>
    loop_run ops [] [] = (echo_ups k (buffer_at run k) e, echo_downs k (buffer_at run k) e, outs) \<and>
    (\<forall>ts. \<exists>e'. service_run (echo_submit env) (echo_serve env) echo_fetch [Submit ts, Serve, Fetch] (echo_start d p' qt qr sp' sqr sqt []) =
      Some (e', []) \<and> echo_ups k (buffer_at run k) e' = [] \<and> echo_downs k (buffer_at run k) e' = [])"
proof -
  obtain ss cs' cc' p' ss' sc' sp' d qt qr sqr sqt where S: "listener_handleEvent (lk_senv lk) lfd EPOLLIN ss0 = Some (None, ss)"
    "dialogue 11 lk \<lparr> se_client = cs, se_server = ss, se_up = [], se_down = sent ss0 ss \<rparr> =
      Some \<lparr> se_client = cs', se_server = ss', se_up = [], se_down = [] \<rparr>"
    "view cs' (lk_cchan lk) cc' (lk_port lk) p'" "view ss' (lk_schan lk) sc' j sp'"
    "p_cfg p' = default_cfg cfg" "p_run p' = run" "\<not> p_QuitChan p'" "client_ready p' k d qt qr"
    "p_rxQueues sp' = [sqr]" "p_txQueues sp' = [sqt]"
    "peer_queue sp' sqr k 0 (length d)" "peer_queue sp' sqt k (ring_span k) (length d)"
    by (rule session_from_NewPort [OF new app os srv run(1,2)])
  have c: "\<not> cfg_IsServer (p_cfg p')" using S(5) new(2) by (simp add: default_cfg_def)
  have v: "s_ports cs' (lk_port lk) = Some p'" "s_ports ss' j = Some sp'" "region_data p' 0 = Some d"
    using S(3,4,8) by (simp_all add: view_def client_ready_def)
  have early: "\<forall>ts. \<exists>e'. service_run (echo_submit env) (echo_serve env) echo_fetch [Submit ts, Serve, Fetch]
      (echo_start d p' qt qr sp' sqr sqt []) = Some (e', []) \<and> echo_ups k (buffer_at run k) e' = [] \<and> echo_downs k (buffer_at run k) e' = []"
    using echo_early_drop [OF _ S(8) c S(7,11,12), unfolded S(6), OF run(2-4)] by blast
  from echo_runs [OF _ S(8) c S(7,11,12,9,10) _ _ ops, unfolded S(6), OF run(2-4), of env "[]"] S(1,2) v early show ?thesis by blast
qed

theorem session_echoes_witness:
  "\<exists>cs ss ses p' sp' d qt qr sqr sqt e. NewPort w_env ((w_cfg False)\<lparr>cfg_MemoryConfig := w_big\<rparr>) (w_socket (w_port True) (w_cc None [])) = Some (Inr 2, cs) \<and>
    dialogue 11 w_link \<lparr> se_client = cs, se_server = ss, se_up = [],
      se_down = sent (w_socket (w_port True) (w_cc None [])) ss \<rparr> = Some ses \<and>
    s_ports (se_client ses) 2 = Some p' \<and> s_ports (se_server ses) 0 = Some sp' \<and>
    service_run (echo_submit w_env) (echo_serve w_env) echo_fetch [Fetch, Submit 7, Submit 8, Serve, Fetch, Submit 9, Serve, Fetch]
      (echo_start d p' qt qr sp' sqr sqt []) = Some (e, [7, 8])"
proof -
  let ?s = "w_socket (w_port True) (w_cc None [])" and ?c = "(w_cfg False)\<lparr>cfg_MemoryConfig := w_big\<rparr>"
  obtain cs where cs: "NewPort w_env ?c ?s = Some (Inr 2, cs)" "map_option p_cc (s_ports cs 2) = Some (Some 3)"
    using w_new_client by blast
  have l: "lk_cenv w_link = w_env" "lk_senv w_link = w_env" "lk_port w_link = 2" "lk_cchan w_link = 3" "lk_schan w_link = s_next ?s"
    by (simp_all add: w_link_def w_socket_def)
  have c: "cfg_Id ?c = 1" "\<not> cfg_IsServer ?c" "cfg_ConnectedFunc ?c = UserFunc" "\<forall>tr. connectedFunc w_env tr 2 = None"
    by (simp_all add: w_cfg_def w_env_def)
  have r: "w_big = hello_run (default_memory (cfg_MemoryConfig ?c)) (hello_msg (s_appName ?s))"
    by (simp add: hello_run_def hello_msg_def default_memory_def w_cfg_def w_mem_def w_big_def min16_def min8_def Let_def)
  have b: "800 \<le> unat (PacketBufferSize w_big)" "unat (PacketBufferSize w_big) \<le> 2048" by (simp_all add: w_big_def)
  have "within (2 ^ 1) [Submit (7 :: u64), Submit 8, Serve, Fetch, Submit 9, Serve, Fetch] 0 0" by simp
  from session_echoes [of w_link, unfolded l(1-4), OF cs(1) c(2) cs(2) c(3,4) w_setup(1,2) l(5) w_setup(3) [folded c(1)] r w_big_pair b this, of w_env]
  show ?thesis using cs(1) by fastforce
qed

text \<open>C5: A client channel that receives a greeting of a compatible version answers it when the
  system calls succeed: the port takes the negotiated sizes, its region and queues are set up
  (\<open>client_ready\<close>), and exactly the introduction, the region, the two rings and the connect request
  are queued for sending, in this order. The region's message carries the descriptor and size of the region
  that \<open>initializeRegions\<close> has added and that the port keeps, the rings' messages the event descriptors of the
  two queues.\<close>

theorem client_answers_greeting:
  assumes "view s c cc i p" and "holds_frame cc (put_le 2 msgTypeHello @ enc_Hello h)"
    and "length (hello_Name h) = 32" "hello_VersionMin h \<le> Version" "Version \<le> hello_VersionMax h"
    and "p_regions p = []" "p_txQueues p = []" "p_rxQueues p = []"
    and "one_pair (hello_run (cfg_MemoryConfig (p_cfg p)) h) k" and "mmap_full env"
    and "initializeRegions env (greeted h p) (s_trace s) = (None, p1, tr1)"
    and "eventFd env tr1 = (Inr fd1, tr2)" "eventFd env tr2 = (Inr fd2, tr3)"
  shows "\<exists>s' p2 d r qt qr. parseMsg env c s = Some (None, s') \<and>
    view s' c (cc\<lparr>cc_msgQueue := cc_msgQueue cc @ client_msgs (s_appName s) (p_cfg p) r qt qr\<rparr>) i p2 \<and>
    p_cfg p2 = p_cfg p \<and> p_run p2 = hello_run (cfg_MemoryConfig (p_cfg p)) h \<and>
    p_regions p1 = [r] \<and> p_regions p2 = [r\<lparr>mr_data := Some d\<rparr>] \<and>
    mr_size r = region_size (p_run p2) True True \<and> q_interruptFd qt = fd1 \<and> q_interruptFd qr = fd2 \<and>
    client_ready p2 k d qt qr"
  using client_answers [OF assms] by (fastforce simp: new_queue_def)

theorem client_answers_greeting_witness:
  "\<exists>s' p2 d r qt qr. parseMsg w_env 1 (w_socket (w_port False)
      (w_cc (Some 0) (put_le 2 msgTypeHello @ enc_Hello (hello_msg ''vpp'') @ replicate 83 0))) = Some (None, s') \<and>
    view s' 1 ((w_cc (Some 0) (put_le 2 msgTypeHello @ enc_Hello (hello_msg ''vpp'') @ replicate 83 0))
      \<lparr>cc_msgQueue := client_msgs ''app'' (w_cfg False) r qt qr\<rparr>) 0 p2 \<and> client_ready p2 1 d qt qr"
proof -
  let ?h = "hello_msg ''vpp''" and ?p = "w_port False"
  let ?cc = "w_cc (Some 0) (put_le 2 msgTypeHello @ enc_Hello ?h @ replicate 83 0)"
  have v: "view (w_socket ?p ?cc) 1 ?cc 0 ?p" by (simp add: view_def w_socket_def w_cc_def)
  have f: "holds_frame ?cc (put_le 2 msgTypeHello @ enc_Hello ?h)" by (simp add: holds_frame_def w_cc_def)
  have h: "length (hello_Name ?h) = 32" "hello_VersionMin ?h \<le> Version" "Version \<le> hello_VersionMax ?h"
    by (simp_all add: hello_msg_def)
  have z: "p_regions ?p = []" "p_txQueues ?p = []" "p_rxQueues ?p = []" by (simp_all add: w_port_def)
  have run: "hello_run (cfg_MemoryConfig (p_cfg ?p)) ?h = w_mem"
    by (simp add: hello_run_def hello_msg_def w_port_def w_cfg_def w_mem_def min16_def min8_def Let_def)
  then have g: "greeted ?h ?p = (w_port False)\<lparr>p_remoteName := string_of_bytes (hello_Name ?h)\<rparr>"
    by (simp add: greeted_def) (simp add: w_port_def)
  obtain p1 tr1 where i: "initializeRegions w_env (greeted ?h ?p) (s_trace (w_socket ?p ?cc)) = (None, p1, tr1)"
    using w_regions unfolding g by blast
  have o1: "one_pair (hello_run (cfg_MemoryConfig (p_cfg ?p)) ?h) 1" unfolding run by (rule w_one_pair)
  from client_answers_greeting [OF v f h z o1 w_mmap_full i w_eventFd w_eventFd]
  show ?thesis by (simp add: w_socket_def w_port_def) (simp add: w_cc_def, blast)
qed

text \<open>C6: A server with a waiting port that receives these five messages, with descriptors attached
  and the region mapped to the client's memory, ends connected: its port has one receive and one
  transmit queue, and over the shared memory both directions satisfy the invariants of the channels of
  C1 and C2, with nothing in flight.\<close>

theorem server_completes_handshake:
  assumes "server_waits env s c j sp (cfg_Id (p_cfg p))"
    and "one_pair (p_run p) k" and "client_ready p k d qt qr" and "\<not> cfg_IsServer (p_cfg p)"
    and "unat (PacketBufferSize (p_run p)) < 65536"
    and "qt = new_queue (p_run p) ringTypeS2M f1" "qr = new_queue (p_run p) ringTypeM2S f2"
    and "gives_fd cb rfd" "gives_fd cc tfd" "gives_fd cd xfd"
    and "\<And>tr. mmap env tr rfd (sint (mr_size r)) = Inr d"
  shows "\<exists>s' cc' sp' sqr sqt.
    serve env c (frames e (client_msgs app (p_cfg p) r qt qr)
      [(ta, ca), (tb, cb), (tc, cc), (td, cd), (te, ce)]) s = Some (None, s') \<and>
    view s' c cc' j sp' \<and> cc_isConnected cc' \<and> p_rxQueues sp' = [sqr] \<and> p_txQueues sp' = [sqt] \<and>
    (let B = buffer_at (p_run p) k; bsz = unat (PacketBufferSize (p_run p));
         up = \<lparr> ch_mem = d, ch_client = p, ch_cq = qt, ch_server = sp', ch_sq = sqr, ch_trace = [] \<rparr>;
         down = \<lparr> ch_mem = d, ch_client = p, ch_cq = qr, ch_server = sp', ch_sq = sqt, ch_trace = [] \<rparr>
     in s2m_inv k 0 B bsz up \<and> s2m_contents k 0 B up = [] \<and>
        m2s_inv k (ring_span k) B bsz down \<and> m2s_contents k (ring_span k) B down = [])"
proof -
  have d: "2 * ring_span k \<le> length d" "cookie_of d 0 = cookie" "cookie_of d (ring_span k) = cookie"
    using assms(3) by (simp_all add: client_ready_def ring_ready_def)
  obtain s' cc' sp' sqr sqt where r:
    "serve env c (frames e (client_msgs app (p_cfg p) r qt qr) [(ta, ca), (tb, cb), (tc, cc), (td, cd), (te, ce)]) s = Some (None, s')"
    "view s' c cc' j sp'" "cc_isConnected cc'" "p_rxQueues sp' = [sqr]" "p_txQueues sp' = [sqt]"
    "peer_queue sp' sqr k 0 (length d)" "peer_queue sp' sqt k (ring_span k) (length d)"
    using server_accepts [OF assms(1,2,6,7) d assms(8-11)] by blast
  with s2m_established [OF assms(2-4) r(6)] m2s_established [OF assms(2-4) r(7) assms(5)]
  show ?thesis by (simp add: Let_def) blast
qed

theorem server_completes_handshake_witness:
  "\<exists>d s' cc'. serve (w_env\<lparr>mmap := \<lambda>_ _ _. Inr d\<rparr>) 1
     (frames w_env (client_msgs ''app'' (w_cfg False) (w_region None) (new_queue w_mem ringTypeS2M 6) (new_queue w_mem ringTypeM2S 6))
       [([], []), ([], unixRights 11), ([], unixRights 12), ([], unixRights 13), ([], [])])
     (w_socket (w_port True) (w_cc None (replicate 128 0))) = Some (None, s') \<and>
   s_ccs s' 1 = Some cc' \<and> cc_isConnected cc'"
proof -
  obtain p d where w: "client_ready p 1 d (new_queue w_mem ringTypeS2M 6) (new_queue w_mem ringTypeM2S 6)"
    "p_cfg p = w_cfg False" "p_run p = w_mem" "length d = 576" by (rule w_client)
  let ?env = "w_env\<lparr>mmap := \<lambda>_ _ _. Inr d\<rparr>"
  have s: "server_waits ?env (w_socket (w_port True) (w_cc None (replicate 128 0))) 1 0 (w_port True) (cfg_Id (p_cfg p))"
    by (simp add: server_waits_def w_defs w(2) idle_def msgSize_def maxControlLen_def sends_ok_def)
  have h: "one_pair (p_run p) 1" "\<not> cfg_IsServer (p_cfg p)" "unat (PacketBufferSize (p_run p)) < 65536"
    "new_queue w_mem ringTypeS2M 6 = new_queue (p_run p) ringTypeS2M 6"
    "new_queue w_mem ringTypeM2S 6 = new_queue (p_run p) ringTypeM2S 6"
    using w w_one_pair by (simp_all add: w_cfg_def w_mem_def)
  have f: "gives_fd (unixRights 11) 11" "gives_fd (unixRights 12) 12" "gives_fd (unixRights 13) 13"
    by (rule unixRights_gives_fd; simp)+
  have m: "\<And>tr. mmap ?env tr 11 (sint (mr_size (w_region None))) = Inr d" by simp
  from server_completes_handshake [OF s h(1) w(1) h(2-5) f m, where e = w_env and app = "''app''" and
      ta = "[]" and tb = "[]" and tc = "[]" and td = "[]" and te = "[]" and ca = "[]" and ce = "[]"]
  show ?thesis unfolding w(2) view_def by blast
qed

text \<open>C7: The negotiation of a greeting: the running configuration never exceeds the port's own, nor
  the peer's limits for server-to-client rings and for the ring size. The limit for client-to-server
  rings has no effect: the value computed from it is overwritten.\<close>

theorem negotiated_sizes:
  "NumQueuePairs (hello_run cfg h) = min (NumQueuePairs cfg) (hello_MaxRingM2S h) \<and>
   Log2RingSize (hello_run cfg h) = min (Log2RingSize cfg) (hello_MaxLog2RingSize h) \<and>
   PacketBufferSize (hello_run cfg h) = PacketBufferSize cfg \<and>
   hello_run cfg (h\<lparr>hello_MaxRingS2M := n\<rparr>) = hello_run cfg h"
  by (auto simp: hello_run_def Let_def min16_def min8_def min_def)

section \<open>Sockets and ports\<close>

text \<open>C8: Every socket reachable from \<open>NewSocket\<close> by events of the polling goroutine and by the
  public operations, in any order, with any behaviour of the system calls and of the peers, satisfies
  the invariant \<open>sock_ok\<close>: all pointers between socket, ports and channels lead to objects, the receive
  buffers keep their sizes, every queued message can be sent, and no two ports of the socket have the
  same id and the same role.\<close>

theorem reachable_sockets_ok:
  assumes "reachable env s"
  shows "sock_ok s \<and>
    (\<forall>i\<in>set (s_portList s). \<forall>j\<in>set (s_portList s). role_of s i = role_of s j \<longrightarrow> i = j) \<and>
    (\<forall>c\<in>set (s_ccList s). \<exists>cc. s_ccs s c = Some cc \<and> length (cc_data cc) = msgSize \<and>
       (\<forall>i. cc_port cc = Some i \<longrightarrow> (\<exists>p. s_ports s i = Some p)))"
proof -
  have ok: "sock_ok s" using assms by (rule reachable_ok)
  moreover have "\<exists>cc. s_ccs s c = Some cc \<and> length (cc_data cc) = msgSize \<and>
       (\<forall>i. cc_port cc = Some i \<longrightarrow> (\<exists>p. s_ports s i = Some p))" if "c \<in> set (s_ccList s)" for c
    using that ok sock_ok_cc [OF ok, of c] by (fastforce simp: sock_ok_def cc_ok_def)
  ultimately show ?thesis by (auto simp: sock_ok_def inj_on_def)
qed

theorem reachable_sockets_ok_witness:
  "\<exists>s tr. NewSocket w_env [] ''app'' [] = Some (Inr s, tr) \<and> reachable w_env s \<and> sock_ok s"
proof -
  have "\<exists>s tr. NewSocket w_env [] ''app'' [] = Some (Inr s, tr)"
    by (simp add: NewSocket_def addEvent_def eventFd_def w_env_def Let_def)
  then obtain s tr where n: "NewSocket w_env [] ''app'' [] = Some (Inr s, tr)" by blast
  then have "reachable w_env s" by (rule reachable.New)
  with reachable_sockets_ok [OF this] n show ?thesis by blast
qed

text \<open>C9: \<open>NewPort\<close> on a well-formed socket always returns, without panic: its connection loop ends
  after at most one request. For a client it returns either an error or a port that is bound to a
  registered control channel; the socket stays well formed.\<close>

theorem NewPort_returns:
  assumes "sock_ok s"
  shows "\<exists>r s'. NewPort env cfg s = Some (r, s') \<and> sock_ok s' \<and>
    (\<forall>i. r = Inr i \<longrightarrow> i = s_next s \<and> role_of s' i = Some (cfg_Id cfg, cfg_IsServer cfg) \<and>
       (\<not> cfg_IsServer cfg \<longrightarrow> (\<exists>p c. s_ports s' i = Some p \<and> p_cc p = Some c \<and> s_ccs s' c \<noteq> None)))"
proof -
  obtain r s1 where e: "socket_NewPort env cfg s = Some (r, s1)" using socket_NewPort_total by blast
  note ok = socket_NewPort_ok [OF assms e]
  show ?thesis
  proof (rule NewPort_cases [OF assms e])
    fix i p assume "r = Inr i" "cfg_IsServer cfg" "NewPort env cfg s = Some (Inr i, s1)"
    then show ?thesis using ok socket_NewPort_port [OF assms] e by auto
  next
    fix i p err s2 assume a: "r = Inr i" "s_ports s1 i = Some p" "p_cfg p = default_cfg cfg" "\<not> cfg_IsServer cfg"
      "connect_loop env i s1 = Some (err, s2)" "NewPort env cfg s = Some (case err of Some e \<Rightarrow> Inl e | None \<Rightarrow> Inr i, s2)"
    have cl: "\<not> cfg_IsServer (p_cfg p)" using a(3,4) by (simp add: default_cfg_def)
    have k: "sock_ok s2" "keeps s1 s2" using connect_loop_outcome [OF ok a(2) cl, of env] a(5) by simp_all
    have "\<exists>p c. s_ports s2 i = Some p \<and> p_cc p = Some c" if "err = None"
      using a(5) that connect_loop_unfold [OF a(2) cl, of env] RequestConnection_total [OF a(2) cl, of env] a(2)
      by (auto simp: wrap_err_def IsConnecting_def split: if_splits)
    then have "\<exists>p c. s_ports s2 i = Some p \<and> p_cc p = Some c \<and> s_ccs s2 c \<noteq> None" if "err = None"
      using that sock_ok_port [OF k(1)] by (fastforce simp: port_ok_def)
    then show ?thesis
      using a(1,6) k socket_NewPort_port [OF assms e [unfolded a(1)]] keeps_role [OF k(2)]
      by (auto split: option.splits)
  qed (use ok in auto)
qed

theorem NewPort_returns_witness:
  "\<exists>r s'. NewPort w_env ((w_cfg False)\<lparr>cfg_Id := 7\<rparr>) (w_socket (w_port True) (w_cc None (replicate 128 0))) = Some (r, s') \<and> sock_ok s'"
proof -
  have "sock_ok (w_socket (w_port True) (w_cc None (replicate 128 0)))"
    by (simp add: sock_ok_def w_defs cc_ok_def port_ok_def msgSize_def maxControlLen_def)
  from NewPort_returns [OF this, of w_env "(w_cfg False)\<lparr>cfg_Id := 7\<rparr>"] show ?thesis by blast
qed

text \<open>C10: \<open>Socket.NewPort\<close> with an id and role that a port of the socket has is refused and changes
  nothing; otherwise the new port has the configuration with the defaults filled in.\<close>

theorem NewPort_unique_ids:
  assumes "sock_ok s"
  shows "if \<exists>i\<in>set (s_portList s). role_of s i = Some (cfg_Id cfg, cfg_IsServer cfg)
    then \<exists>e. socket_NewPort env cfg s = Some (Inl e, s)
    else \<exists>r s'. socket_NewPort env cfg s = Some (r, s') \<and> sock_ok s' \<and> s_next s \<in> set (s_portList s') \<and>
      (\<exists>p. s_ports s' (s_next s) = Some p \<and> p_cfg p = default_cfg cfg \<and> NumQueuePairs (cfg_MemoryConfig (p_cfg p)) \<noteq> 0 \<and>
        Log2RingSize (cfg_MemoryConfig (p_cfg p)) \<noteq> 0 \<and> PacketBufferSize (cfg_MemoryConfig (p_cfg p)) \<noteq> 0)"
proof (cases "list_ex (id_taken s cfg) (s_portList s)")
  case True
  then show ?thesis by (auto simp: socket_NewPort_def list_ex_iff id_taken_role)
next
  case False
  obtain r s' where e: "socket_NewPort env cfg s = Some (r, s')" using socket_NewPort_total by blast
  have l: "s_portList (add_port cfg s) = s_portList s @ [s_next s]" by (simp add: add_port_def)
  have k: "keeps (add_port cfg s) s' \<and> s_portList s' = s_portList s @ [s_next s]"
    using e False safeD [OF safe_addListener add_port_ok [OF assms False], of env]
    by (auto simp: socket_NewPort_def Let_def bind_eq_Some_conv l dest: addListener_portList split: if_splits)
  have "s_ports (add_port cfg s) (s_next s) = Some (new_port cfg)" by (simp add: add_port_def)
  then obtain p where "s_ports s' (s_next s) = Some p" "p_cfg p = default_cfg cfg"
    using k keeps_port by (metis new_port_def port.select_convs(1))
  moreover have "NumQueuePairs (default_memory m) \<noteq> 0" "Log2RingSize (default_memory m) \<noteq> 0"
    "PacketBufferSize (default_memory m) \<noteq> 0" for m
    by (simp_all add: default_memory_def DefaultNumQueuePairs_def DefaultLog2RingSize_def DefaultPacketBufferSize_def)
  ultimately show ?thesis
    using False e k socket_NewPort_ok [OF assms e] by (auto simp: list_ex_iff id_taken_role default_cfg_def)
qed

theorem NewPort_unique_ids_witness:
  "(\<exists>e. socket_NewPort w_env (w_cfg True) (w_socket (w_port True) (w_cc None (replicate 128 0))) =
       Some (Inl e, w_socket (w_port True) (w_cc None (replicate 128 0)))) \<and>
   (\<exists>r s'. socket_NewPort w_env (w_cfg False) (w_socket (w_port True) (w_cc None (replicate 128 0))) = Some (r, s') \<and>
     2 \<in> set (s_portList s'))"
proof -
  let ?s = "w_socket (w_port True) (w_cc None (replicate 128 0))"
  have ok: "sock_ok ?s"
    by (simp add: sock_ok_def w_defs cc_ok_def port_ok_def msgSize_def maxControlLen_def)
  have "role_of ?s 0 = Some (1, True)" "s_portList ?s = [0]" "s_next ?s = 2" by (simp_all add: role_of_def w_defs)
  then show ?thesis
    using NewPort_unique_ids [OF ok, of "w_cfg True" w_env] NewPort_unique_ids [OF ok, of "w_cfg False" w_env]
    by (auto simp: w_cfg_def)
qed

text \<open>C11: When creating the listener fails, \<open>Socket.NewPort\<close> returns the error but the port stays in
  the list, so that the same configuration is refused from then on.\<close>

theorem failed_listener_blocks_id:
  assumes "sock_ok s" and "socket_NewPort env cfg s = Some (Inl e, s')"
    and "\<not> (\<exists>i\<in>set (s_portList s). role_of s i = Some (cfg_Id cfg, cfg_IsServer cfg))"
  shows "s_next s \<in> set (s_portList s') \<and> (\<exists>e'. socket_NewPort env' cfg s' = Some (Inl e', s'))"
proof -
  have free: "\<not> list_ex (id_taken s cfg) (s_portList s)" using assms(3) by (auto simp: list_ex_iff id_taken_role)
  with assms(2) obtain err where a: "addListener env (add_port cfg s) = Some (err, s')"
    by (auto simp: socket_NewPort_def Let_def bind_eq_Some_conv split: if_splits)
  have k: "keeps (add_port cfg s) s'"
    using safeD [OF safe_addListener add_port_ok [OF assms(1) free], of env] a by simp
  have m: "s_next s \<in> set (s_portList s')" using addListener_portList [OF a] by (simp add: add_port_def)
  moreover have "id_taken s' cfg (s_next s)"
    unfolding id_taken_role keeps_role [OF k] by (simp add: role_add_port)
  ultimately show ?thesis by (auto simp: socket_NewPort_def list_ex_iff)
qed

theorem failed_listener_blocks_id_witness:
  "\<exists>s' e e'. socket_NewPort (w_env\<lparr>bind_fd := \<lambda>_ _ _. Some ''in use''\<rparr>) ((w_cfg True)\<lparr>cfg_Id := 7\<rparr>)
       (w_socket (w_port True) (w_cc None (replicate 128 0))) = Some (Inl e, s') \<and>
     socket_NewPort w_env ((w_cfg True)\<lparr>cfg_Id := 7\<rparr>) s' = Some (Inl e', s')"
proof -
  let ?s = "w_socket (w_port True) (w_cc None (replicate 128 0))"
  let ?cfg = "(w_cfg True)\<lparr>cfg_Id := 7\<rparr>" and ?env = "w_env\<lparr>bind_fd := \<lambda>_ _ _. Some ''in use''\<rparr>"
  have ok: "sock_ok ?s"
    by (simp add: sock_ok_def w_defs cc_ok_def port_ok_def msgSize_def maxControlLen_def)
  have "\<exists>e s'. socket_NewPort ?env ?cfg ?s = Some (Inl e, s')"
    by (simp add: socket_NewPort_def addListener_def sys_step_def id_taken_def Let_def w_defs add_port_def
        put_port_def log_sys_def)
  then obtain e s' where f: "socket_NewPort ?env ?cfg ?s = Some (Inl e, s')" by blast
  have "\<not> (\<exists>i\<in>set (s_portList ?s). role_of ?s i = Some (cfg_Id ?cfg, cfg_IsServer ?cfg))"
    by (simp add: role_of_def w_defs)
  from failed_listener_blocks_id [OF ok f this, of w_env] f show ?thesis by blast
qed

section \<open>Messages and events\<close>

text \<open>C12: Every control message of the protocol survives the wire: the receiver of a frame decodes the
  message it was made of, whatever bytes follow it in the frame, and distinct messages have distinct
  encodings.\<close>

theorem frames_round_trip:
  assumes "length (hello_Name h) = 32" "length (init_Secret n) = 24" "length (init_Name n) = 32"
    and "length (connect_Name k) = 32" "length (connected_Name k') = 32" "length (dc_String x) = 96"
  shows "dec_Hello (drop msgTypeSize (put_le 2 t @ enc_Hello h @ rest)) = Inr h \<and>
    dec_Init (drop msgTypeSize (put_le 2 t @ enc_Init n @ rest)) = Inr n \<and>
    dec_AddRegion (drop msgTypeSize (put_le 2 t @ enc_AddRegion a @ rest)) = Inr a \<and>
    dec_AddRing (drop msgTypeSize (put_le 2 t @ enc_AddRing g @ rest)) = Inr g \<and>
    dec_Connect (drop msgTypeSize (put_le 2 t @ enc_Connect k @ rest)) = Inr k \<and>
    dec_Connected (drop msgTypeSize (put_le 2 t @ enc_Connected k' @ rest)) = Inr k' \<and>
    dec_Disconnect (drop msgTypeSize (put_le 2 t @ enc_Disconnect x @ rest)) = Inr x \<and>
    get_le (window (put_le 2 t @ rest) 0 2) = (t :: u16)"
proof -
  have "length (init_Secret n) = 24 \<and> length (init_Name n) = 32" using assms by simp
  then show ?thesis
    using hello.frame [OF assms(1)] initm.frame [of n] aregion.frame [OF TrueI] aring.frame [OF TrueI]
      conn.frame [OF assms(4)] connd.frame [OF assms(5)] disc.frame [OF assms(6)]
    by (simp add: codec_simps)
qed

theorem frames_round_trip_witness:
  "dec_Init (drop msgTypeSize (put_le 2 msgTypeInit @ enc_Init (init_msg ''app'' 5) @ [7, 7])) = Inr (init_msg ''app'' 5) \<and>
   dec_Hello (drop msgTypeSize (put_le 2 msgTypeInit @ enc_Hello (hello_msg ''vpp'') @ [7, 7])) = Inr (hello_msg ''vpp'')"
  using frames_round_trip [of "hello_msg ''vpp''" "init_msg ''app'' 5" "\<lparr> connect_Name = replicate 32 0 \<rparr>"
      "\<lparr> connected_Name = replicate 32 0 \<rparr>" "\<lparr> dc_Code = 0, dc_String = replicate 96 0 \<rparr>" msgTypeInit "[7, 7]"]
  by (simp add: hello_msg_def init_msg_def)

text \<open>C13: The file descriptor attached to a message is the one the receiver extracts, also when the
  kernel puts other ancillary messages, such as credentials, before or after it.\<close>

theorem attached_fd_received:
  assumes "\<forall>m\<in>set (ms @ ms'). \<not> (scm_Level m = SOL_SOCKET \<and> scm_Type m = SCM_RIGHTS) \<and> length (scm_Data m) < 2 ^ 32"
    and "0 \<le> fd" "fd < 2 ^ 31"
    and "window control 0 n = concat (map cmsg_bytes ms) @ unixRights fd @ concat (map cmsg_bytes ms')"
    and "n \<le> length control"
  shows "parseControlMsg control (int n) = Some (Inr fd)"
  using assms by (intro parseControlMsg_fd [of ms ms']) auto

theorem attached_fd_received_witness:
  "parseControlMsg (cmsg_bytes \<lparr> scm_Level = SOL_SOCKET, scm_Type = SCM_CREDENTIALS, scm_Data = replicate 12 3 \<rparr> @
      unixRights 42 @ replicate 200 0) 56 = Some (Inr 42)"
proof -
  let ?m = "\<lparr> scm_Level = SOL_SOCKET, scm_Type = SCM_CREDENTIALS, scm_Data = replicate 12 3 \<rparr>"
  have l: "length (cmsg_bytes ?m) = 32" by (simp add: cmsgAlignOf_def)
  have h: "\<forall>m\<in>set ([?m] @ []). \<not> (scm_Level m = SOL_SOCKET \<and> scm_Type m = SCM_RIGHTS) \<and> length (scm_Data m) < 2 ^ 32"
    by (simp add: SCM_CREDENTIALS_def SCM_RIGHTS_def)
  have w: "window (cmsg_bytes ?m @ unixRights 42 @ replicate 200 0) 0 56 =
      concat (map cmsg_bytes [?m]) @ unixRights 42 @ concat (map cmsg_bytes [])"
    using l by (simp add: window_def unixRights_def)
  have n: "56 \<le> length (cmsg_bytes ?m @ unixRights 42 @ replicate 200 0)" using l by (simp add: unixRights_def)
  show ?thesis using attached_fd_received [OF h _ _ w n] by simp
qed

text \<open>C14: \<open>sendMsg\<close> sends the oldest queued message as one frame of exactly 128 bytes that starts with
  the message, attaches its descriptor if it has one, and removes it from the queue whether or not
  sending succeeds; a failure is reported.\<close>

theorem sendMsg_frame:
  assumes "s_ccs s c = Some cc" and "cc_msgQueue cc = m # ms"
    and "cm_Buffer m \<noteq> []" "length (cm_Buffer m) \<le> msgSize"
  shows "\<exists>bs err s'. sendMsg env c s = Some (err, s') \<and> length bs = 128 \<and> take (length (cm_Buffer m)) bs = cm_Buffer m \<and>
    s_trace s' = SysSendmsg (cc_fd cc) bs (if 0 < cm_Fd m then unixRights (cm_Fd m) else []) # s_trace s \<and>
    s_ccs s' = (s_ccs s)(c \<mapsto> cc\<lparr>cc_msgQueue := ms\<rparr>) \<and> s_ports s' = s_ports s \<and>
    (err = None \<longleftrightarrow> sendmsg env (s_trace s) (cc_fd cc) bs (if 0 < cm_Fd m then unixRights (cm_Fd m) else []) = None)"
proof -
  let ?bs = "frame_bytes env (s_trace s) (cm_Buffer m)"
  have "length ?bs = 128" "take (length (cm_Buffer m)) ?bs = cm_Buffer m"
    using frame_bytes_split [OF assms(4)] by (simp_all add: msgSize_def)
  then show ?thesis using assms by (intro exI [of _ ?bs]) (simp add: sendMsg_def Let_def)
qed

theorem sendMsg_frame_witness:
  "\<exists>bs s'. sendMsg w_env 1 (w_socket (w_port True) ((w_cc None [])\<lparr>cc_msgQueue := [\<lparr> cm_Buffer = [1, 0], cm_Fd = - 1 \<rparr>]\<rparr>)) =
     Some (None, s') \<and> length bs = 128 \<and> s_trace s' = [SysSendmsg 20 bs []]"
  using sendMsg_frame [of "w_socket (w_port True) ((w_cc None [])\<lparr>cc_msgQueue := [\<lparr> cm_Buffer = [1, 0], cm_Fd = - 1 \<rparr>]\<rparr>)" 1
      "(w_cc None [])\<lparr>cc_msgQueue := [\<lparr> cm_Buffer = [1, 0], cm_Fd = - 1 \<rparr>]\<rparr>" "\<lparr> cm_Buffer = [1, 0], cm_Fd = - 1 \<rparr>" "[]" w_env]
  by (auto simp: w_socket_def msgSize_def) (auto simp: w_cc_def w_env_def)

text \<open>C15: A message of an unknown type on a channel that is not bound to a port ends the channel: the
  error is returned, the peer receives one disconnect frame with the error as its text, and the channel
  leaves the socket's list; no port changes.\<close>

theorem unknown_message_closes:
  assumes "s_ccs s c = Some cc" "cc_port cc = None" and "holds_frame cc (put_le 2 (t :: u16) @ body)" and "8 < t \<or> t = 0"
    and "sends_ok env" and "\<And>tr ep fd. epoll_del env tr ep fd = None"
  shows "\<exists>s'. parseMsg env c s = Some (Some (''unknown message '' @ itoa (uint t)), s') \<and>
    s_ccList s' = remove1 c (s_ccList s) \<and> s_ports s' = s_ports s \<and>
    s_trace s' = [SysEpollDel (s_epfd s) (cc_fd cc),
      SysSendmsg (cc_fd cc) (frame_bytes env (s_trace s) (disconnect_msg (''unknown message '' @ itoa (uint t)))) []] @ s_trace s"
proof -
  let ?e = "''unknown message '' @ itoa (uint t)"
  have t: "t \<noteq> msgTypeAck" "t \<noteq> msgTypeHello" "t \<noteq> msgTypeInit" "t \<noteq> msgTypeAddRegion" "t \<noteq> msgTypeAddRing"
    "t \<noteq> msgTypeConnect" "t \<noteq> msgTypeConnected" "t \<noteq> msgTypeDisconnect"
    using assms(4) by (auto simp: msgType_defs)
  then have d: "dispatch env c t s = Some (Some ?e, s)" by (simp add: dispatch_def)
  let ?s2 = "log_sys (SysEpollDel (s_epfd s) (cc_fd cc)) (log_sys (SysSendmsg (cc_fd cc)
      (frame_bytes env (s_trace s) (disconnect_msg ?e)) []) (put_cc c (cc\<lparr>cc_msgQueue := []\<rparr>) s))"
  have "cc_close env c True ?e s = Some (None, ?s2\<lparr>s_ccList := remove1 c (s_ccList ?s2)\<rparr>)"
    unfolding cc_close_sends [OF assms(1,5,6)] using assms(2) by (intro cc_detach_unbound [where cc = "cc\<lparr>cc_msgQueue := []\<rparr>"]) simp_all
  from parseMsg_error [OF assms(1,3) t(1) d this] show ?thesis by simp
qed

theorem unknown_message_closes_witness:
  "\<exists>s'. parseMsg w_env 1 (w_socket (w_port True) (w_cc None (put_le 2 (9 :: u16) @ replicate 126 0))) =
     Some (Some (''unknown message '' @ itoa 9), s') \<and> s_ccList s' = []"
proof -
  let ?cc = "w_cc None (put_le 2 (9 :: u16) @ replicate 126 0)"
  have "s_ccs (w_socket (w_port True) ?cc) 1 = Some ?cc" "cc_port ?cc = None"
    "holds_frame ?cc (put_le 2 (9 :: u16) @ replicate 126 0)" "sends_ok w_env" "\<And>tr ep fd. epoll_del w_env tr ep fd = None"
    by (simp_all add: w_socket_def w_cc_def holds_frame_def sends_ok_def w_env_def)
  from unknown_message_closes [OF this(1-3) _ this(4,5)] show ?thesis by (simp add: w_socket_def) blast
qed

text \<open>C16: The introduction a client sends never carries its secret: a server port with a secret refuses
  every client of this library.\<close>

theorem secret_never_sent:
  assumes "s_ccs s c = Some cc" and "holds_frame cc (put_le 2 msgTypeInit @ enc_Init (init_msg app ident))"
    and "find_peer (s_ports s) (s_portList s) ident = Some (i, p)" and "cfg_Secret (p_cfg p) \<noteq> replicate 24 0"
  shows "dispatch env c msgTypeInit s = Some (Some ''invalid secret'', s)"
  using parseInit_secret [OF assms] by (simp add: dispatch_def)

theorem secret_never_sent_witness:
  "dispatch w_env 1 msgTypeInit (w_socket ((w_port True)\<lparr>p_cfg := (w_cfg True)\<lparr>cfg_Secret := replicate 24 1\<rparr>\<rparr>)
     (w_cc None (put_le 2 msgTypeInit @ enc_Init (init_msg ''app'' 1) @ replicate 63 0))) =
   Some (Some ''invalid secret'', w_socket ((w_port True)\<lparr>p_cfg := (w_cfg True)\<lparr>cfg_Secret := replicate 24 1\<rparr>\<rparr>)
     (w_cc None (put_le 2 msgTypeInit @ enc_Init (init_msg ''app'' 1) @ replicate 63 0)))"
  by (rule secret_never_sent [where app = "''app''" and ident = 1 and i = 0 and
      cc = "w_cc None (put_le 2 msgTypeInit @ enc_Init (init_msg ''app'' 1) @ replicate 63 0)" and
      p = "(w_port True)\<lparr>p_cfg := (w_cfg True)\<lparr>cfg_Secret := replicate 24 1\<rparr>\<rparr>"])
    (simp_all add: holds_frame_def w_socket_def w_cc_def w_port_def w_cfg_def)

section \<open>The end of a connection\<close>

text \<open>C17: Closing the channel of a connected port releases everything, when the system calls succeed:
  the peer gets one disconnect frame, the channel leaves the epoll set and the list, the application is
  called, and then every queue descriptor is closed and every region unmapped and closed, each once and
  in this order; the port is left without queues, regions, channel and peer names.\<close>

theorem close_releases_everything:
  assumes "view s c cc i p" and "p_cc p \<noteq> None" and "distinct (s_ccList s)"
    and "sends_ok env" and "\<And>tr ep fd. epoll_del env tr ep fd = None" and "releases_ok env"
    and "cfg_DisconnectedFunc (p_cfg p) = UserFunc" and "\<And>tr. disconnectedFunc env tr i = None"
  shows "\<exists>s'. cc_close env c True str s = Some (None, s') \<and> s_ports s' = (s_ports s)(i \<mapsto> released p) \<and>
    c \<notin> set (s_ccList s') \<and>
    rev (s_trace s') = rev (s_trace s) @
      [SysSendmsg (cc_fd cc) (frame_bytes env (s_trace s) (disconnect_msg str)) [], SysEpollDel (s_epfd s) (cc_fd cc)] @
      release_trace i p"
proof -
  have v: "s_ccs s c = Some cc" "cc_port cc = Some i" "s_ports s i = Some p" using assms(1) by (simp_all add: view_def)
  let ?s2 = "log_sys (SysEpollDel (s_epfd s) (cc_fd cc)) (log_sys (SysSendmsg (cc_fd cc)
      (frame_bytes env (s_trace s) (disconnect_msg str)) []) (put_cc c (cc\<lparr>cc_msgQueue := []\<rparr>) s))"
  let ?s3 = "?s2\<lparr>s_ccList := remove1 c (s_ccList ?s2)\<rparr>"
  have "port_disconnect env i ?s3 = Some (None, (put_port i (released p) ?s3)\<lparr>s_trace := rev (release_trace i p) @ s_trace ?s3\<rparr>)"
    by (rule port_disconnect_releases) (use v assms in simp_all)
  then have "cc_close env c True str s =
      Some (None, (put_port i (released p) ?s3)\<lparr>s_trace := rev (release_trace i p) @ s_trace ?s3\<rparr>)"
    unfolding cc_close_sends [OF v(1) assms(4,5)] using v by (simp add: cc_detach_def Let_def wrap_err_def)
  then show ?thesis using assms(3) by simp
qed

theorem close_releases_everything_witness:
  "\<exists>s'. cc_close w_env 1 True ''bye'' (w_socket ((w_port False)\<lparr>p_cc := Some 1, p_regions := [w_region (Some [])],
       p_txQueues := [w_queue ringTypeS2M 0]\<rparr>) (w_cc (Some 0) [])) = Some (None, s') \<and>
     SysMunmap (Some []) \<in> set (s_trace s') \<and> SysClose 9 \<in> set (s_trace s') \<and> SysClose 10 \<in> set (s_trace s')"
proof -
  let ?p = "(w_port False)\<lparr>p_cc := Some 1, p_regions := [w_region (Some [])], p_txQueues := [w_queue ringTypeS2M 0]\<rparr>"
  let ?s = "w_socket ?p (w_cc (Some 0) [])"
  have h: "view ?s 1 (w_cc (Some 0) []) 0 ?p" "p_cc ?p \<noteq> None" "distinct (s_ccList ?s)" "sends_ok w_env"
    "\<And>tr ep fd. epoll_del w_env tr ep fd = None" "releases_ok w_env" "cfg_DisconnectedFunc (p_cfg ?p) = UserFunc"
    "\<And>tr. disconnectedFunc w_env tr 0 = None"
    by (simp_all add: view_def w_defs sends_ok_def releases_ok_def)
  obtain s' where s': "cc_close w_env 1 True ''bye'' ?s = Some (None, s')" and
    tr: "rev (s_trace s') = rev (s_trace ?s) @ [SysSendmsg (cc_fd (w_cc (Some 0) []))
      (frame_bytes w_env (s_trace ?s) (disconnect_msg ''bye'')) [], SysEpollDel (s_epfd ?s) (cc_fd (w_cc (Some 0) []))] @
      release_trace 0 ?p"
    using close_releases_everything [OF h, of "''bye''"] by blast
  have "set (s_trace s') = set (rev (s_trace s'))" by simp
  also have "\<dots> \<supseteq> set (release_trace 0 ?p)" unfolding tr by auto
  finally show ?thesis using s' by (auto simp: release_trace_def release_region_def w_region_def w_queue_def w_port_def)
qed

text \<open>C18: A server port can be used again: after its connection has ended (\<open>disconnect\<close> returned without
  error) a new client with the same id connects by the same dialogue as the first one, because disconnecting
  leaves the port without memory, queues and channel, and no other port of the socket has its id and role.\<close>

theorem server_reconnects:
  assumes srv: "sock_ok s" "j \<in> set (s_portList s)" "s_ports s j = Some sp" "p_cc sp \<noteq> None"
      "cfg_IsServer (p_cfg sp)" "cfg_Secret (p_cfg sp) = replicate 24 0" "0 < NumQueuePairs (cfg_MemoryConfig (p_cfg sp))"
      "cfg_ConnectedFunc (p_cfg sp) = UserFunc"
    and dis: "port_disconnect env j s = Some (None, ss0)"
    and os: "sends_ok (lk_senv lk)" "\<forall>tr ep fd. epoll_add (lk_senv lk) tr ep fd = None"
      "\<exists>nfd. accept_fd (lk_senv lk) (s_trace ss0) lfd = Inr nfd" "\<forall>tr. connectedFunc (lk_senv lk) tr j = None"
    and cl: "client_waits lk cs p" "cfg_Id (p_cfg p) = cfg_Id (p_cfg sp)" "passes_fds lk" "lk_schan lk = s_next ss0"
      "one_pair (hello_run (cfg_MemoryConfig (p_cfg p)) (hello_msg (s_appName ss0))) k"
  shows "\<exists>ss cs' cc' p' ss' sc' sp'.
    listener_handleEvent (lk_senv lk) lfd EPOLLIN ss0 = Some (None, ss) \<and>
    dialogue 11 lk \<lparr> se_client = cs, se_server = ss, se_up = [], se_down = sent ss0 ss \<rparr> =
      Some \<lparr> se_client = cs', se_server = ss', se_up = [], se_down = [] \<rparr> \<and>
    view cs' (lk_cchan lk) cc' (lk_port lk) p' \<and> cc_isConnected cc' \<and>
    view ss' (lk_schan lk) sc' j sp' \<and> cc_isConnected sc' \<and> length (p_rxQueues sp') = 1 \<and> length (p_txQueues sp') = 1"
proof -
  obtain sp0 where sp0: "server_listens (lk_senv lk) ss0 lfd j sp0 (cfg_Id (p_cfg p))"
    using server_listens_again [OF srv dis os] cl(2) by auto
  from session_completes [OF cl(1) sp0 cl(3-5)] show ?thesis by fastforce
qed

theorem server_reconnects_witness:
  "\<exists>cs ss0 ss ses cc. port_disconnect w_env 0 (w_socket (w_greeted_port\<lparr>p_cc := Some 1\<rparr>) (w_cc (Some 0) (replicate 128 0))) = Some (None, ss0) \<and>
    listener_handleEvent w_env 4 EPOLLIN ss0 = Some (None, ss) \<and>
    dialogue 11 w_link \<lparr> se_client = cs, se_server = ss, se_up = [], se_down = sent ss0 ss \<rparr> = Some ses \<and>
    s_ccs (se_server ses) 2 = Some cc \<and> cc_isConnected cc"
proof -
  let ?p = "w_greeted_port\<lparr>p_cc := Some 1\<rparr>"
  let ?s = "w_socket ?p (w_cc (Some 0) (replicate 128 0))"
  have "sock_ok ?s" by (simp add: sock_ok_def w_greeted_port_def w_defs cc_ok_def port_ok_def msgSize_def maxControlLen_def)
  note ok = this
  have p: "0 \<in> set (s_portList ?s)" "s_ports ?s 0 = Some ?p" "p_cc ?p \<noteq> None" "cfg_IsServer (p_cfg ?p)"
    "cfg_Secret (p_cfg ?p) = replicate 24 0" "0 < NumQueuePairs (cfg_MemoryConfig (p_cfg ?p))"
    "cfg_ConnectedFunc (p_cfg ?p) = UserFunc" "cfg_Id (p_cfg ?p) = 1"
    by (simp_all add: w_greeted_port_def w_defs)
  have "map_option (\<lambda>(e, s'). (e, s_next s', s_appName s')) (port_disconnect w_env 0 ?s) = Some (None, 2, ''app'')" by code_simp
  then obtain ss0 where d: "port_disconnect w_env 0 ?s = Some (None, ss0)" "s_next ss0 = 2" "s_appName ss0 = ''app''" by auto
  obtain cs where cs: "NewPort w_env (w_cfg False) (w_socket (w_port True) (w_cc None [])) = Some (Inr 2, cs)"
    "map_option p_cc (s_ports cs 2) = Some (Some 3)" using w_new_client [of w_mem] unfolding w_cfg_mem by blast
  let ?c = "(new_port (w_cfg False))\<lparr>p_cc := Some 3\<rparr>"
  have "\<not> cfg_IsServer (w_cfg False)" by (simp add: w_cfg_def)
  from NewPort_client [OF this cs(1)] cs(2) have "\<exists>cc. view cs 3 cc 2 ?c \<and> idle cc" by (auto simp: view_def)
  then have cl: "client_waits w_link cs ?c" using w_setup(1)
    by (simp add: client_waits_def w_link_def new_port_def default_cfg_def w_cfg_def) (simp add: w_env_def)
  have c: "cfg_Id (p_cfg ?c) = cfg_Id (p_cfg ?p)" "lk_schan w_link = s_next ss0" "lk_senv w_link = w_env"
    "hello_run (cfg_MemoryConfig (p_cfg ?c)) (hello_msg (s_appName ss0)) = w_mem"
    using p(8) d(2,3)
    by (simp_all add: new_port_def default_cfg_def w_cfg_def w_link_def hello_run_def hello_msg_def default_memory_def w_mem_def min16_def min8_def Let_def)
  have os: "sends_ok w_env" "\<forall>tr ep fd. epoll_add w_env tr ep fd = None" "\<exists>nfd. accept_fd w_env (s_trace ss0) 4 = Inr nfd"
    "\<forall>tr. connectedFunc w_env tr 0 = None" by (simp_all add: sends_ok_def w_env_def)
  from server_reconnects [of ?s 0 ?p w_env ss0 w_link, unfolded c(3), OF ok p(1-7) d(1) os cl c(1) w_setup(2) c(2), unfolded c(4), OF w_one_pair]
  show ?thesis using d(1,2) c(2) unfolding view_def by fastforce
qed

text \<open>C19: A client port can be used again, too: after \<open>disconnect\<close> has returned without error, a successful
  \<open>RequestConnection\<close> and the same dialogue connect it to a listening server, with a new region and new
  queues.\<close>

theorem client_reconnects:
  assumes cl: "sock_ok s" "s_ports s (lk_port lk) = Some p" "p_cc p \<noteq> None" "\<not> cfg_IsServer (p_cfg p)" "cfg_ConnectedFunc (p_cfg p) = UserFunc"
    and dis: "port_disconnect env (lk_port lk) s = Some (None, s1)"
    and req: "RequestConnection env' (lk_port lk) s1 = Some (None, cs)"
      "map_option p_cc (s_ports cs (lk_port lk)) = Some (Some (lk_cchan lk))"
    and os: "setup_ok (lk_cenv lk)" "\<forall>tr. connectedFunc (lk_cenv lk) tr (lk_port lk) = None" "passes_fds lk" "lk_schan lk = s_next ss0"
    and srv: "server_listens (lk_senv lk) ss0 lfd j sp (cfg_Id (p_cfg p))"
      "one_pair (hello_run (cfg_MemoryConfig (p_cfg p)) (hello_msg (s_appName ss0))) k"
  shows "\<exists>ss cs' cc' p' ss' sc' sp' d qt qr.
    listener_handleEvent (lk_senv lk) lfd EPOLLIN ss0 = Some (None, ss) \<and>
    dialogue 11 lk \<lparr> se_client = cs, se_server = ss, se_up = [], se_down = sent ss0 ss \<rparr> =
      Some \<lparr> se_client = cs', se_server = ss', se_up = [], se_down = [] \<rparr> \<and>
    view cs' (lk_cchan lk) cc' (lk_port lk) p' \<and> cc_isConnected cc' \<and> p_cfg p' = p_cfg p \<and>
    client_ready p' k d qt qr \<and> view ss' (lk_schan lk) sc' j sp' \<and> cc_isConnected sc'"
proof -
  obtain p1 where p1: "p_cfg p1 = p_cfg p" "client_waits lk cs p1" using client_waits_again [OF cl dis req os(1,2)] by blast
  from session_completes [OF p1(2) _ os(3,4), unfolded p1(1), OF srv] show ?thesis by blast
qed

theorem client_reconnects_witness:
  "\<exists>s1 cs ss ses cc. port_disconnect w_env 0 (w_socket ((w_port False)\<lparr>p_cc := Some 1, p_regions := [w_region (Some [])]\<rparr>)
       (w_cc (Some 0) (replicate 128 0))) = Some (None, s1) \<and>
    RequestConnection w_env 0 s1 = Some (None, cs) \<and>
    listener_handleEvent w_env 4 EPOLLIN (w_socket (w_port True) (w_cc None [])) = Some (None, ss) \<and>
    dialogue 11 (w_link\<lparr>lk_port := 0, lk_cchan := 2\<rparr>) \<lparr> se_client = cs, se_server = ss, se_up = [],
      se_down = sent (w_socket (w_port True) (w_cc None [])) ss \<rparr> = Some ses \<and>
    s_ccs (se_client ses) 2 = Some cc \<and> cc_isConnected cc"
proof -
  let ?p = "(w_port False)\<lparr>p_cc := Some 1, p_regions := [w_region (Some [])]\<rparr>" and ?lk = "w_link\<lparr>lk_port := 0, lk_cchan := 2\<rparr>"
  let ?s = "w_socket ?p (w_cc (Some 0) (replicate 128 0))" and ?ss = "w_socket (w_port True) (w_cc None [])"
  have ok: "sock_ok ?s" by (simp add: sock_ok_def w_defs cc_ok_def port_ok_def msgSize_def maxControlLen_def)
  have p: "s_ports ?s 0 = Some ?p" "p_cc ?p \<noteq> None" "\<not> cfg_IsServer (p_cfg ?p)" "cfg_ConnectedFunc (p_cfg ?p) = UserFunc"
    "cfg_Id (p_cfg ?p) = 1" by (simp_all add: w_defs)
  have "map_option fst (port_disconnect w_env 0 ?s) = Some None" by code_simp
  then obtain s1 where d1: "port_disconnect w_env 0 ?s = Some (None, s1)" by auto
  have "map_option (\<lambda>(e, cs). (e, map_option p_cc (s_ports cs 0))) (Option.bind (port_disconnect w_env 0 ?s) (\<lambda>(e, s1).
      RequestConnection w_env 0 s1)) = Some (None, Some (Some 2))" by code_simp
  then obtain cs where d2: "RequestConnection w_env 0 s1 = Some (None, cs)" "map_option p_cc (s_ports cs 0) = Some (Some 2)"
    using d1 by auto
  note d = d1 d2
  have l: "lk_cenv ?lk = w_env" "lk_senv ?lk = w_env" "lk_port ?lk = 0" "lk_cchan ?lk = 2" "lk_schan ?lk = s_next ?ss"
    by (simp_all add: w_link_def w_socket_def)
  have c: "\<forall>tr. connectedFunc w_env tr 0 = None" "passes_fds ?lk" using w_setup(2) by (simp_all add: w_env_def passes_fds_def)
  have r: "one_pair (hello_run (cfg_MemoryConfig (p_cfg ?p)) (hello_msg (s_appName ?ss))) 1"
    using w_one_pair by (simp add: hello_run_def hello_msg_def w_port_def w_cfg_def w_mem_def min16_def min8_def Let_def)
  from client_reconnects [of ?s ?lk ?p w_env s1 w_env cs ?ss, unfolded l(1-4), OF ok p(1-4) d w_setup(1) c l(5) w_setup(3) [folded p(5)] r]
  show ?thesis using d unfolding view_def by fastforce
qed

text \<open>C20: A hang-up of the peer before it has introduced itself makes the handler panic: the error
  message asks the missing port for its name.\<close>

theorem early_hangup_panics:
  assumes "s_ccs s c = Some cc" "cc_port cc = None" and "\<And>tr ep fd. epoll_del env tr ep fd = None"
    and "ev AND EPOLLHUP = EPOLLHUP"
  shows "cc_handleEvent env c ev s = None"
  using assms by (rule hangup_unbound)

theorem early_hangup_panics_witness:
  "cc_handleEvent w_env 1 17 (w_socket (w_port True) (w_cc None [])) = None"
proof (rule early_hangup_panics)
  show "s_ccs (w_socket (w_port True) (w_cc None [])) 1 = Some (w_cc None [])" by (simp add: w_socket_def)
  show "(17 :: u32) AND EPOLLHUP = EPOLLHUP" by (simp add: EPOLLHUP_def)
qed (simp_all add: w_cc_def w_env_def)

text \<open>C21: With the default disconnect callback a port survives one disconnect. The first one closes both Go
  channels of the port, and no operation of the library opens them again: after any further events and
  operations of the socket, a reconnect included, both are still closed, and a second disconnect of the then
  bound port panics, under any behaviour of the system.\<close>

theorem default_disconnect_once:
  assumes "sock_ok s" and "s_ports s i = Some p" and "cfg_DisconnectedFunc (p_cfg p) = DefaultFunc" and "p_cc p \<noteq> None"
    and "port_disconnect env i s = Some (err, s1)"
    and "rtranclp (sock_step env) s1 s2" and "s_ports s2 i = Some p2" and "p_cc p2 \<noteq> None"
  shows "(\<exists>p1. s_ports s1 i = Some p1 \<and> p_QuitChan p1 \<and> p_ErrChan p1) \<and> p_QuitChan p2 \<and> p_ErrChan p2 \<and>
    port_disconnect env' i s2 = None"
proof -
  obtain p1 where p1: "s_ports s1 i = Some p1" "p_QuitChan p1" "p_ErrChan p1"
    using default_disconnect_closes [OF assms(2-5)] by blast
  have k: "sock_ok s1" "keeps s s1" using safeD [OF safe_port_disconnect assms(1), of env i] assms(5) by simp_all
  have c1: "p_cfg p1 = p_cfg p" using keeps_port [OF k(2) assms(2)] p1(1) by auto
  have p2: "p_cfg p2 = p_cfg p1" "still_closed p1 p2"
    using sock_steps_stay [OF assms(6) k(1), of i] p1(1) assms(7) by (auto simp: port_stays_def)
  then have c: "p_QuitChan p2" "p_ErrChan p2" using p1(2,3) by (simp_all add: still_closed_def)
  then have "port_disconnect env' i s2 = None"
    using default_disconnect_closes [OF assms(7) _ assms(8), of env'] p2(1) c1 assms(3)
    by (cases "port_disconnect env' i s2") auto
  with p1 c show ?thesis by blast
qed

theorem default_disconnect_once_witness:
  "\<exists>s1 s2. port_disconnect w_env 0 (w_socket ((w_port False)\<lparr>p_cc := Some 1,
       p_cfg := (w_cfg False)\<lparr>cfg_DisconnectedFunc := DefaultFunc\<rparr>\<rparr>) (w_cc (Some 0) (replicate 128 0))) = Some (None, s1) \<and>
     RequestConnection w_env 0 s1 = Some (None, s2) \<and> port_disconnect w_env 0 s2 = None"
proof -
  let ?p = "(w_port False)\<lparr>p_cc := Some 1, p_cfg := (w_cfg False)\<lparr>cfg_DisconnectedFunc := DefaultFunc\<rparr>\<rparr>"
  let ?s = "w_socket ?p (w_cc (Some 0) (replicate 128 0))"
  have ok: "sock_ok ?s" by (simp add: sock_ok_def w_defs cc_ok_def port_ok_def msgSize_def maxControlLen_def)
  have p: "s_ports ?s 0 = Some ?p" "cfg_DisconnectedFunc (p_cfg ?p) = DefaultFunc" "p_cc ?p \<noteq> None" by (simp_all add: w_defs)
  have "map_option fst (port_disconnect w_env 0 ?s) = Some None" by code_simp
  then obtain s1 where d1: "port_disconnect w_env 0 ?s = Some (None, s1)" by auto
  have "map_option (\<lambda>(e, s2). (e, map_option p_cc (s_ports s2 0))) (Option.bind (port_disconnect w_env 0 ?s) (\<lambda>(e, s1).
      RequestConnection w_env 0 s1)) = Some (None, Some (Some 2))" by code_simp
  then obtain s2 p2 where d2: "RequestConnection w_env 0 s1 = Some (None, s2)" "s_ports s2 0 = Some p2" "p_cc p2 \<noteq> None"
    using d1 by auto
  have "rtranclp (sock_step w_env) s1 s2" using sock_step.Request [OF d2(1)] by blast
  from default_disconnect_once [OF ok p d1 this d2(2,3), of w_env] d1 d2(1) show ?thesis by blast
qed

text \<open>C22: \<open>Socket.Delete\<close> removes at most the first port: its loop ends when the element it stands on
  leaves the list. Every other port stays in the list.\<close>

theorem delete_keeps_later_ports:
  assumes "sock_ok s" and "socket_Delete env s = Some (err, s')" and "s_portList s = i # js" and "j \<in> set js"
  shows "j \<in> set (s_portList s')"
proof -
  have wake: "s_portList s2 = s_portList s1" if "delete_wake env s1 = Some (e, s2)" for s1 s2 e
    using that by (auto simp: delete_wake_def delEvent_def wrap_err_Some elim!: and_then_SomeE)
  have lst: "s_portList s2 = s_portList s1" if "listener_close env l s1 = Some (e, s2)" for s1 s2 e l
    using that by (auto simp: listener_close_def delEvent_def wrap_err_Some elim!: and_then_SomeE)
  obtain e1 s1 where d: "delete_ccs env (list_front (s_ccList s)) s = Some (e1, s1)"
    using assms(2) by (auto simp: socket_Delete_def bind_eq_Some_conv)
  then have p1: "s_portList s1 = i # js" "sock_ok s1"
    using delete_ccs_first [OF assms(1), of env] assms(3) lists_cc_close(1) safeD [OF safe_delete_ccs assms(1), of env]
    by (auto split: list.splits)
  show ?thesis
  proof (cases e1)
    case (Some e)
    then show ?thesis using assms(2,4) d p1 by (auto simp: socket_Delete_def)
  next
    case None
    have first: "delete_ports env (list_front (s_portList s1)) s1 = port_Delete env i s1"
      using delete_ports_first [OF p1(2), of env] p1(1) by simp
    have rm: "s_portList s2 = js" if "port_Delete env i s1 = Some (e, s2)" for e s2
      using port_Delete_list(2) [OF that] p1(1) by simp
    have "s_portList s' = js"
      using assms(2) d None rm wake lst
      by (fastforce simp: socket_Delete_def first Let_def elim!: and_then_SomeE split: option.splits)
    then show ?thesis using assms(4) by simp
  qed
qed

theorem delete_keeps_later_ports_witness:
  "\<exists>err s'. socket_Delete w_env w_two_ports = Some (err, s') \<and> 2 \<in> set (s_portList s')"
proof -
  have ok: "sock_ok w_two_ports"
    by (auto simp: sock_ok_def w_two_ports_def w_defs cc_ok_def port_ok_def msgSize_def maxControlLen_def role_of_def inj_on_def)
  have l: "s_portList w_two_ports = 0 # [2]" "s_ccList w_two_ports = []" "s_listener w_two_ports = None"
    by (simp_all add: w_two_ports_def w_socket_def)
  have del: "port_Delete w_env 0 w_two_ports = Some (None, w_two_ports\<lparr>s_portList := [2]\<rparr>)"
    by (simp add: port_Delete_def port_Disconnect_def w_two_ports_def w_socket_def w_port_def)
  have ccs: "delete_ccs w_env (list_front []) w_two_ports = Some (None, w_two_ports)"
    using delete_ccs_first [OF ok, of w_env] by (simp add: l)
  have ports: "delete_ports w_env (list_front [0, 2]) w_two_ports = Some (None, w_two_ports\<lparr>s_portList := [2]\<rparr>)"
    using delete_ports_first [OF ok, of w_env] del by (simp add: l)
  have ep: "epoll_del w_env tr a b = None" for tr a b by (simp add: w_env_def)
  have "\<exists>err s'. socket_Delete w_env w_two_ports = Some (err, s')"
    by (simp add: socket_Delete_def l ccs ports delete_wake_def delEvent_def wrap_err_def ep)
  then obtain err s' where "socket_Delete w_env w_two_ports = Some (err, s')" by blast
  from delete_keeps_later_ports [OF ok this l(1), of 2] this show ?thesis by auto
qed

section \<open>Queues and packets\<close>

text \<open>C23: A full ring: \<open>WritePacket\<close> returns 0, leaves the port and its shared memory unchanged and
  interrupts the peer. For a client the ring is full when head and tail are \<open>2 ^ k\<close> apart, also when
  the 16-bit counters have wrapped around; for a server when the client has provided no buffer.\<close>

theorem write_to_full_ring:
  assumes "ring_at p q k off d"
    and "if cfg_IsServer (p_cfg p) then head_of d off = tail_of d off else head_of d off = tail_of d off + 2 ^ k"
  shows "WritePacket env p q pkt tr = Some (0, p, SysWrite (q_interruptFd q) uvarint_one # tr)"
  using assms by (intro WritePacket_full_at [OF assms(1)]) (auto simp: client_free_def)

theorem write_to_full_ring_witness:
  "WritePacket w_env (w_ring_port False (w_ring_mem 1 [255, 255])) (w_queue ringTypeS2M 0) [1, 2] [] =
     Some (0, w_ring_port False (w_ring_mem 1 [255, 255]), [SysWrite 10 uvarint_one])"
proof -
  let ?p = "w_ring_port False (w_ring_mem 1 [255, 255])"
  have "\<not> cfg_IsServer (p_cfg ?p)" "q_interruptFd (w_queue ringTypeS2M 0) = 10"
    by (simp_all add: w_ring_port_def w_port_def w_cfg_def w_queue_def)
  then show ?thesis
    using write_to_full_ring [OF w_ring_at [where t = "[255, 255]" and b = False and h = 1 and rt = ringTypeS2M],
      where env = w_env and pkt = "[1, 2]" and tr = "[]"]
    by (simp add: w_ring_header)
qed

text \<open>C24: A packet split over consecutive slots is read as the concatenation of its segments, for chains of
  any length and both roles, if the chain ends within the slots the peer has made available and the
  caller's buffer is long enough: \<open>ReadPacket\<close> returns the total length, moves the queue's position past
  all slots of the chain and hands them back to the peer (the server by the tail of the ring, the client
  by refilling the ring).\<close>

theorem chained_read_concatenates:
  assumes "ring_at p q k off d"
    and "lo = (if cfg_IsServer (p_cfg p) then q_lastHead q else q_lastTail q)"
    and "hi = (if cfg_IsServer (p_cfg p) then head_of d off else tail_of d off)"
    and "packet_at False d off k (ring_region (q_ring q)) (unat lo) segs"
    and "length segs \<le> unat (hi - lo)" and "length (payload d segs) \<le> length pkt"
  shows "ReadPacket p q pkt = Some (int (length (payload d segs)), None, overlay pkt 0 (payload d segs),
    (if cfg_IsServer (p_cfg p) then q\<lparr>q_lastHead := lo + of_nat (length segs)\<rparr>
     else q\<lparr>q_lastTail := lo + of_nat (length segs)\<rparr>),
    put_region_data p (ring_region (q_ring q))
      (if cfg_IsServer (p_cfg p) then overlay d (off + ringTailOffset) (put_le 2 (lo + of_nat (length segs)))
       else refilled d off k (lo + of_nat (length segs)) (PacketBufferSize (p_run p))))"
  using assms ReadPacket_chain_server [OF assms(1), of segs pkt] ReadPacket_chain_client [OF assms(1), of segs pkt]
  by (cases "cfg_IsServer (p_cfg p)") auto

theorem chained_read_concatenates_witness:
  "\<exists>q' p'. ReadPacket (w_ring_port True (w_ring_mem 2 [0, 0])) (w_queue ringTypeS2M 0) (replicate 8 0) =
     Some (8, None, [9, 8, 7, 6, 5, 4, 3, 2], q', p') \<and> q_lastHead q' = 2"
proof -
  have q: "q_lastHead (w_queue ringTypeS2M 0) = 0" "ring_region (q_ring (w_queue ringTypeS2M 0)) = 0"
    "cfg_IsServer (p_cfg (w_ring_port True (w_ring_mem 2 [0, 0])))"
    by (simp_all add: w_queue_def w_ring_port_def w_port_def w_cfg_def)
  show ?thesis
    using chained_read_concatenates [OF w_ring_at [where b = True and h = 2 and t = "[0, 0]" and rt = ringTypeS2M], where lo = 0 and hi = 2
        and segs = "[(160, 4), (164, 4)]" and pkt = "replicate 8 0"] w_ring_chain
    by (simp add: q overlay_def del: payload_simps packet_at.simps)
qed

text \<open>C25: A chain that goes on after the last available slot is an error, however long it is: \<open>ReadPacket\<close>
  returns 0 and the error, and neither the queue nor the shared memory changes.\<close>

theorem incomplete_chain_error:
  assumes "ring_at p q k off d"
    and "lo = (if cfg_IsServer (p_cfg p) then q_lastHead q else q_lastTail q)"
    and "hi = (if cfg_IsServer (p_cfg p) then head_of d off else tail_of d off)"
    and "packet_at True d off k (ring_region (q_ring q)) (unat lo) segs"
    and "length segs = unat (hi - lo)" and "length (payload d segs) \<le> length pkt"
  shows "\<exists>pkt'. ReadPacket p q pkt =
    Some (0, Some ''incomplete chained buffer, may suggest peer error'', pkt', q, p)"
  using ReadPacket_broken [OF assms] .

theorem incomplete_chain_error_witness:
  "\<exists>pkt'. ReadPacket (w_ring_port True (w_ring_mem 1 [255, 255])) (w_queue ringTypeS2M 0) (replicate 64 0) =
     Some (0, Some ''incomplete chained buffer, may suggest peer error'', pkt', w_queue ringTypeS2M 0,
       w_ring_port True (w_ring_mem 1 [255, 255]))"
proof -
  have q: "q_lastHead (w_queue ringTypeS2M 0) = 0" "ring_region (q_ring (w_queue ringTypeS2M 0)) = 0"
    "cfg_IsServer (p_cfg (w_ring_port True (w_ring_mem 1 [255, 255])))"
    by (simp_all add: w_queue_def w_ring_port_def w_port_def w_cfg_def)
  have l: "length (w_ring_mem 1 [255, 255]) = 168" by (simp add: w_ring_mem_def)
  have "packet_at True (w_ring_mem 1 [255, 255]) 0 1 0 0 [(160, 4)]"
    using w_ring_descs(1) by (fastforce simp: l descFlagNext_def)
  moreover have "length (payload (w_ring_mem 1 [255, 255]) [(160, 4)]) = 4" by (simp add: l)
  ultimately show ?thesis
    using incomplete_chain_error [OF w_ring_at [where b = True and h = 1 and t = "[255, 255]" and rt = ringTypeS2M], where lo = 0 and hi = 1
        and segs = "[(160, 4)]" and pkt = "replicate 64 0"]
    by (simp add: q w_ring_header del: payload_simps packet_at.simps)
qed
text \<open>C26: A packet that needs two buffers is not split, for either role: the first buffer is filled with the
  beginning of the packet, and the second receives the same beginning again instead of the remainder, as many
  bytes as fit. Both slots are published and the returned count is the number of bytes written to the two
  buffers. The buffers are those of the descriptors of the next two slots; the size is the descriptor's length
  for a server, the packet buffer size of the port for a client.\<close>

theorem chained_write_repeats_prefix:
  assumes "ring_at p q k off d" and "1 \<le> k" and "2 \<le> unat (write_free p d off k)"
    and "s0 = unat (write_pos p d off) mod 2 ^ k" and "s1 = (unat (write_pos p d off) + 1) mod 2 ^ k"
    and "desc_is (desc_of d off s0) f0 (ring_region (q_ring q)) l0 (int b0)"
    and "desc_is (desc_of d off s1) f1 (ring_region (q_ring q)) l1 (int b1)"
    and "int a0 = (if cfg_IsServer (p_cfg p) then l0 else uint (PacketBufferSize (p_run p)))"
    and "int a1 = (if cfg_IsServer (p_cfg p) then l1 else uint (PacketBufferSize (p_run p)))"
    and "b0 + a0 \<le> length d" "b1 + a1 \<le> length d"
    and "b0 + a0 \<le> off \<or> off + ring_span k \<le> b0" "b1 + a1 \<le> off \<or> off + ring_span k \<le> b1" "b0 + a0 \<le> b1 \<or> b1 + a1 \<le> b0"
    and "a0 < length pkt" "length pkt \<le> a0 + a1" and "m = min a1 (length pkt)"
  shows "\<exists>p' d'. WritePacket env p q pkt tr = Some (int (a0 + m), p', SysWrite (q_interruptFd q) uvarint_one # tr) \<and>
    region_data p' (ring_region (q_ring q)) = Some d' \<and> window d' b0 a0 = take a0 pkt \<and> window d' b1 m = take m pkt \<and>
    write_pos p' d' off = write_pos p d off + 2"
  by (rule WritePacket_two_buffers [OF assms])

theorem chained_write_repeats_prefix_witness:
  "\<exists>p' d' tr. WritePacket w_env (w_ring_port False (w_ring_mem 0 [0, 0])) (w_queue ringTypeS2M 0) [1, 2, 3, 4, 5] [] =
     Some (8, p', tr) \<and> region_data p' 0 = Some d' \<and> window d' 160 4 = [1, 2, 3, 4] \<and> window d' 164 4 = [1, 2, 3, 4]"
proof -
  let ?d = "w_ring_mem 0 [0, 0]" and ?q = "w_queue ringTypeS2M 0"
  let ?p = "w_ring_port False ?d"
  have q: "ring_region (q_ring ?q) = 0" "\<not> cfg_IsServer (p_cfg ?p)" "uint (PacketBufferSize (p_run ?p)) = 4" "length ?d = 168"
    by (simp_all add: w_queue_def w_ring_port_def w_port_def w_cfg_def) (simp add: w_ring_mem_def)
  have f: "(2 :: nat) \<le> unat (write_free ?p ?d 0 1)" "unat (write_pos ?p ?d 0) = 0"
    using q(2) by (simp_all add: write_free_def write_pos_def client_free_def w_ring_header)
  have d: "desc_is (desc_of ?d 0 0) 1 (ring_region (q_ring ?q)) 4 (int 160)"
    "desc_is (desc_of ?d 0 1) 0 (ring_region (q_ring ?q)) 4 (int 164)"
    using w_ring_descs(2,3) by (simp_all add: q(1))
  have "\<exists>p' d'. WritePacket w_env ?p ?q [1, 2, 3, 4, 5] [] = Some (int (4 + 4), p', SysWrite (q_interruptFd ?q) uvarint_one # []) \<and>
      region_data p' (ring_region (q_ring ?q)) = Some d' \<and> window d' 160 4 = take 4 [1, 2, 3, 4, 5] \<and>
      window d' 164 4 = take 4 [1, 2, 3, 4, 5] \<and> write_pos p' d' 0 = write_pos ?p ?d 0 + 2"
    by (rule chained_write_repeats_prefix [OF w_ring_at _ f(1) _ _ d, where ?a1.0 = 4])
      (simp_all add: q(2-4) f(2) ring_span_def)
  then show ?thesis unfolding q(1) by auto
qed

section \<open>Memory layout\<close>

text \<open>C27: The layout of the client's region for one queue pair of \<open>2 ^ k\<close> slots: the packet buffers start right
  behind the two rings, the region holds the rings and \<open>2 * 2 ^ k\<close> packet buffers and nothing else, both rings and all packet buffers lie inside the region, buffers overlap neither each
  other nor the rings.\<close>

theorem region_layout:
  assumes "one_pair run k" and "off = 0 \<or> off = ring_span k"
  shows "unat (packet_buffer_offset run True) = 2 * ring_span k \<and>
    unat (region_size run True True) = 2 * ring_span k + 2 * 2 ^ k * unat (PacketBufferSize run) \<and>
    slots_ok k off (buffer_at run k) (unat (PacketBufferSize run)) (unat (region_size run True True))"
  using one_pair_sizes [OF assms(1)] one_pair_slots_ok [OF assms refl] by simp

theorem region_layout_witness:
  "unat (packet_buffer_offset w_mem True) = 320 \<and> unat (region_size w_mem True True) = 576 \<and>
   slots_ok 1 160 (buffer_at w_mem 1) 64 576"
proof -
  have r: "ring_span 1 = 160" and b: "unat (PacketBufferSize w_mem) = 64" by (simp_all add: ring_span_def w_mem_def)
  have "(160 :: nat) = 0 \<or> 160 = ring_span 1" unfolding r by simp
  note L = region_layout [OF w_one_pair this, unfolded r b]
  have e: "unat (region_size w_mem True True) = 576" using L by simp
  show ?thesis using L unfolding e by simp
qed

text \<open>C28: In general the packet buffer offset is computed modulo \<open>2 ^ 16\<close>: it is the end of the rings
  exactly when the rings together are shorter than 64 KiB. Two queue pairs of the default ring size
  already exceed that, and the packet buffers then start inside the first ring.\<close>

theorem packet_buffer_offset_wraps:
  "(unat (packet_buffer_offset run True) = 2 * unat (NumQueuePairs run) * ring_span (unat (Log2RingSize run)) \<longleftrightarrow>
      2 * unat (NumQueuePairs run) * ring_span (unat (Log2RingSize run)) < 2 ^ 16) \<and>
   packet_buffer_offset \<lparr> NumQueuePairs = 2, Log2RingSize = DefaultLog2RingSize,
     PacketBufferSize = DefaultPacketBufferSize \<rparr> True = 512"
proof
  let ?n = "2 * unat (NumQueuePairs run) * ring_span (unat (Log2RingSize run))"
  have "?n mod 2 ^ 16 = ?n \<longleftrightarrow> ?n < 2 ^ 16"
    using mod_less_divisor [of "2 ^ 16" ?n] mod_less [of ?n "2 ^ 16"] by (metis zero_less_power zero_less_numeral)
  then show "unat (packet_buffer_offset run True) = ?n \<longleftrightarrow> ?n < 2 ^ 16"
    by (simp only: packet_buffer_offset_mod)
qed (simp add: packet_buffer_offset_def DefaultLog2RingSize_def)

text \<open>C29: The two rings of a client share their packet buffers. From a fresh port with one queue pair, whose region
  has been added and whose event descriptors are available, \<open>initializeQueues\<close> returns a transmit and a receive
  ring, one behind the other; in the memory it leaves, the descriptors of slot \<open>s\<close> of both rings have the
  same region, length and offset, that of packet buffer \<open>s\<close>. So only the first half of the buffer area, for which
  the region has twice as many buffers, is ever used.\<close>

theorem rings_share_buffers:
  assumes "one_pair (p_run p) k" and "p_regions p = []" and "p_txQueues p = []" and "p_rxQueues p = []" and "mmap_full env"
    and "initializeRegions env p tr = (None, p1, tr1)" and "eventFd env tr1 = (Inr fd1, tr2)" and "eventFd env tr2 = (Inr fd2, tr3)"
  shows "\<exists>p2 d. initializeQueues env p1 tr1 = Some (None, p2, tr3) \<and> region_data p2 0 = Some d \<and>
    length d = 2 * ring_span k + 2 * 2 ^ k * unat (PacketBufferSize (p_run p)) \<and>
    map ring_offset (map q_ring (p_txQueues p2 @ p_rxQueues p2)) = [0, int (ring_span k)] \<and>
    (\<forall>s<2 ^ k. \<forall>off\<in>{0, ring_span k}. desc_getRegion (desc_of d off s) = Some 0 \<and>
       desc_getLength (desc_of d off s) = Some (uint (PacketBufferSize (p_run p))) \<and>
       desc_getOffset (desc_of d off s) = Some (int (2 * ring_span k + s * unat (PacketBufferSize (p_run p)))))"
proof -
  obtain d p2 r where c: "initializeQueues env p1 tr1 = Some (None, p2, tr3)"
    "p2 = p\<lparr>p_regions := [r\<lparr>mr_data := Some d\<rparr>], p_txQueues := [new_queue (p_run p) ringTypeS2M fd1],
       p_rxQueues := [new_queue (p_run p) ringTypeM2S fd2]\<rparr>"
    "client_ready p2 k d (new_queue (p_run p) ringTypeS2M fd1) (new_queue (p_run p) ringTypeM2S fd2)"
    using client_setup [OF assms] by blast
  have run: "p_run p2 = p_run p" by (simp add: c(2))
  have "desc_is (desc_of d off s) 0 0 (uint (PacketBufferSize (p_run p))) (int (buffer_at (p_run p) k s))"
    if "s < 2 ^ k" "off \<in> {0, ring_span k}" for s off
    using c(3) that by (auto simp: client_ready_def ring_ready_def run)
  then have "\<forall>s<2 ^ k. \<forall>off\<in>{0, ring_span k}. desc_getRegion (desc_of d off s) = Some 0 \<and>
       desc_getLength (desc_of d off s) = Some (uint (PacketBufferSize (p_run p))) \<and>
       desc_getOffset (desc_of d off s) = Some (int (2 * ring_span k + s * unat (PacketBufferSize (p_run p))))"
    unfolding desc_is_def buffer_at_def by blast
  moreover have "map ring_offset (map q_ring (p_txQueues p2 @ p_rxQueues p2)) = [0, int (ring_span k)]"
    using c(3) by (simp add: client_ready_def q_at_def)
  moreover have "region_data p2 0 = Some d" using c(3) by (simp add: client_ready_def)
  moreover have "length d = 2 * ring_span k + 2 * 2 ^ k * unat (PacketBufferSize (p_run p))"
    using c(3) by (simp add: client_ready_def run)
  ultimately show ?thesis using c(1) by (intro exI [of _ p2] exI [of _ d] conjI)
qed

theorem rings_share_buffers_witness:
  "\<exists>p1 p2 tr1 tr2 d. initializeRegions w_env (w_port False) [] = (None, p1, tr1) \<and>
     initializeQueues w_env p1 tr1 = Some (None, p2, tr2) \<and> region_data p2 0 = Some d \<and>
     desc_getOffset (desc_of d 0 1) = Some 384 \<and> desc_getOffset (desc_of d 160 1) = Some 384"
proof -
  obtain p1 tr1 where i: "initializeRegions w_env (w_port False) [] = (None, p1, tr1)"
    using w_regions [where b = False and nm = "[]" and tr = "[]"] by (auto simp: w_port_def)
  have f: "one_pair (p_run (w_port False)) 1" "p_regions (w_port False) = []" "p_txQueues (w_port False) = []"
    "p_rxQueues (w_port False) = []" "unat (PacketBufferSize (p_run (w_port False))) = 64"
    using w_one_pair by (simp_all add: w_port_def w_mem_def)
  have r: "ring_span 1 = 160" by (simp add: ring_span_def)
  obtain p2 d where q: "initializeQueues w_env p1 tr1 = Some (None, p2, SysEventfd # SysEventfd # tr1)" "region_data p2 0 = Some d"
    "\<forall>s<2 ^ 1. \<forall>off\<in>{0, ring_span 1}. desc_getOffset (desc_of d off s) = Some (int (2 * ring_span 1 + s * 64))"
    using rings_share_buffers [OF f(1-4) w_mmap_full i w_eventFd w_eventFd] unfolding f(5) by blast
  have q3: "\<forall>s<2 ^ 1. \<forall>off\<in>{0, 160}. desc_getOffset (desc_of d off s) = Some (int (2 * 160 + s * 64))"
    using q(3) unfolding r .
  have "desc_getOffset (desc_of d off 1) = Some 384" if "off \<in> {0, 160}" for off
    using q3 [rule_format, of 1 off] that by simp
  then show ?thesis using i q(1,2) by blast
qed

text \<open>C30: A client with two or more queue pairs corrupts its first ring. The initialisation returns, with event
  descriptors available and room in a fresh region, and leaves the first ring with its cookie; but the
  descriptors of the second transmit ring are not written, because their slot numbers point behind the ring.
  So the first packet written to the second transmit queue is accepted and lands at offset 0 of the region:
  its bytes replace the cookie and the head of the first ring.\<close>

theorem second_queue_overwrites_header:
  assumes "\<forall>tr. \<exists>fd. eventfd2 env tr = Inr fd"
    and "2 \<le> unat (NumQueuePairs (p_run p))" and "unat (Log2RingSize (p_run p)) = k" and "k \<le> 15"
    and "go_nth (p_regions p) 0 = Some r" and "mr_data r = Some (replicate N 0)"
    and "2 * unat (NumQueuePairs (p_run p)) * ring_span k + unat (NumQueuePairs (p_run p)) * (16 * 2 ^ k) \<le> N"
    and "p_txQueues p = []" and "\<not> cfg_IsServer (p_cfg p)"
    and "8 \<le> length pkt" and "length pkt \<le> unat (PacketBufferSize (p_run p))" and "unat (PacketBufferSize (p_run p)) \<le> N"
    and "length pkt \<le> ring_span k"
  shows "\<exists>p1 tr1 q0 q1 ts d1 p2 tr2 d2. initializeQueues env p tr = Some (None, p1, tr1) \<and>
    p_txQueues p1 = q0 # q1 # ts \<and> q_at q0 k 0 \<and> region_data p1 0 = Some d1 \<and> cookie_of d1 0 = cookie \<and>
    WritePacket env' p1 q1 pkt tr' = Some (int (length pkt), p2, tr2) \<and> region_data p2 0 = Some d2 \<and>
    cookie_of d2 0 = uint (get_le (window pkt 0 4) :: u32) \<and> head_of d2 0 = get_le (window pkt 6 2)"
proof -
  have ev: "\<exists>fd tr'. eventFd env tr = (Inr fd, tr')" for tr
    using assms(1) by (metis eventFd_def sum.case(2))
  obtain p1 tr1 where i: "initializeQueues env p tr = Some (None, p1, tr1)"
    using initializeQueues_returns [OF ev assms(5,6,3,4), of tr] assms(7) by auto
  have "2 * unat (NumQueuePairs (p_run p)) * ring_span k \<le> N" using assms(7) by simp
  from second_queue_writes_at_0 [OF assms(2-6) this assms(8,9) i assms(11-13)]
  obtain q0 q1 ts d1 p2 tr2 d2 where W: "p_txQueues p1 = q0 # q1 # ts" "q_at q0 k 0" "region_data p1 0 = Some d1" "cookie_of d1 0 = cookie"
    "WritePacket env' p1 q1 pkt tr' = Some (int (length pkt), p2, tr2)" "region_data p2 0 = Some d2" "window d2 0 (length pkt) = pkt"
    by blast
  have "window d2 i n = window pkt i n" if "i + n \<le> length pkt" for i n
    using window_window [OF that, of d2 0] by (simp add: W(7))
  then have "cookie_of d2 0 = uint (get_le (window pkt 0 4) :: u32)" "head_of d2 0 = get_le (window pkt 6 2)"
    using assms(10) by (simp_all add: cookie_of_def head_of_def)
  with i W(1-6) show ?thesis by blast
qed

theorem second_queue_overwrites_header_witness:
  "\<exists>p1 tr1 q0 q1 ts p2 tr2 d2. initializeQueues w_env w_two_pairs [] = Some (None, p1, tr1) \<and> p_txQueues p1 = q0 # q1 # ts \<and>
     WritePacket w_env p1 q1 [1, 2, 3, 4, 5, 6, 7, 8] [] = Some (8, p2, tr2) \<and>
     region_data p2 0 = Some d2 \<and> cookie_of d2 0 = 0x4030201 \<and> head_of d2 0 = 0x807"
proof -
  let ?pkt = "[1, 2, 3, 4, 5, 6, 7, 8] :: byte list" and ?p = w_two_pairs
  have "\<forall>tr. \<exists>fd. eventfd2 w_env tr = Inr fd" by (simp add: w_env_def)
  note ev = this
  have p: "2 \<le> unat (NumQueuePairs (p_run ?p))" "unat (Log2RingSize (p_run ?p)) = 1" "(1 :: nat) \<le> 15"
    "go_nth (p_regions ?p) 0 = Some \<lparr> mr_data = Some (replicate 1152 0), mr_size = 1152, mr_fd = 10, mr_packetBufferOffset = 640 \<rparr>"
    "mr_data \<lparr> mr_data = Some (replicate 1152 0), mr_size = 1152, mr_fd = 10, mr_packetBufferOffset = 640 \<rparr> = Some (replicate 1152 0)"
    "2 * unat (NumQueuePairs (p_run ?p)) * ring_span 1 + unat (NumQueuePairs (p_run ?p)) * (16 * 2 ^ 1) \<le> 1152"
    "p_txQueues ?p = []" "\<not> cfg_IsServer (p_cfg ?p)" "8 \<le> length ?pkt" "length ?pkt \<le> unat (PacketBufferSize (p_run ?p))"
    "unat (PacketBufferSize (p_run ?p)) \<le> 1152" "length ?pkt \<le> ring_span 1"
    by (simp_all add: w_two_pairs_def w_port_def w_mem_def w_cfg_def ring_span_def go_nth_def)
  have g: "uint (get_le (window ?pkt 0 4) :: u32) = 0x4030201" "(get_le (window ?pkt 6 2) :: u16) = 0x807" "int (length ?pkt) = 8"
    by code_simp+
  from second_queue_overwrites_header [OF ev p, of "[]" w_env "[]"] show ?thesis unfolding g by blast
qed

section \<open>Fields\<close>

text \<open>C31: The fields of a descriptor are independent: each setter succeeds on a 16-byte descriptor,
  which keeps its length; afterwards its getter returns the value reduced to the field's width, and the other
  four getters, that of the metadata included, return what they returned before.\<close>

theorem descriptor_fields:
  assumes "length db = descSize" and "desc_fields db = (f, r, l, ofs, md)"
  shows "(\<exists>db'. desc_setFlags db v = Some db' \<and> length db' = descSize \<and> desc_fields db' = (Some (v mod 2 ^ 16), r, l, ofs, md)) \<and>
    (\<exists>db'. desc_setRegion db v = Some db' \<and> length db' = descSize \<and> desc_fields db' = (f, Some (v mod 2 ^ 16), l, ofs, md)) \<and>
    (\<exists>db'. desc_setLength db v = Some db' \<and> length db' = descSize \<and> desc_fields db' = (f, r, Some (v mod 2 ^ 32), ofs, md)) \<and>
    (\<exists>db'. desc_setOffset db v = Some db' \<and> length db' = descSize \<and> desc_fields db' = (f, r, l, Some (v mod 2 ^ 32), md)) \<and>
    (\<exists>db'. desc_setMetadata db v = Some db' \<and> length db' = descSize \<and> desc_fields db' = (f, r, l, ofs, Some (v mod 2 ^ 32)))"
  by (intro conjI; rule desc_fields_set [OF assms])

theorem descriptor_fields_witness:
  "\<exists>db'. desc_setOffset [1, 0, 2, 0, 3, 0, 0, 0, 4, 0, 0, 0, 5, 0, 0, 0] 4294967297 = Some db' \<and>
     desc_fields db' = (Some 1, Some 2, Some 3, Some 1, Some 5)"
proof -
  have "length ([1, 0, 2, 0, 3, 0, 0, 0, 4, 0, 0, 0, 5, 0, 0, 0] :: descBuf) = descSize" by simp
  moreover have "desc_fields [1, 0, 2, 0, 3, 0, 0, 0, 4, 0, 0, 0, 5, 0, 0, 0] = (Some 1, Some 2, Some 3, Some 4, Some 5)" by code_simp
  ultimately show ?thesis using descriptor_fields [of "[1, 0, 2, 0, 3, 0, 0, 0, 4, 0, 0, 0, 5, 0, 0, 0]" _ _ _ _ _ 4294967297] by fastforce
qed

text \<open>C32: An AddRing message of the peer for a valid index, with a descriptor attached, is acknowledged and adds
  exactly one queue at the end of the receive or the transmit queues, as its flag says, with the announced
  offset, size and event descriptor, both positions 0. The region index is lost: the ring is taken to be
  in region 0 whatever was announced; and the ring index is checked but does not place the queue.\<close>

theorem announced_ring_added:
  assumes "view s c cc i p" and "idle cc" and "sends_ok env"
    and "dt = frame_bytes e t (put_le 2 msgTypeAddRing @ enc_AddRing m)"
    and "aring_Index m < NumQueuePairs (p_run p)" and "gives_fd ctl fd"
  shows "\<exists>s' cc' p' q. receive env c (dt, ctl) s = Some (None, s') \<and> view s' c cc' i p' \<and> idle cc' \<and>
    replied s (put_le 2 msgTypeAck) s' \<and>
    (if aring_Flags m AND msgAddRingFlagS2M = msgAddRingFlagS2M
     then p' = p\<lparr>p_rxQueues := p_rxQueues p @ [q]\<rparr> else p' = p\<lparr>p_txQueues := p_txQueues p @ [q]\<rparr>) \<and>
    ring_offset (q_ring q) = uint (aring_Offset m) \<and> ring_size (q_ring q) = shl1 (unat (aring_RingSizeLog2 m)) \<and>
    ring_region (q_ring q) = 0 \<and> q_lastHead q = 0 \<and> q_lastTail q = 0 \<and> q_interruptFd q = fd"
proof -
  obtain s' cc' where "receive env c (dt, ctl) s = Some (None, s')" "replied s (put_le 2 msgTypeAck) s'"
    "view s' c cc' i (srv_add_ring m fd p)" "idle cc'"
    using recv_AddRing [OF assms] by blast
  moreover define q where "q = srv_queue (if aring_Flags m AND msgAddRingFlagS2M = msgAddRingFlagS2M then ringTypeS2M else ringTypeM2S) m fd"
  then have "if aring_Flags m AND msgAddRingFlagS2M = msgAddRingFlagS2M then srv_add_ring m fd p = p\<lparr>p_rxQueues := p_rxQueues p @ [q]\<rparr>
      else srv_add_ring m fd p = p\<lparr>p_txQueues := p_txQueues p @ [q]\<rparr>" by (simp add: srv_add_ring_def)
  moreover have "ring_offset (q_ring q) = uint (aring_Offset m)" "ring_size (q_ring q) = shl1 (unat (aring_RingSizeLog2 m))"
    "ring_region (q_ring q) = 0" "q_lastHead q = 0" "q_lastTail q = 0" "q_interruptFd q = fd" by (simp_all add: q_def srv_queue_def)
  ultimately show ?thesis by blast
qed

theorem announced_ring_added_witness:
  "\<exists>s' p'. receive w_env 1 (frame_bytes w_env [] (put_le 2 msgTypeAddRing @ enc_AddRing
       \<lparr> aring_Flags = 1, aring_Index = 0, aring_Region = 3, aring_Offset = 160, aring_RingSizeLog2 = 4, aring_PrivateHdrSize = 0 \<rparr>),
       unixRights 12) (w_socket ((w_port True)\<lparr>p_run := w_mem\<rparr>) (w_cc (Some 0) (replicate 128 0))) = Some (None, s') \<and>
     s_ports s' 0 = Some p' \<and> map (ring_region \<circ> q_ring) (p_rxQueues p') = [0]"
proof -
  let ?p = "(w_port True)\<lparr>p_run := w_mem\<rparr>" and ?cc = "w_cc (Some 0) (replicate 128 0)"
  let ?m = "\<lparr> aring_Flags = 1, aring_Index = 0, aring_Region = 3, aring_Offset = 160, aring_RingSizeLog2 = 4, aring_PrivateHdrSize = 0 \<rparr>"
  have h: "view (w_socket ?p ?cc) 1 ?cc 0 ?p" "idle ?cc" "sends_ok w_env" "aring_Index ?m < NumQueuePairs (p_run ?p)"
    by (simp_all add: view_def idle_def sends_ok_def w_defs msgSize_def maxControlLen_def)
  have f: "gives_fd (unixRights 12) 12" by (rule unixRights_gives_fd; simp)
  have q: "p_rxQueues ?p = []" "aring_Flags ?m AND msgAddRingFlagS2M = msgAddRingFlagS2M"
    by (simp_all add: w_port_def msgAddRingFlagS2M_def)
  from announced_ring_added [OF h(1-3) refl h(4) f, of w_env "[]"] show ?thesis unfolding view_def if_P [OF q(2)]
    using q(1) by fastforce
qed

text \<open>C33: Interrupts are never suppressed: for any flags the peer has set, \<open>interrupt\<close> on a ring inside
  its region writes to the event descriptor of the queue.\<close>

theorem interrupts_always_sent:
  assumes "ring_at p q k off d"
  shows "isInterrupt p q = Some True \<and>
    (\<exists>err. interrupt env p q tr = Some (err, SysWrite (q_interruptFd q) uvarint_one # tr))"
  using interrupt_at [OF assms] by (simp add: isInterrupt_iff queue_getFlags_at [OF assms])

theorem interrupts_always_sent_witness:
  "isInterrupt (w_ring_port True (w_ring_mem 0 [0, 0])) (w_queue ringTypeM2S 0) = Some True"
  using interrupts_always_sent [OF w_ring_at, of "[0, 0]"] by simp

section \<open>Connecting and polling\<close>

text \<open>C34: \<open>connect\<close> does not reset the positions of the queues: the assignments of the code change a
  copy of each queue. Whatever \<open>connect\<close> returns, every queue keeps its \<open>lastHead\<close> and \<open>lastTail\<close>.\<close>

theorem connect_keeps_positions:
  assumes "s_ports s i = Some p" and "port_connect env i s = Some (err, s')"
  shows "\<exists>p'. s_ports s' i = Some p' \<and>
    map q_lastHead (p_rxQueues p') = map q_lastHead (p_rxQueues p) \<and> map q_lastTail (p_rxQueues p') = map q_lastTail (p_rxQueues p) \<and>
    map q_lastHead (p_txQueues p') = map q_lastHead (p_txQueues p) \<and> map q_lastTail (p_txQueues p') = map q_lastTail (p_txQueues p)"
proof -
  obtain e rs tr where m: "map_regions env (p_regions p) (s_trace s) = (e, rs, tr)" by (metis prod_cases3)
  have call: "\<exists>p'. s_ports s2 i = Some p' \<and> p_rxQueues p' = p_rxQueues p1 \<and> p_txQueues p' = p_txQueues p1"
    if "call_ConnectedFunc env i s1 = Some (er, s2)" "s_ports s1 i = Some p1" for s1 s2 er p1
    using that by (auto simp: call_ConnectedFunc_def defaultDisconnectedFunc_def split: callback.splits if_splits)
  show ?thesis
  proof (cases e)
    case (Some x)
    then show ?thesis using assms m by (auto simp: port_connect_def)
  next
    case None
    with assms m obtain e1 txs where c1: "check_rings (p\<lparr>p_regions := rs\<rparr>) (p_txQueues p) = Some (e1, txs)"
      by (auto simp: port_connect_def bind_eq_Some_conv Let_def)
    note k1 = check_rings_positions [OF c1]
    show ?thesis
    proof (cases e1)
      case (Some x)
      then show ?thesis using assms m None c1 k1 by (auto simp: port_connect_def Let_def)
    next
      case n1: None
      with assms m None c1 obtain e2 rxs where
        c2: "check_rings (p\<lparr>p_regions := rs, p_txQueues := txs\<rparr>) (p_rxQueues p) = Some (e2, rxs)"
        by (auto simp: port_connect_def bind_eq_Some_conv Let_def)
      note k2 = check_rings_positions [OF c2]
      show ?thesis
        using assms m None n1 c1 c2 k1 k2 call [of "put_port i (p\<lparr>p_regions := rs, p_txQueues := txs, p_rxQueues := rxs\<rparr>) (s\<lparr>s_trace := tr\<rparr>)"]
        by (cases e2) (fastforce simp: port_connect_def Let_def)+
    qed
  qed
qed

theorem connect_keeps_positions_witness:
  "\<exists>s' p'. port_connect w_env 0 (w_socket w_greeted_port (w_cc None [])) = Some (None, s') \<and>
     s_ports s' 0 = Some p' \<and> map q_lastHead (p_rxQueues p') = [7]"
proof -
  let ?s = "w_socket w_greeted_port (w_cc None [])"
  have p: "s_ports ?s 0 = Some w_greeted_port" by (simp add: w_socket_def)
  have "map_option fst (port_connect w_env 0 ?s) = Some None" by code_simp
  then obtain s' where c: "port_connect w_env 0 ?s = Some (None, s')" by auto
  have "map q_lastHead (p_rxQueues w_greeted_port) = [7]" by (simp add: w_greeted_port_def)
  with connect_keeps_positions [OF p c] c show ?thesis by auto
qed

text \<open>C35: \<open>StopPolling\<close> succeeds once after \<open>StartPolling\<close>: it closes the stop channel and wakes the
  goroutine, whose next iteration then ends without touching the socket. A second \<open>StopPolling\<close> panics.\<close>

theorem stop_polling_once:
  assumes "write_fd env (s_trace s) (s_wakeFd s) uvarint_one = Inr 8"
  shows "\<exists>s'. StopPolling env (StartPolling s) = Some (None, s') \<and>
    s_trace s' = SysWrite (s_wakeFd s) uvarint_one # s_trace s \<and>
    poll_step env s' = Some (False, s') \<and> StopPolling env s' = None"
  using assms by (simp add: StopPolling_def StartPolling_def poll_step_def Let_def log_sys_def)

theorem stop_polling_once_witness:
  "\<exists>s'. StopPolling w_env (StartPolling (w_socket (w_port True) (w_cc None []))) = Some (None, s') \<and> StopPolling w_env s' = None"
  using stop_polling_once [of w_env "w_socket (w_port True) (w_cc None [])"] by (auto simp: w_env_def)

section \<open>The example programs\<close>

text \<open>C36: The echo example over one connection (\<^verbatim>\<open>src/example/simple_echo\<close>), for packet buffers of 800 to
  2048 bytes: after the client's first read, any interleaving of iterations of the client's sending loop
  (at times \<open>ts\<close>), of the server's loop and of the client's receiving loop in which the client never has more
  than \<open>2 ^ k\<close> packets outstanding runs without panic, and is a run of the abstract echo service: the time
  stamps the client reads back, then those on their way back, then those not yet served, are exactly those
  it has sent, in order.\<close>

theorem echo_returns_stamps:
  assumes "one_pair (p_run p) k" and "client_ready p k d qt qr" and "\<not> cfg_IsServer (p_cfg p)" and "\<not> p_QuitChan p"
    and "peer_queue srv sqr k 0 (length d)" and "peer_queue srv sqt k (ring_span k) (length d)"
    and "p_rxQueues srv = [sqr]" and "p_txQueues srv = [sqt]"
    and "800 \<le> unat (PacketBufferSize (p_run p))" and "unat (PacketBufferSize (p_run p)) \<le> 2048"
    and "within (2 ^ k) ops 0 0"
  shows "\<exists>e outs. echo_send_queue p = Some (Inr qt) \<and> echo_recv_queue p = Some (Inr qr) \<and>
    echo_server_queues srv = Some (Inr (sqr, sqt)) \<and>
    service_run (echo_submit env) (echo_serve env) echo_fetch (Fetch # ops) (echo_start d p qt qr srv sqr sqt tr) = Some (e, outs) \<and>
    loop_run ops [] [] = (echo_ups k (buffer_at (p_run p) k) e, echo_downs k (buffer_at (p_run p) k) e, outs) \<and>
    submitted ops = outs @ echo_downs k (buffer_at (p_run p) k) e @ echo_ups k (buffer_at (p_run p) k) e"
  by (rule echo_runs [OF assms])

theorem echo_returns_stamps_witness:
  "\<exists>p d e. service_run (echo_submit w_env) (echo_serve w_env) echo_fetch
      [Fetch, Submit 7, Submit 8, Serve, Fetch, Submit 9, Serve, Fetch]
      (echo_start d p (new_queue w_big ringTypeS2M 6) (new_queue w_big ringTypeM2S 6) w_big_server (w_queue ringTypeS2M 0)
         (w_queue ringTypeM2S 160) []) = Some (e, [7, 8])"
proof -
  obtain p d where w: "client_ready p 1 d (new_queue w_big ringTypeS2M 6) (new_queue w_big ringTypeM2S 6)"
    "p_run p = w_big" "length d = 4416" "\<not> cfg_IsServer (p_cfg p)" "\<not> p_QuitChan p" by (rule w_big_client)
  have h: "one_pair (p_run p) 1" "peer_queue w_big_server (w_queue ringTypeS2M 0) 1 0 (length d)"
    "peer_queue w_big_server (w_queue ringTypeM2S 160) 1 (ring_span 1) (length d)" "p_rxQueues w_big_server = [w_queue ringTypeS2M 0]"
    "p_txQueues w_big_server = [w_queue ringTypeM2S 160]" "800 \<le> unat (PacketBufferSize (p_run p))"
    "unat (PacketBufferSize (p_run p)) \<le> 2048"
    using w(2,3) w_big_pair w_big_peer by (simp_all add: w_big_server_def ring_span_def) (simp_all add: w_big_def)
  have "within (2 ^ 1) [Submit (7 :: u64), Submit 8, Serve, Fetch, Submit 9, Serve, Fetch] 0 0" by simp
  from echo_returns_stamps [OF h(1) w(1,4,5) h(2-7) this, of w_env "[]"] show ?thesis by auto
qed

text \<open>C37: Beyond that window packets are lost although every write is accepted, because the two rings share
  their buffers: when all \<open>2 ^ k\<close> slots hold echoes the client has not read, its next send succeeds, and its
  next read returns the new time stamp in place of the oldest one.\<close>

theorem echo_overrun:
  assumes "echo_inv k B bsz e" and "echo_downs k B e = old # rest" and "length (echo_downs k B e) = 2 ^ k"
  shows "\<exists>e1 e2. echo_submit env now e = Some e1 \<and> echo_fetch e1 = Some (e2, Some now)"
  using echo_overrun_reads [OF assms] .

theorem echo_overrun_witness:
  "\<exists>e e1 e2. echo_downs 1 (buffer_at w_big 1) e = [7, 8] \<and> echo_submit w_env 9 e = Some e1 \<and> echo_fetch e1 = Some (e2, Some 9)"
proof -
  obtain p d where w: "client_ready p 1 d (new_queue w_big ringTypeS2M 6) (new_queue w_big ringTypeM2S 6)"
    "p_run p = w_big" "length d = 4416" "\<not> cfg_IsServer (p_cfg p)" "\<not> p_QuitChan p" by (rule w_big_client)
  have h: "one_pair (p_run p) 1" "peer_queue w_big_server (w_queue ringTypeS2M 0) 1 0 (length d)"
    "peer_queue w_big_server (w_queue ringTypeM2S 160) 1 (ring_span 1) (length d)"
    "1024 = unat (PacketBufferSize (p_run p))" "(800 :: nat) \<le> 1024" "(1024 :: nat) \<le> 2048"
    using w(2,3) w_big_pair w_big_peer by (simp_all add: ring_span_def) (simp_all add: w_big_def)
  obtain e0 where e: "echo_inv 1 (buffer_at w_big 1) 1024 e0" "echo_ups 1 (buffer_at w_big 1) e0 = []" "echo_downs 1 (buffer_at w_big 1) e0 = []"
    using echo_established [OF h(1) w(1,4,5) h(2-6), of "[]"] unfolding w(2) by blast
  obtain e1 where "echo_inv 1 (buffer_at w_big 1) 1024 e1" "echo_downs 1 (buffer_at w_big 1) e1 = [7, 8]"
    using echo.run_refines [OF e(1), of "[Submit 7, Submit 8, Serve, Serve]" w_env] e(2,3) by auto
  with echo_overrun [of 1 "buffer_at w_big 1" 1024 e1 7 "[8]" w_env 9] show ?thesis by auto
qed



text \<open>C39: The main programs of the traffic generators, with any behaviour of the system: the set-up never
  panics; if it does not end with a fatal error, the socket is well formed, polling has started, and the
  socket's ports are exactly ports 0 to 15 in this order, with the role and the number of queue pairs of the
  program and the default sizes.\<close>

theorem programs_create_ports:
  "ports_ready 2 False (bw_sender_main env tr name) \<and> ports_ready 2 True (bw_reciever_main env tr name) \<and>
   ports_ready 1 False (dpdk_sender_main env tr name) \<and> ports_ready 1 False (dpdk_reciever_main env tr name)"
  by (simp add: bw_sender_main_def bw_reciever_main_def dpdk_sender_main_def dpdk_reciever_main_def traffic_ports_ready)

theorem programs_create_ports_witness:
  "\<exists>s. bw_reciever_main w_env [] [] = Some (Inr s) \<and>
     map (map_option (\<lambda>c. (cfg_Id c, cfg_IsServer c))) (port_cfgs s) = map (\<lambda>i. Some (of_nat i, True)) [0..<16]"
proof -
  have "case bw_reciever_main w_env [] [] of Some (Inr s) \<Rightarrow> True | _ \<Rightarrow> False" by code_simp
  then obtain s where s: "bw_reciever_main w_env [] [] = Some (Inr s)" by (auto split: option.splits sum.splits)
  have "map (map_option (\<lambda>c. (cfg_Id c, cfg_IsServer c, cfg_MemoryConfig c))) (port_cfgs s) =
      map (\<lambda>i. Some (of_nat i, True, \<lparr> NumQueuePairs = 2, Log2RingSize = DefaultLog2RingSize,
             PacketBufferSize = DefaultPacketBufferSize \<rparr>)) [0..<16]"
    using programs_create_ports [of w_env "[]" "[]"] s by (simp add: ports_ready_def)
  from arg_cong [OF this, of "map (map_option (\<lambda>(i, b, m). (i, b)))"]
  have "map (map_option (\<lambda>c. (cfg_Id c, cfg_IsServer c))) (port_cfgs s) = map (\<lambda>i. Some (of_nat i, True)) [0..<16]"
    by (simp add: comp_def option.map_comp del: upt_Suc)
  with s show ?thesis by blast
qed

text \<open>C40: A queue must not be used across a disconnect: once \<open>disconnect\<close> has returned without error, the
  port has no memory any more, and every \<open>ReadPacket\<close> and \<open>WritePacket\<close> on a queue that the application still
  holds panics.\<close>

theorem held_queues_panic:
  assumes "s_ports s i = Some p" and "p_cc p \<noteq> None" and "port_disconnect env i s = Some (None, s')"
  shows "\<exists>p'. s_ports s' i = Some p' \<and> p_regions p' = [] \<and> p_cc p' = None \<and>
    ReadPacket p' q pkt = None \<and> WritePacket env' p' q pkt tr = None"
proof -
  obtain p' where p': "s_ports s' i = Some p'" "p_regions p' = []" "p_cc p' = None"
    using port_disconnect_clears [OF assms] by blast
  have "region_data p' j = None" for j using p'(2) by (simp add: region_data_def go_nth_def)
  then have "readHead p' q = None" "readTail p' q = None" by (simp_all add: readHead_def readTail_def)
  with p' show ?thesis by (auto simp: ReadPacket_def WritePacket_def Let_def)
qed

theorem held_queues_panic_witness:
  "\<exists>s' p'. port_disconnect w_env 0 (w_socket (w_greeted_port\<lparr>p_cc := Some 1\<rparr>) (w_cc (Some 0) [])) = Some (None, s') \<and>
     s_ports s' 0 = Some p' \<and> ReadPacket p' (w_queue ringTypeS2M 0) (replicate 64 0) = None"
proof -
  let ?p = "w_greeted_port\<lparr>p_cc := Some 1\<rparr>"
  let ?s = "w_socket ?p (w_cc (Some 0) [])"
  have p: "s_ports ?s 0 = Some ?p" "p_cc ?p \<noteq> None" by (simp_all add: w_socket_def)
  have "map_option fst (port_disconnect w_env 0 ?s) = Some None" by code_simp
  then obtain s' where c: "port_disconnect w_env 0 ?s = Some (None, s')" by auto
  from held_queues_panic [OF p c, of "w_queue ringTypeS2M 0" "replicate 64 0" w_env "[]"] c show ?thesis by blast
qed

end
